(* ===== verification/Prelude.thy ===== *)
theory Prelude
  imports Main "HOL-Library.Multiset"
begin

text \<open>
  Shared vocabulary of the chtiwt development.  Go strings and byte slices are HOL strings
  (a HOL \<open>char\<close> is exactly one byte); a fallible Go function returns a value of \<open>'e + 'a\<close>
  with the error on the left; time is counted in nanoseconds as an unbounded integer, and
  \<open>time.Duration\<close> keeps the saturation of \<open>time.Time.Sub\<close>.  The theory also holds the
  generic list lemmas and the interfaces every component reuses: step systems with an invariant
  (total, fallible, or safe for admissible events), and the run of a fallible step over events.
\<close>

section \<open>Types\<close>

type_synonym byte = char
type_synonym bytes = "byte list"
type_synonym time = int
type_synonym duration = int

named_theorems go_simps \<open>unfolding rules for the primitives of the Go model\<close>
named_theorems inv_intros \<open>introduction rules for the component invariants\<close>

section \<open>Results\<close>

text \<open>Sequencing of fallible operations: the first error is the result.\<close>

definition bindE :: "'e + 'a \<Rightarrow> ('a \<Rightarrow> 'e + 'b) \<Rightarrow> 'e + 'b" where
  "bindE x f = (case x of Inl e \<Rightarrow> Inl e | Inr a \<Rightarrow> f a)"

fun isOk :: "'e + 'a \<Rightarrow> bool" where
  "isOk (Inl _) = False"
| "isOk (Inr _) = True"

text \<open>A fallible step run over a list of events; it stops at the first error.\<close>

fun runE :: "('ev \<Rightarrow> 's \<Rightarrow> 'e + 's) \<Rightarrow> 'ev list \<Rightarrow> 's \<Rightarrow> 'e + 's" where
  "runE f [] s = Inr s"
| "runE f (e # es) s = bindE (f e s) (runE f es)"

section \<open>Slices\<close>

text \<open>
  The last \<open>k\<close> elements, and Go's \<open>copy(dst[off:], src)\<close>, which copies as many elements
  as both slices have.
\<close>

definition lastn :: "nat \<Rightarrow> 'a list \<Rightarrow> 'a list" where
  "lastn k xs = drop (length xs - k) xs"

definition copy_at :: "nat \<Rightarrow> 'a list \<Rightarrow> 'a list \<Rightarrow> 'a list" where
  "copy_at off src dst =
     take off dst @ take (length dst - off) src @ drop (off + length src) dst"

section \<open>Time\<close>

text \<open>
  \<open>time.Duration\<close> is an \<open>int64\<close> number of nanoseconds; \<open>Time.Sub\<close> saturates at its bounds.
\<close>

definition maxDuration :: duration where
  "maxDuration = 2 ^ 63 - 1"

definition minDuration :: duration where
  "minDuration = - (2 ^ 63)"

definition time_Sub :: "time \<Rightarrow> time \<Rightarrow> duration" where
  "time_Sub t u = max minDuration (min maxDuration (t - u))"

section \<open>Lemmas on results\<close>

lemma bindE_simps [simp]:
  "bindE (Inl e) f = Inl e"
  "bindE (Inr a) f = f a"
  by (simp_all add: bindE_def)

lemma bindE_eq_Inr [simp]: "bindE x f = Inr b \<longleftrightarrow> (\<exists>a. x = Inr a \<and> f a = Inr b)"
  by (cases x) simp_all

lemma bindE_eq_Inl: "bindE x f = Inl e \<longleftrightarrow> x = Inl e \<or> (\<exists>a. x = Inr a \<and> f a = Inl e)"
  by (cases x) simp_all

lemma runE_append: "runE f (es @ fs) s = bindE (runE f es s) (runE f fs)"
proof (induction es arbitrary: s)
  case (Cons e es)
  then show ?case by (cases "f e s") simp_all
qed simp

section \<open>Lemmas on slices\<close>

lemma length_lastn [simp]: "length (lastn k xs) = min k (length xs)"
  by (simp add: lastn_def)

lemma lastn_all [simp]: "length xs \<le> k \<Longrightarrow> lastn k xs = xs"
  by (simp add: lastn_def)

lemma lastn_append: "lastn k (xs @ ys) = lastn (k - length ys) xs @ lastn k ys"
proof (cases "k \<le> length ys")
  case False
  then have "length xs + length ys - k = length xs - (k - length ys)" by arith
  with False show ?thesis by (simp add: lastn_def)
qed (simp add: lastn_def)

lemma lastn_lastn: "j \<le> k \<Longrightarrow> lastn j (lastn k xs) = lastn j xs"
proof -
  assume "j \<le> k"
  then have "length xs - k + (length xs - (j + (length xs - k))) = length xs - j" by arith
  then show ?thesis by (simp add: lastn_def add.commute)
qed

lemma lastn_lastn_append [simp]: "lastn k (lastn k xs @ ys) = lastn k (xs @ ys)"
  by (simp add: lastn_append lastn_lastn)

lemma lastn_append_long: "k \<le> length ys \<Longrightarrow> lastn k (xs @ ys) = lastn k ys"
  by (simp add: lastn_append) (simp add: lastn_def)

lemma lastn_append_exact: "length ys = k \<Longrightarrow> lastn k (xs @ ys) = ys"
  by (simp add: lastn_append_long)

lemma length_copy_at [simp]: "off \<le> length dst \<Longrightarrow> length (copy_at off src dst) = length dst"
  by (simp add: copy_at_def)

lemma copy_at_fits:
  "off + length src \<le> length dst \<Longrightarrow>
   copy_at off src dst = take off dst @ src @ drop (off + length src) dst"
  by (simp add: copy_at_def)

lemma drop_eq_Cons_length: "drop n xs = y # ys \<Longrightarrow> length ys < length xs"
proof -
  assume "drop n xs = y # ys"
  then have "length (drop n xs) = Suc (length ys)" by simp
  then show ?thesis by simp
qed

lemma takeWhile_rest:
  "drop (length (takeWhile P s)) s = c # s' \<Longrightarrow> s = takeWhile P s @ c # s' \<and> \<not> P c"
  by (induction s) (auto split: if_splits)

section \<open>Step systems and invariants\<close>

text \<open>
  A component is a start state, a partial step on events (an error is a crash of the
  component) and a guard that says which events its environment may produce.  The laws: the
  invariant holds at the start, and every admissible event succeeds and keeps it.  Clients
  get totality and the invariant for every admissible run.
\<close>

fun admissible :: "('s \<Rightarrow> 'ev \<Rightarrow> bool) \<Rightarrow> ('ev \<Rightarrow> 's \<Rightarrow> 'e + 's) \<Rightarrow> 's \<Rightarrow> 'ev list \<Rightarrow> bool" where
  "admissible ok f s [] = True"
| "admissible ok f s (e # es) =
     (ok s e \<and> (case f e s of Inl _ \<Rightarrow> True | Inr s' \<Rightarrow> admissible ok f s' es))"

locale step_system =
  fixes init :: "'s"
    and step :: "'ev \<Rightarrow> 's \<Rightarrow> 'e + 's"
    and ok :: "'s \<Rightarrow> 'ev \<Rightarrow> bool"
    and inv :: "'s \<Rightarrow> bool"
  assumes inv_init: "inv init"
    and step_total: "inv s \<Longrightarrow> ok s e \<Longrightarrow> \<exists>s'. step e s = Inr s'"
    and step_inv: "inv s \<Longrightarrow> ok s e \<Longrightarrow> step e s = Inr s' \<Longrightarrow> inv s'"
begin

lemma run_total_from: "inv s \<Longrightarrow> admissible ok step s es \<Longrightarrow> \<exists>s'. runE step es s = Inr s' \<and> inv s'"
proof (induction es arbitrary: s)
  case (Cons e es)
  then obtain s' where s': "step e s = Inr s'"
    using step_total by fastforce
  with Cons.prems have "inv s'" "admissible ok step s' es"
    using step_inv by auto
  with Cons.IH s' show ?case by simp
qed simp

lemma run_total: "admissible ok step init es \<Longrightarrow> \<exists>s. runE step es init = Inr s \<and> inv s"
  using inv_init run_total_from by blast

end

text \<open>
  The same for components whose steps cannot crash: a set of start states, a total step and an
  invariant.  The invariant holds along every run, so a run may be cut anywhere.
\<close>

locale total_system =
  fixes start :: "'s \<Rightarrow> bool"
    and step :: "'ev \<Rightarrow> 's \<Rightarrow> 's"
    and inv :: "'s \<Rightarrow> bool"
  assumes inv_start: "start s \<Longrightarrow> inv s"
    and inv_step: "inv s \<Longrightarrow> inv (step e s)"
begin

lemma inv_fold: "inv s \<Longrightarrow> inv (fold step es s)"
  by (induction es arbitrary: s) (simp_all add: inv_step)

lemma inv_run: "start s \<Longrightarrow> inv (fold step es s)"
  by (simp add: inv_start inv_fold)

text \<open>A second relation kept by the steps between states of the invariant is kept along runs.\<close>

lemma fold_related:
  assumes "inv s" "P s" "\<And>e s. e \<in> set es \<Longrightarrow> inv s \<Longrightarrow> P s \<Longrightarrow> P (step e s)"
  shows "P (fold step es s)"
  using assms by (induction es arbitrary: s) (auto simp: inv_step)

end

text \<open>A system whose steps may fail: the invariant holds as long as none did.\<close>

locale partial_system =
  fixes start :: "'s \<Rightarrow> bool"
    and step :: "'ev \<Rightarrow> 's \<Rightarrow> 'e + 's"
    and inv :: "'s \<Rightarrow> bool"
  assumes inv_start: "start s \<Longrightarrow> inv s"
    and inv_step: "inv s \<Longrightarrow> step e s = Inr s' \<Longrightarrow> inv s'"
begin

lemma inv_runE: "inv s \<Longrightarrow> runE step es s = Inr s' \<Longrightarrow> inv s'"
  by (induction es arbitrary: s) (auto dest: inv_step)

lemma run_related:
  assumes "inv s" "P s" "runE step es s = Inr s'"
    and "\<And>e s t. e \<in> set es \<Longrightarrow> inv s \<Longrightarrow> P s \<Longrightarrow> step e s = Inr t \<Longrightarrow> P t"
  shows "P s'"
  using assms
proof (induction es arbitrary: s)
  case (Cons e es)
  then obtain t where t: "step e s = Inr t" "runE step es t = Inr s'" by auto
  have "inv t" using Cons.prems(1) t(1) by (rule inv_step)
  moreover have "P t" using Cons.prems(4) [of e s t] Cons.prems(1,2) t(1) by simp
  ultimately show ?case by (rule Cons.IH [OF _ _ t(2)]) (rule Cons.prems(4), simp_all)
qed simp

end

end
