(* ===== verification/Refcount.thy ===== *)
theory Refcount
  imports Prelude "HOL-Library.Finite_Map"
begin

text \<open>
  The counting maps of the chat room: \<open>m[k]++\<close> with a test for the first connection, and
  \<open>m[k]--\<close> that deletes the entry when it reaches zero (\<open>internal/chat/hub.go\<close>, both for
  \<open>viewerCounts\<close> and for \<open>userPresence\<close>).  The interface \<open>refcount\<close> states what the room
  relies on in terms of the multiset of connections the map stands for.
\<close>

section \<open>Go maps with integer values\<close>

type_synonym counts = "(string, int) fmap"

definition count_get :: "counts \<Rightarrow> string \<Rightarrow> int" where
  "count_get m k = (case fmlookup m k of None \<Rightarrow> 0 | Some n \<Rightarrow> n)"

definition count_incr :: "string \<Rightarrow> counts \<Rightarrow> bool \<times> counts" where
  "count_incr k m =
     (let m1 = fmupd k (count_get m k + 1) m in (count_get m1 k = 1, m1))"

definition count_decr :: "string \<Rightarrow> counts \<Rightarrow> bool \<times> counts" where
  "count_decr k m =
     (let m1 = fmupd k (count_get m k - 1) m
      in if count_get m1 k \<le> 0 then (True, fmdrop k m1) else (False, m1))"

definition count_len :: "counts \<Rightarrow> nat" where
  "count_len m = fcard (fmdom m)"

text \<open>The map holds exactly the positive multiplicities of a multiset of keys.\<close>

definition counts_of :: "counts \<Rightarrow> string multiset \<Rightarrow> bool" where
  "counts_of m M \<longleftrightarrow>
     (\<forall>k. fmlookup m k = (if k \<in># M then Some (int (count M k)) else None))"

section \<open>The interface\<close>

locale refcount =
  fixes empty :: "'m"
    and incr :: "'k \<Rightarrow> 'm \<Rightarrow> bool \<times> 'm"
    and decr :: "'k \<Rightarrow> 'm \<Rightarrow> bool \<times> 'm"
    and len :: "'m \<Rightarrow> nat"
    and rep :: "'m \<Rightarrow> 'k multiset \<Rightarrow> bool"
  assumes rep_empty: "rep empty {#}"
    and rep_incr: "rep m M \<Longrightarrow> rep (snd (incr k m)) (add_mset k M)"
    and incr_first: "rep m M \<Longrightarrow> fst (incr k m) \<longleftrightarrow> k \<notin># M"
    and rep_decr: "rep m M \<Longrightarrow> k \<in># M \<Longrightarrow> rep (snd (decr k m)) (M - {#k#})"
    and decr_last: "rep m M \<Longrightarrow> k \<in># M \<Longrightarrow> fst (decr k m) \<longleftrightarrow> count M k = 1"
    and rep_len: "rep m M \<Longrightarrow> len m = card (set_mset M)"
    and rep_unique: "rep m M \<Longrightarrow> rep m' M \<Longrightarrow> m = m'"
begin

text \<open>Opening a connection and closing it again restores the map.\<close>

lemma incr_decr_restores: "rep m M \<Longrightarrow> snd (decr k (snd (incr k m))) = m"
  using rep_decr [OF rep_incr, of m M k k] by (auto intro: rep_unique)

lemma incr_decr_flags:
  "rep m M \<Longrightarrow> fst (decr k (snd (incr k m))) \<longleftrightarrow> fst (incr k m)"
  using decr_last [OF rep_incr, of m M k k] by (auto simp: incr_first not_in_iff)

text \<open>Any number of connections under one key announce it exactly once.\<close>

fun opens :: "'k \<Rightarrow> nat \<Rightarrow> 'm \<Rightarrow> bool list \<times> 'm" where
  "opens k 0 m = ([], m)"
| "opens k (Suc n) m =
     (let (b, m1) = incr k m; (bs, m2) = opens k n m1 in (b # bs, m2))"

lemma opens_again: "rep m M \<Longrightarrow> k \<in># M \<Longrightarrow> fst (opens k n m) = replicate n False"
proof (induction n arbitrary: m M)
  case (Suc n)
  obtain b m1 where b: "incr k m = (b, m1)" by (cases "incr k m")
  with Suc.prems have "\<not> b" "rep m1 (add_mset k M)"
    using incr_first [of m M k] rep_incr [of m M k] by auto
  with Suc.IH [of m1 "add_mset k M"] show ?case
    by (simp add: b split: prod.splits) (metis fst_conv)
qed simp

lemma opens_once:
  "rep m M \<Longrightarrow> k \<notin># M \<Longrightarrow> fst (opens k (Suc n) m) = True # replicate n False"
  using opens_again [of "snd (incr k m)" "add_mset k M" k n] rep_incr [of m M k] incr_first [of m M k]
  by (auto split: prod.splits)

end

section \<open>The Go maps implement it\<close>

lemma counts_of_get: "counts_of m M \<Longrightarrow> count_get m k = int (count M k)"
  by (auto simp: counts_of_def count_get_def not_in_iff)

lemma counts_of_empty: "counts_of fmempty {#}"
  by (simp add: counts_of_def)

lemma counts_of_dom: "counts_of m M \<Longrightarrow> fset (fmdom m) = set_mset M"
proof -
  assume m: "counts_of m M"
  have "k \<in> fset (fmdom m) \<longleftrightarrow> k \<in> set_mset M" for k
    using m by (simp add: counts_of_def fmlookup_dom_iff)
  then show ?thesis by blast
qed

lemma counts_of_incr: "counts_of m M \<Longrightarrow> counts_of (snd (count_incr k m)) (add_mset k M)"
  using counts_of_get [of m M k] by (auto simp: counts_of_def count_incr_def Let_def)

lemma counts_of_decr:
  "counts_of m M \<Longrightarrow> k \<in># M \<Longrightarrow> counts_of (snd (count_decr k m)) (M - {#k#})"
  using counts_of_get [of m M k]
  by (auto simp: counts_of_def count_decr_def count_get_def Let_def in_diff_count not_in_iff
      dest: count_inI)

lemma counts_of_unique: "counts_of m M \<Longrightarrow> counts_of m' M \<Longrightarrow> m = m'"
  by (rule fmap_ext) (simp add: counts_of_def)

interpretation counts: refcount "fmempty :: counts" count_incr count_decr count_len counts_of
proof
  fix m :: counts and M k
  assume m: "counts_of m M"
  note get = counts_of_get [OF m]
  show "fst (count_incr k m) \<longleftrightarrow> k \<notin># M"
    by (auto simp: count_incr_def Let_def count_get_def get [unfolded count_get_def] not_in_iff)
  show "count_len m = card (set_mset M)"
    using m by (simp add: count_len_def fcard.rep_eq counts_of_dom)
  show "fst (count_decr k m) \<longleftrightarrow> count M k = 1" if "k \<in># M"
    using that get [of k] count_greater_zero_iff [of M k]
    by (auto simp: count_decr_def Let_def count_get_def simp del: count_greater_zero_iff)
qed (auto simp: counts_of_empty intro: counts_of_incr counts_of_decr counts_of_unique)

end
