(* ===== verification/Chat_Hub.thy ===== *)
theory Chat_Hub
  imports Refcount "HOL-Library.Word"
begin

text \<open>
  \<open>internal/chat/hub.go\<close> with the message envelope of \<open>dto.go\<close> and the client record of
  \<open>ws.go\<close>: the per-channel room actor.  The record \<open>room\<close> holds the local variables of
  \<open>run\<close>, the heap cells of the clients it points to (each with its bounded \<open>out\<close> channel)
  and the atomic viewer-count cache.  One handler per arm of the \<open>select\<close>; a panic of the
  source (send on, or close of, a closed channel) is the left value of the result.

  Go's map iteration order is an argument (\<open>iter\<close>) of every handler that ranges over the
  client set; the environment's choices (clock, message ids, how much of a client's queue
  its writer goroutine has taken meanwhile) are arguments of the events.
\<close>

section \<open>Messages and clients\<close>

datatype MessageKind = KindMessage | KindSystem | KindError | KindViewers

record Message =
  ID :: string
  Type :: MessageKind
  User :: string
  Body :: string
  At :: "time option" \<comment> \<open>\<open>None\<close> is the zero time\<close>
  Count :: int

definition historySize :: nat where
  "historySize = 50"

definition clientSendBuffer :: nat where
  "clientSendBuffer = 32"

definition roomIdleAfter :: duration where
  "roomIdleAfter = 30 * 1000000000"

record inbound =
  in_user :: string
  in_body :: string

text \<open>\<open>out\<close> is the buffered part of the channel; \<open>rcvd\<close> is what the client's writer loop has
  taken off it so far, in order.\<close>

record client =
  username :: string
  userID :: int
  anonKey :: string
  out :: "Message list"
  out_closed :: bool
  closed :: bool
  rcvd :: "Message list"

definition viewerKey :: "client \<Rightarrow> string" where
  "viewerKey c =
     (if username c \<noteq> '''' then ''u:'' @ username c
      else if anonKey c \<noteq> '''' then ''g:'' @ anonKey c
      else '''')"

definition newClient :: "string \<Rightarrow> int \<Rightarrow> string \<Rightarrow> client" where
  "newClient u uid ak =
     \<lparr>username = u, userID = uid, anonKey = ak, out = [], out_closed = False, closed = False,
      rcvd = []\<rparr>"

section \<open>Channel operations\<close>

datatype panic = SendOnClosedChannel | CloseOfClosedChannel

text \<open>The \<open>select\<close> with a default arm: send if the buffer has room.\<close>

definition trySend :: "Message \<Rightarrow> client \<Rightarrow> panic + (bool \<times> client)" where
  "trySend m c =
     (if out_closed c then Inl SendOnClosedChannel
      else if length (out c) < clientSendBuffer then Inr (True, c\<lparr>out := out c @ [m]\<rparr>)
      else Inr (False, c))"

definition closeOut :: "client \<Rightarrow> panic + client" where
  "closeOut c = (if out_closed c then Inl CloseOfClosedChannel else Inr (c\<lparr>out_closed := True\<rparr>))"

definition writerRecv :: "nat \<Rightarrow> client \<Rightarrow> client" where
  "writerRecv n c = c\<lparr>out := drop n (out c), rcvd := rcvd c @ take n (out c)\<rparr>"

section \<open>The room\<close>

type_synonym cid = nat
type_synonym iteration = "cid fset \<Rightarrow> cid list"

record room =
  room_name :: string
  heap :: "cid \<Rightarrow> client"
  clients :: "cid fset"
  history :: "Message list"
  userPresence :: counts
  viewerCounts :: counts
  viewerCount :: "32 word"
  hasOnEmpty :: bool
  onEmptyCalls :: nat
  running :: bool

definition newRoom :: "string \<Rightarrow> bool \<Rightarrow> room" where
  "newRoom nm onEmpty =
     \<lparr>room_name = nm, heap = (\<lambda>_. newClient '''' 0 ''''), clients = {||}, history = [],
      userPresence = fmempty, viewerCounts = fmempty, viewerCount = 0, hasOnEmpty = onEmpty,
      onEmptyCalls = 0, running = True\<rparr>"

definition viewerMessage :: "room \<Rightarrow> Message" where
  "viewerMessage r =
     \<lparr>ID = '''', Type = KindViewers, User = '''', Body = '''', At = None,
      Count = int (count_len (viewerCounts r))\<rparr>"

definition systemMessage :: "string \<Rightarrow> time \<Rightarrow> Message" where
  "systemMessage b now =
     \<lparr>ID = '''', Type = KindSystem, User = '''', Body = b, At = Some now, Count = 0\<rparr>"

definition publishCount :: "room \<Rightarrow> room" where
  "publishCount r = r\<lparr>viewerCount := of_nat (count_len (viewerCounts r))\<rparr>"

definition appendHistory :: "Message \<Rightarrow> room \<Rightarrow> room" where
  "appendHistory m r =
     (let h = (if length (history r) = historySize then tl (history r) else history r)
      in r\<lparr>history := h @ [m]\<rparr>)"

definition removeClient :: "cid \<Rightarrow> room \<Rightarrow> panic + ((bool \<times> bool) \<times> room)" where
  "removeClient c r =
     (let cl = heap r c in
      if closed cl then Inr ((False, False), r)
      else
        bindE (closeOut (cl\<lparr>closed := True\<rparr>)) (\<lambda>cl'.
          let r1 = r\<lparr>heap := (heap r)(c := cl'), clients := clients r |-| {|c|}\<rparr>;
              vk = viewerKey cl;
              (viewerChanged, vcs) =
                (if vk \<noteq> '''' then count_decr vk (viewerCounts r1) else (False, viewerCounts r1));
              (wasLastPresence, ups) =
                (if username cl \<noteq> '''' then count_decr (username cl) (userPresence r1)
                 else (False, userPresence r1))
          in Inr ((wasLastPresence, viewerChanged),
                  r1\<lparr>viewerCounts := vcs, userPresence := ups\<rparr>)))"

fun dispatch_loop :: "Message \<Rightarrow> cid list \<Rightarrow> room \<Rightarrow> panic + room" where
  "dispatch_loop m [] r = Inr r"
| "dispatch_loop m (c # cs) r =
     bindE (trySend m (heap r c)) (\<lambda>(sent, cl).
       if sent then dispatch_loop m cs (r\<lparr>heap := (heap r)(c := cl)\<rparr>)
       else bindE (removeClient c r) (\<lambda>(_, r'). dispatch_loop m cs r'))"

definition dispatch :: "iteration \<Rightarrow> Message \<Rightarrow> room \<Rightarrow> panic + room" where
  "dispatch iter m r = dispatch_loop m (iter (clients r)) r"

section \<open>The arms of the select\<close>

text \<open>
  The backlog of a joiner: before each send the client's writer may have taken some messages
  off the channel (the list \<open>ds\<close>, one number per send, none where the list ends).
\<close>

fun deliverHistory :: "Message list \<Rightarrow> nat list \<Rightarrow> client \<Rightarrow> panic + (bool \<times> client)" where
  "deliverHistory [] ds c = Inr (False, c)"
| "deliverHistory (m # ms) ds c =
     (let c1 = writerRecv (case ds of [] \<Rightarrow> 0 | d # _ \<Rightarrow> d) c in
      bindE (trySend m c1) (\<lambda>(sent, c2).
        if sent then deliverHistory ms (tl ds) c2 else Inr (True, c2)))"

definition room_join :: "iteration \<Rightarrow> cid \<Rightarrow> nat list \<Rightarrow> time \<Rightarrow> room \<Rightarrow> panic + room" where
  "room_join iter c ds now r =
     bindE (deliverHistory (history r) ds (heap r c)) (\<lambda>(overflow, cl).
       if overflow then
         bindE (closeOut cl) (\<lambda>cl'. Inr (r\<lparr>heap := (heap r)(c := cl')\<rparr>))
       else
         let r1 = r\<lparr>heap := (heap r)(c := cl), clients := finsert c (clients r)\<rparr>;
             vk = viewerKey cl;
             (viewerChanged, vcs) =
               (if vk \<noteq> '''' then count_incr vk (viewerCounts r1) else (False, viewerCounts r1));
             r2 = r1\<lparr>viewerCounts := vcs\<rparr>;
             (firstPresence, ups) =
               (if username cl \<noteq> '''' then count_incr (username cl) (userPresence r2)
                else (False, userPresence r2));
             r3 = r2\<lparr>userPresence := ups\<rparr>
         in bindE
              (if firstPresence then dispatch iter (systemMessage (username cl @ '' joined'') now) r3
               else Inr r3)
              (\<lambda>r4.
                if viewerChanged then
                  (let r5 = publishCount r4 in dispatch iter (viewerMessage r5) r5)
                else
                  bindE (trySend (viewerMessage r4) (heap r4 c)) (\<lambda>(_, cl2).
                    Inr (r4\<lparr>heap := (heap r4)(c := cl2)\<rparr>))))"

definition room_leave :: "iteration \<Rightarrow> cid \<Rightarrow> time \<Rightarrow> room \<Rightarrow> panic + room" where
  "room_leave iter c now r =
     bindE (removeClient c r) (\<lambda>((wasLastPresence, viewerChanged), r1).
       bindE
         (if wasLastPresence
          then dispatch iter (systemMessage (username (heap r1 c) @ '' left'') now) r1
          else Inr r1)
         (\<lambda>r2.
           bindE
             (if viewerChanged
              then (let r3 = publishCount r2 in dispatch iter (viewerMessage r3) r3)
              else Inr r2)
             (\<lambda>r4. Inr (if clients r4 = {||} \<and> hasOnEmpty r4
                        then r4\<lparr>onEmptyCalls := onEmptyCalls r4 + 1\<rparr> else r4))))"

definition chatMessage :: "inbound \<Rightarrow> string \<Rightarrow> time \<Rightarrow> Message" where
  "chatMessage msg uid now =
     \<lparr>ID = uid, Type = KindMessage, User = in_user msg, Body = in_body msg, At = Some now, Count = 0\<rparr>"

definition room_send :: "iteration \<Rightarrow> inbound \<Rightarrow> string \<Rightarrow> time \<Rightarrow> room \<Rightarrow> panic + room" where
  "room_send iter msg uid now r =
     (let m = chatMessage msg uid now in dispatch iter m (appendHistory m r))"

fun stop_loop :: "cid list \<Rightarrow> room \<Rightarrow> panic + room" where
  "stop_loop [] r = Inr r"
| "stop_loop (c # cs) r = bindE (removeClient c r) (\<lambda>(_, r'). stop_loop cs r')"

definition room_stop :: "iteration \<Rightarrow> room \<Rightarrow> panic + room" where
  "room_stop iter r =
     bindE (stop_loop (iter (clients r)) r) (\<lambda>r'. Inr (r'\<lparr>running := False\<rparr>))"

text \<open>
  The events of a room: the four arms of \<open>run\<close>, the creation of a client object by
  \<open>ServeWS\<close>, and a receive by a client's writer loop.  A room whose \<open>run\<close> has returned
  handles no further arm.
\<close>

datatype room_event =
    Connect cid string int string
  | Join cid "nat list" time
  | Leave cid time
  | Send inbound string time
  | Stop
  | Recv cid nat

fun room_step :: "iteration \<Rightarrow> room_event \<Rightarrow> room \<Rightarrow> panic + room" where
  "room_step iter (Connect c u uid ak) r = Inr (r\<lparr>heap := (heap r)(c := newClient u uid ak)\<rparr>)"
| "room_step iter (Recv c n) r = Inr (r\<lparr>heap := (heap r)(c := writerRecv n (heap r c))\<rparr>)"
| "room_step iter (Join c ds now) r = (if running r then room_join iter c ds now r else Inr r)"
| "room_step iter (Leave c now) r = (if running r then room_leave iter c now r else Inr r)"
| "room_step iter (Send msg uid now) r = (if running r then room_send iter msg uid now r else Inr r)"
| "room_step iter Stop r = (if running r then room_stop iter r else Inr r)"

section \<open>Specification\<close>

definition enumerates :: "iteration \<Rightarrow> bool" where
  "enumerates iter \<longleftrightarrow> (\<forall>A. distinct (iter A) \<and> set (iter A) = fset A)"

text \<open>The keys of the registered connections, with multiplicity.\<close>

definition conn_mset :: "(client \<Rightarrow> string) \<Rightarrow> (cid \<Rightarrow> client) \<Rightarrow> cid fset \<Rightarrow> string multiset" where
  "conn_mset f H A =
     filter_mset (\<lambda>k. k \<noteq> '''') (image_mset (\<lambda>c. f (H c)) (mset_set (fset A)))"

definition viewer_mset :: "room \<Rightarrow> string multiset" where
  "viewer_mset r = conn_mset viewerKey (heap r) (clients r)"

definition user_mset :: "room \<Rightarrow> string multiset" where
  "user_mset r = conn_mset username (heap r) (clients r)"

definition room_inv :: "room \<Rightarrow> bool" where
  "room_inv r \<longleftrightarrow>
     (\<forall>c. c |\<in>| clients r \<longrightarrow> \<not> closed (heap r c) \<and> \<not> out_closed (heap r c)) \<and>
     (\<forall>c. length (out (heap r c)) \<le> clientSendBuffer) \<and>
     counts_of (viewerCounts r) (viewer_mset r) \<and>
     counts_of (userPresence r) (user_mset r) \<and>
     length (history r) \<le> historySize"

text \<open>What one broadcast does to a registered client: enqueue, or evict when the queue is full.\<close>

definition deliver :: "Message \<Rightarrow> client \<Rightarrow> client" where
  "deliver m c =
     (if length (out c) < clientSendBuffer then c\<lparr>out := out c @ [m]\<rparr>
      else c\<lparr>closed := True, out_closed := True\<rparr>)"

definition slow :: "room \<Rightarrow> cid fset" where
  "slow r = ffilter (\<lambda>c. clientSendBuffer \<le> length (out (heap r c))) (clients r)"

definition fresh_client :: "client \<Rightarrow> bool" where
  "fresh_client c \<longleftrightarrow> \<not> closed c \<and> \<not> out_closed c \<and> out c = []"

text \<open>
  The order in which \<open>ServeWS\<close> is meant to use a room: a client object is new, joins once, is
  able to take its backlog, and leaves only after the room has handled its join.
\<close>

fun event_ok :: "room \<Rightarrow> room_event \<Rightarrow> bool" where
  "event_ok r (Connect c u uid ak) = (c |\<notin>| clients r)"
| "event_ok r (Join c ds now) =
     (c |\<notin>| clients r \<and> fresh_client (heap r c) \<and>
      (case deliverHistory (history r) ds (heap r c) of Inl _ \<Rightarrow> False | Inr (ov, _) \<Rightarrow> \<not> ov))"
| "event_ok r (Leave c now) = (c |\<in>| clients r \<or> closed (heap r c))"
| "event_ok r e = True"

end
