(* ===== verification/Chat_Room.thy ===== *)
theory Chat_Room
  imports Chat_Hub
begin

text \<open>
  Proofs about the room actor of \<open>Chat_Hub\<close>: the multiset of connections behind the two
  counting maps, the effect of removing a client and of one broadcast, and that every arm of
  the \<open>select\<close> keeps the invariant without panicking when clients use the room in order.
\<close>

section \<open>Connections as a multiset\<close>

lemma conn_mset_empty [simp]: "conn_mset f H {||} = {#}"
  by (simp add: conn_mset_def)

lemma conn_mset_insert:
  "c |\<notin>| A \<Longrightarrow>
   conn_mset f H (finsert c A) =
     (if f (H c) = '''' then conn_mset f H A else add_mset (f (H c)) (conn_mset f H A))"
  by (simp add: conn_mset_def)

lemma conn_mset_remove:
  "c |\<in>| A \<Longrightarrow>
   conn_mset f H (A |-| {|c|}) =
     (if f (H c) = '''' then conn_mset f H A else conn_mset f H A - {#f (H c)#})"
  using conn_mset_insert [of c "A |-| {|c|}" f H] by (simp add: finsert_absorb split: if_splits)

lemma conn_mset_iff: "k \<in># conn_mset f H A \<longleftrightarrow> k \<noteq> '''' \<and> (\<exists>c. c |\<in>| A \<and> f (H c) = k)"
  by (auto simp: conn_mset_def)

lemma conn_mset_cong:
  "(\<And>c. c |\<in>| A \<Longrightarrow> f (H c) = f (H' c)) \<Longrightarrow> conn_mset f H A = conn_mset f H' A"
  unfolding conn_mset_def by (rule arg_cong [where f = "filter_mset _"], rule image_mset_cong) simp

lemma conn_mset_upd [simp]: "f x = f (H c) \<Longrightarrow> conn_mset f (H(c := x)) A = conn_mset f H A"
  by (rule conn_mset_cong) simp

lemma viewerKey_simps [simp]:
  "viewerKey (c\<lparr>out := x\<rparr>) = viewerKey c"
  "viewerKey (c\<lparr>out_closed := b\<rparr>) = viewerKey c"
  "viewerKey (c\<lparr>closed := b\<rparr>) = viewerKey c"
  "viewerKey (c\<lparr>rcvd := x\<rparr>) = viewerKey c"
  by (simp_all add: viewerKey_def)

lemma viewerKey_user: "username c \<noteq> '''' \<Longrightarrow> viewerKey c = ''u:'' @ username c"
  by (simp add: viewerKey_def)

lemma viewerKey_eq_user: "viewerKey c = ''u:'' @ u \<longleftrightarrow> username c = u" if "u \<noteq> ''''"
  using that by (auto simp: viewerKey_def)

text \<open>The two maps agree on users: a name is present iff its viewer key is.\<close>

lemma viewer_user_present:
  assumes "u \<noteq> ''''"
  shows "''u:'' @ u \<in># conn_mset viewerKey H A \<longleftrightarrow> u \<in># conn_mset username H A"
  unfolding conn_mset_iff viewerKey_eq_user [OF assms] using assms by simp

section \<open>Removing one client\<close>

definition evicted :: "client \<Rightarrow> client" where
  "evicted c = c\<lparr>closed := True, out_closed := True\<rparr>"

lemma evicted_simps [simp]:
  "viewerKey (evicted c) = viewerKey c" "username (evicted c) = username c"
  "out (evicted c) = out c" "closed (evicted c)" "out_closed (evicted c)" "rcvd (evicted c) = rcvd c"
  by (simp_all add: evicted_def)

definition drop_client :: "cid \<Rightarrow> room \<Rightarrow> room" where
  "drop_client c r = r\<lparr>heap := (heap r)(c := evicted (heap r c)), clients := clients r |-| {|c|},
     viewerCounts := (if viewerKey (heap r c) = '''' then viewerCounts r
                      else snd (count_decr (viewerKey (heap r c)) (viewerCounts r))),
     userPresence := (if username (heap r c) = '''' then userPresence r
                      else snd (count_decr (username (heap r c)) (userPresence r)))\<rparr>"

lemma drop_client_fields [simp]:
  "heap (drop_client c r) = (heap r)(c := evicted (heap r c))"
  "clients (drop_client c r) = clients r |-| {|c|}"
  "history (drop_client c r) = history r"
  "viewerCount (drop_client c r) = viewerCount r"
  "hasOnEmpty (drop_client c r) = hasOnEmpty r"
  "onEmptyCalls (drop_client c r) = onEmptyCalls r"
  "running (drop_client c r) = running r"
  "room_name (drop_client c r) = room_name r"
  by (simp_all add: drop_client_def)

lemma removeClient_open:
  assumes "\<not> closed (heap r c)" "\<not> out_closed (heap r c)"
  shows "removeClient c r = Inr
    ((username (heap r c) \<noteq> '''' \<and> fst (count_decr (username (heap r c)) (userPresence r)),
      viewerKey (heap r c) \<noteq> '''' \<and> fst (count_decr (viewerKey (heap r c)) (viewerCounts r))),
     drop_client c r)"
  using assms
  by (simp add: removeClient_def drop_client_def closeOut_def Let_def evicted_def split: prod.splits)

lemma removeClient_closed: "closed (heap r c) \<Longrightarrow> removeClient c r = Inr ((False, False), r)"
  by (simp add: removeClient_def)

lemma room_inv_open:
  "room_inv r \<Longrightarrow> c |\<in>| clients r \<Longrightarrow> \<not> closed (heap r c) \<and> \<not> out_closed (heap r c)"
  by (simp add: room_inv_def)

lemma room_inv_drop_client [inv_intros]:
  assumes "room_inv r" "c |\<in>| clients r"
  shows "room_inv (drop_client c r)"
proof -
  have v: "counts_of (viewerCounts (drop_client c r)) (viewer_mset (drop_client c r))"
    using assms counts.rep_decr [of "viewerCounts r" "viewer_mset r" "viewerKey (heap r c)"]
    by (auto simp: room_inv_def viewer_mset_def conn_mset_remove conn_mset_iff drop_client_def)
  have u: "counts_of (userPresence (drop_client c r)) (user_mset (drop_client c r))"
    using assms counts.rep_decr [of "userPresence r" "user_mset r" "username (heap r c)"]
    by (auto simp: room_inv_def user_mset_def conn_mset_remove conn_mset_iff drop_client_def)
  from v u assms show ?thesis by (simp add: room_inv_def)
qed

section \<open>One broadcast\<close>

lemma deliver_evicted:
  "deliver m c =
     (if length (out c) < clientSendBuffer then c\<lparr>out := out c @ [m]\<rparr> else evicted c)"
  by (simp add: deliver_def evicted_def)

lemma room_inv_enqueue [inv_intros]:
  "room_inv r \<Longrightarrow> length (out (heap r c)) < clientSendBuffer \<Longrightarrow>
   room_inv (r\<lparr>heap := (heap r)(c := (heap r c)\<lparr>out := out (heap r c) @ [m]\<rparr>)\<rparr>)"
  by (simp add: room_inv_def viewer_mset_def user_mset_def)

text \<open>Everything a broadcast over the clients \<open>cs\<close> changes, and what it leaves alone.\<close>

definition broadcast_to :: "Message \<Rightarrow> cid set \<Rightarrow> room \<Rightarrow> room \<Rightarrow> bool" where
  "broadcast_to m C r r' \<longleftrightarrow>
     heap r' = (\<lambda>c. if c \<in> C then deliver m (heap r c) else heap r c) \<and>
     clients r' = ffilter (\<lambda>c. c \<in> C \<longrightarrow> length (out (heap r c)) < clientSendBuffer) (clients r) \<and>
     history r' = history r \<and> viewerCount r' = viewerCount r \<and> hasOnEmpty r' = hasOnEmpty r \<and>
     onEmptyCalls r' = onEmptyCalls r \<and> running r' = running r \<and> room_name r' = room_name r"

definition offer :: "Message \<Rightarrow> cid \<Rightarrow> room \<Rightarrow> room" where
  "offer m c r = (if length (out (heap r c)) < clientSendBuffer
     then r\<lparr>heap := (heap r)(c := deliver m (heap r c))\<rparr> else drop_client c r)"

lemma offer_fields:
  "heap (offer m c r) = (heap r)(c := deliver m (heap r c))"
  "clients (offer m c r) =
     ffilter (\<lambda>d. d = c \<longrightarrow> length (out (heap r c)) < clientSendBuffer) (clients r)"
  "history (offer m c r) = history r" "viewerCount (offer m c r) = viewerCount r"
  "hasOnEmpty (offer m c r) = hasOnEmpty r" "onEmptyCalls (offer m c r) = onEmptyCalls r"
  "running (offer m c r) = running r" "room_name (offer m c r) = room_name r"
  by (auto simp: offer_def deliver_evicted fset_eq_iff)

lemma broadcast_to_step:
  assumes "c \<notin> C" "broadcast_to m C (offer m c r) r'"
  shows "broadcast_to m (insert c C) r r'"
proof -
  have "heap r' = (\<lambda>d. if d \<in> insert c C then deliver m (heap r d) else heap r d)"
    using assms by (auto simp: broadcast_to_def offer_fields fun_eq_iff)
  moreover have "clients r' =
      ffilter (\<lambda>d. d \<in> insert c C \<longrightarrow> length (out (heap r d)) < clientSendBuffer) (clients r)"
    using assms by (auto simp: broadcast_to_def offer_fields fset_eq_iff)
  ultimately show ?thesis using assms(2) by (simp add: broadcast_to_def offer_fields)
qed

lemma dispatch_loop_ok:
  assumes "room_inv r" "distinct cs" "set cs \<subseteq> fset (clients r)"
  shows "\<exists>r'. dispatch_loop m cs r = Inr r' \<and> room_inv r' \<and> broadcast_to m (set cs) r r'"
  using assms
proof (induction cs arbitrary: r)
  case Nil
  then show ?case by (auto simp: broadcast_to_def fset_eq_iff)
next
  case (Cons c cs)
  have c: "c |\<in>| clients r" "c \<notin> set cs" and op: "\<not> closed (heap r c)" "\<not> out_closed (heap r c)"
    using Cons.prems room_inv_open [of r c] by auto
  have step: "dispatch_loop m (c # cs) r = dispatch_loop m cs (offer m c r)"
    using op by (simp add: offer_def trySend_def deliver_def removeClient_open)
  have "room_inv (offer m c r)"
    using Cons.prems(1) c by (simp add: offer_def deliver_def inv_intros)
  moreover have "set cs \<subseteq> fset (clients (offer m c r))" "distinct cs"
    using Cons.prems c by (auto simp: offer_fields)
  ultimately show ?case using Cons.IH [of "offer m c r"] step broadcast_to_step [OF c(2)] by auto
qed

lemma dispatch_ok:
  assumes "room_inv r" "enumerates iter"
  shows "\<exists>r'. dispatch iter m r = Inr r' \<and> room_inv r' \<and> broadcast_to m (fset (clients r)) r r'"
  using dispatch_loop_ok [of r "iter (clients r)" m] assms
  by (auto simp: dispatch_def enumerates_def)

lemma broadcast_unique:
  assumes "room_inv r1" "room_inv r2" "broadcast_to m C r r1" "broadcast_to m C r r2"
  shows "r1 = r2"
proof -
  have "viewerCounts r1 = viewerCounts r2" "userPresence r1 = userPresence r2"
    using assms by (auto simp: room_inv_def viewer_mset_def user_mset_def broadcast_to_def
        intro: counts.rep_unique)
  then show ?thesis using assms(3,4) by (intro room.equality) (simp_all add: broadcast_to_def)
qed

section \<open>The backlog of a joiner\<close>

lemma deliverHistory_Cons:
  "deliverHistory (m # ms) ds c =
     (let c1 = writerRecv (case ds of [] \<Rightarrow> 0 | d # _ \<Rightarrow> d) c
      in if out_closed c then Inl SendOnClosedChannel
         else if length (out c1) < clientSendBuffer
         then deliverHistory ms (tl ds) (c1\<lparr>out := out c1 @ [m]\<rparr>) else Inr (True, c1))"
  by (simp add: Let_def trySend_def writerRecv_def)

lemma writerRecv_simps [simp]:
  "username (writerRecv n c) = username c" "userID (writerRecv n c) = userID c"
  "anonKey (writerRecv n c) = anonKey c" "viewerKey (writerRecv n c) = viewerKey c"
  "closed (writerRecv n c) = closed c" "out_closed (writerRecv n c) = out_closed c"
  "length (out (writerRecv n c)) = length (out c) - n"
  by (simp_all add: writerRecv_def)

lemma writerRecv_fifo [simp]: "rcvd (writerRecv n c) @ out (writerRecv n c) @ xs = rcvd c @ out c @ xs"
  using append_take_drop_id [of n "out c"] by (simp add: writerRecv_def)

lemmas backlog_simps = deliverHistory_Cons Let_def
declare deliverHistory.simps(2) [simp del]

lemma deliverHistory_frame:
  "deliverHistory ms ds c = Inr (ov, c') \<Longrightarrow>
   username c' = username c \<and> userID c' = userID c \<and> anonKey c' = anonKey c \<and>
   closed c' = closed c \<and> out_closed c' = out_closed c"
  by (induction ms arbitrary: ds c) (fastforce simp: backlog_simps split: if_splits)+

lemma deliverHistory_viewerKey:
  "deliverHistory ms ds c = Inr (ov, c') \<Longrightarrow> viewerKey c' = viewerKey c"
  using deliverHistory_frame [of ms ds c ov c'] by (simp add: viewerKey_def)

lemma deliverHistory_fifo:
  "deliverHistory ms ds c = Inr (False, c') \<Longrightarrow> rcvd c' @ out c' = rcvd c @ out c @ ms"
  by (induction ms arbitrary: ds c) (fastforce simp: backlog_simps split: if_splits)+

lemma deliverHistory_bound:
  "deliverHistory ms ds c = Inr (ov, c') \<Longrightarrow> length (out c) \<le> clientSendBuffer \<Longrightarrow>
   length (out c') \<le> clientSendBuffer"
  by (induction ms arbitrary: ds c) (fastforce simp: backlog_simps split: if_splits)+

lemma deliverHistory_total:
  "\<not> out_closed c \<Longrightarrow> \<exists>ov c'. deliverHistory ms ds c = Inr (ov, c')"
  by (induction ms arbitrary: ds c) (auto simp: backlog_simps)

section \<open>Joining\<close>

definition joined_room :: "cid \<Rightarrow> client \<Rightarrow> room \<Rightarrow> room" where
  "joined_room c cl r = r\<lparr>heap := (heap r)(c := cl), clients := finsert c (clients r),
     viewerCounts := (if viewerKey cl = '''' then viewerCounts r
                      else snd (count_incr (viewerKey cl) (viewerCounts r))),
     userPresence := (if username cl = '''' then userPresence r
                      else snd (count_incr (username cl) (userPresence r)))\<rparr>"

lemma joined_room_fields [simp]:
  "heap (joined_room c cl r) = (heap r)(c := cl)"
  "clients (joined_room c cl r) = finsert c (clients r)"
  "history (joined_room c cl r) = history r"
  "viewerCount (joined_room c cl r) = viewerCount r"
  "(joined_room c cl r)\<lparr>heap := (heap r)(c := cl)\<rparr> = joined_room c cl r"
  by (simp_all add: joined_room_def)

abbreviation first_user :: "client \<Rightarrow> room \<Rightarrow> bool" where
  "first_user cl r \<equiv> username cl \<noteq> '''' \<and> username cl \<notin># user_mset r"

abbreviation first_viewer :: "client \<Rightarrow> room \<Rightarrow> bool" where
  "first_viewer cl r \<equiv> viewerKey cl \<noteq> '''' \<and> viewerKey cl \<notin># viewer_mset r"

lemma first_user_viewer: "first_user cl r \<Longrightarrow> first_viewer cl r"
  using viewer_user_present [of "username cl" "heap r" "clients r"]
  by (auto simp: viewer_mset_def user_mset_def viewerKey_user)

lemma room_join_eq:
  assumes "room_inv r" "deliverHistory (history r) ds (heap r c) = Inr (False, cl)"
  shows "room_join iter c ds now r =
    bindE (if first_user cl r
           then dispatch iter (systemMessage (username cl @ '' joined'') now) (joined_room c cl r)
           else Inr (joined_room c cl r))
      (\<lambda>r4. if first_viewer cl r
            then dispatch iter (viewerMessage (publishCount r4)) (publishCount r4)
            else bindE (trySend (viewerMessage r4) (heap r4 c))
                   (\<lambda>(_, cl2). Inr (r4\<lparr>heap := (heap r4)(c := cl2)\<rparr>)))"
proof -
  have v: "fst (count_incr (viewerKey cl) (viewerCounts r)) \<longleftrightarrow> viewerKey cl \<notin># viewer_mset r"
    and u: "fst (count_incr (username cl) (userPresence r)) \<longleftrightarrow> username cl \<notin># user_mset r"
    using assms(1) counts.incr_first by (auto simp: room_inv_def)
  show ?thesis using assms(2)
    by (cases "count_incr (viewerKey cl) (viewerCounts r)";
        cases "count_incr (username cl) (userPresence r)")
      (use u v in \<open>simp add: room_join_def joined_room_def Let_def\<close>)
qed

lemma room_inv_joined [inv_intros]:
  assumes "room_inv r" "c |\<notin>| clients r" "\<not> closed cl" "\<not> out_closed cl"
    "length (out cl) \<le> clientSendBuffer"
  shows "room_inv (joined_room c cl r)"
proof -
  have [simp]: "conn_mset f ((heap r)(c := cl)) (clients r) = conn_mset f (heap r) (clients r)" for f
    using assms(2) by (intro conn_mset_cong) auto
  have v: "counts_of (viewerCounts (joined_room c cl r)) (viewer_mset (joined_room c cl r))"
    using assms counts.rep_incr [of "viewerCounts r" "viewer_mset r" "viewerKey cl"]
    by (simp add: room_inv_def viewer_mset_def joined_room_def conn_mset_insert)
  have u: "counts_of (userPresence (joined_room c cl r)) (user_mset (joined_room c cl r))"
    using assms counts.rep_incr [of "userPresence r" "user_mset r" "username cl"]
    by (simp add: room_inv_def user_mset_def joined_room_def conn_mset_insert)
  from u v assms show ?thesis by (simp add: room_inv_def)
qed

lemma room_inv_publish [simp]: "room_inv (publishCount r) = room_inv r"
  by (simp add: room_inv_def publishCount_def viewer_mset_def user_mset_def)

text \<open>The backlog delivered to an admissible joiner, and the room it enters.\<close>

lemma join_ok_backlog:
  assumes "room_inv r" "event_ok r (Join c ds now)"
  shows "\<exists>cl. deliverHistory (history r) ds (heap r c) = Inr (False, cl) \<and>
    room_inv (joined_room c cl r) \<and> username cl = username (heap r c) \<and>
    viewerKey cl = viewerKey (heap r c) \<and> \<not> out_closed cl \<and>
    rcvd cl @ out cl = rcvd (heap r c) @ history r"
proof -
  from assms(2) obtain cl where cl: "deliverHistory (history r) ds (heap r c) = Inr (False, cl)"
    and f: "c |\<notin>| clients r" "fresh_client (heap r c)"
    by (auto split: sum.splits prod.splits)
  note frame = deliverHistory_frame [OF cl] deliverHistory_bound [OF cl]
    deliverHistory_viewerKey [OF cl] deliverHistory_fifo [OF cl]
  show ?thesis
    using cl frame f room_inv_joined [OF assms(1) f(1), of cl] by (auto simp: fresh_client_def)
qed

lemma room_join_ok:
  assumes "room_inv r" "enumerates iter" "event_ok r (Join c ds now)"
  shows "\<exists>r'. room_join iter c ds now r = Inr r' \<and> room_inv r'"
proof -
  from join_ok_backlog [OF assms(1,3)] obtain cl
    where cl: "deliverHistory (history r) ds (heap r c) = Inr (False, cl)" "\<not> out_closed cl"
      and inv: "room_inv (joined_room c cl r)" by blast
  note eq = room_join_eq [OF assms(1) cl(1)]
  consider (u) "first_user cl r" "first_viewer cl r" | (v) "\<not> first_user cl r" "first_viewer cl r"
    | (n) "\<not> first_user cl r" "\<not> first_viewer cl r"
    using first_user_viewer by blast
  then show ?thesis
  proof cases
    case u
    obtain r4 where r4: "dispatch iter (systemMessage (username cl @ '' joined'') now)
        (joined_room c cl r) = Inr r4" "room_inv r4"
      using dispatch_ok [OF inv assms(2)] by blast
    then have "room_inv (publishCount r4)" by simp
    from dispatch_ok [OF this assms(2)] show ?thesis using u r4 by (auto simp: eq)
  next
    case v
    have "room_inv (publishCount (joined_room c cl r))" using inv by simp
    from dispatch_ok [OF this assms(2)] show ?thesis using v by (auto simp: eq)
  next
    case n
    then show ?thesis using cl(2) inv room_inv_enqueue [OF inv, of c]
      by (auto simp: eq trySend_def)
  qed
qed

section \<open>Leaving, sending, stopping\<close>

text \<open>Whether a registered client is the last connection of its user, or of its viewer key.\<close>

abbreviation last_user :: "cid \<Rightarrow> room \<Rightarrow> bool" where
  "last_user c r \<equiv> username (heap r c) \<noteq> '''' \<and> count (user_mset r) (username (heap r c)) = 1"

abbreviation last_viewer :: "cid \<Rightarrow> room \<Rightarrow> bool" where
  "last_viewer c r \<equiv> viewerKey (heap r c) \<noteq> '''' \<and> count (viewer_mset r) (viewerKey (heap r c)) = 1"

lemma removeClient_registered:
  assumes "room_inv r" "c |\<in>| clients r"
  shows "removeClient c r = Inr ((last_user c r, last_viewer c r), drop_client c r)"
proof -
  have "username (heap r c) \<noteq> '''' \<Longrightarrow> username (heap r c) \<in># user_mset r"
    "viewerKey (heap r c) \<noteq> '''' \<Longrightarrow> viewerKey (heap r c) \<in># viewer_mset r"
    using assms(2) by (auto simp: user_mset_def viewer_mset_def conn_mset_iff)
  then show ?thesis
    using assms(1) counts.decr_last removeClient_open [of r c] room_inv_open [OF assms]
    by (auto simp: room_inv_def)
qed

lemma dispatch_if_ok:
  assumes "room_inv r" "enumerates iter"
  shows "\<exists>r'. (if b then dispatch iter m r else Inr r) = Inr r' \<and> room_inv r' \<and>
    clients r' |\<subseteq>| clients r \<and> running r' = running r"
  using dispatch_ok [OF assms, of m] assms(1) by (auto simp: broadcast_to_def)

lemma room_inv_onEmpty [simp]: "room_inv (r\<lparr>onEmptyCalls := n\<rparr>) = room_inv r"
  by (simp add: room_inv_def viewer_mset_def user_mset_def)

lemma room_leave_ok:
  assumes "room_inv r" "enumerates iter" "event_ok r (Leave c now)"
  shows "\<exists>r'. room_leave iter c now r = Inr r' \<and> room_inv r'"
proof (cases "closed (heap r c)")
  case True
  then show ?thesis using assms(1) by (simp add: room_leave_def removeClient_closed)
next
  case False
  then have c: "c |\<in>| clients r" using assms(3) by simp
  note rm = removeClient_registered [OF assms(1) c] room_inv_drop_client [OF assms(1) c]
  obtain r2 where r2: "room_inv r2" "(if last_user c r
      then dispatch iter (systemMessage (username (heap (drop_client c r) c) @ '' left'') now)
        (drop_client c r) else Inr (drop_client c r)) = Inr r2"
    using dispatch_if_ok [OF rm(2) assms(2)] by blast
  obtain r4 where r4: "room_inv r4" "(if last_viewer c r
      then dispatch iter (viewerMessage (publishCount r2)) (publishCount r2) else Inr r2) = Inr r4"
    using dispatch_ok [OF _ assms(2), of "publishCount r2"] r2(1) by (cases "last_viewer c r") auto
  have "room_leave iter c now r = Inr (if clients r4 = {||} \<and> hasOnEmpty r4
      then r4\<lparr>onEmptyCalls := onEmptyCalls r4 + 1\<rparr> else r4)"
    unfolding room_leave_def rm(1) bindE_simps prod.case Let_def r2(2) r4(2) ..
  then show ?thesis using r4(1) by simp
qed

lemma room_inv_history [inv_intros]: "room_inv r \<Longrightarrow> room_inv (appendHistory m r)"
  by (auto simp: room_inv_def appendHistory_def viewer_mset_def user_mset_def Let_def historySize_def)

lemma room_send_ok:
  assumes "room_inv r" "enumerates iter"
  shows "\<exists>r'. room_send iter msg uid now r = Inr r' \<and> room_inv r'"
  using dispatch_ok [OF room_inv_history [OF assms(1)] assms(2)]
  by (auto simp: room_send_def Let_def)

lemma stop_loop_ok:
  assumes "room_inv r" "distinct cs" "set cs \<subseteq> fset (clients r)"
  shows "\<exists>r'. stop_loop cs r = Inr r' \<and> room_inv r' \<and> clients r' = clients r |-| fset_of_list cs \<and>
    heap r' = (\<lambda>c. if c \<in> set cs then evicted (heap r c) else heap r c)"
  using assms
proof (induction cs arbitrary: r)
  case (Cons c cs)
  have c: "c |\<in>| clients r" using Cons.prems by simp
  have "set cs \<subseteq> fset (clients (drop_client c r))" using Cons.prems by auto
  from Cons.IH [OF room_inv_drop_client [OF Cons.prems(1) c] _ this] obtain r' where
    "stop_loop cs (drop_client c r) = Inr r'" "room_inv r'"
    "clients r' = clients (drop_client c r) |-| fset_of_list cs"
    "heap r' = (\<lambda>d. if d \<in> set cs then evicted (heap (drop_client c r) d) else heap (drop_client c r) d)"
    using Cons.prems(2) by auto
  with Cons.prems c show ?case
    by (auto simp: removeClient_registered fun_eq_iff fset_eq_iff)
qed (auto simp: fset_eq_iff)

lemma room_inv_running [simp]: "room_inv (r\<lparr>running := b\<rparr>) = room_inv r"
  by (simp add: room_inv_def viewer_mset_def user_mset_def)

lemma room_stop_ok:
  assumes "room_inv r" "enumerates iter"
  shows "\<exists>r'. room_stop iter r = Inr r' \<and> room_inv r' \<and> clients r' = {||} \<and> \<not> running r' \<and>
    (\<forall>c. c |\<in>| clients r \<longrightarrow> out_closed (heap r' c))"
proof -
  have "distinct (iter (clients r))" "set (iter (clients r)) = fset (clients r)"
    using assms(2) by (auto simp: enumerates_def)
  moreover from this have "clients r |-| fset_of_list (iter (clients r)) = {||}"
    by (auto simp: fset_eq_iff fset_of_list.rep_eq)
  ultimately show ?thesis using stop_loop_ok [OF assms(1), of "iter (clients r)"]
    by (auto simp: room_stop_def)
qed

section \<open>The room as a step system\<close>

lemma room_inv_new [inv_intros]: "room_inv (newRoom nm b)"
  by (simp add: room_inv_def newRoom_def newClient_def viewer_mset_def user_mset_def
      counts.rep_empty)

lemma room_inv_connect [inv_intros]:
  "room_inv r \<Longrightarrow> c |\<notin>| clients r \<Longrightarrow> room_inv (r\<lparr>heap := (heap r)(c := newClient u uid ak)\<rparr>)"
proof -
  assume c: "c |\<notin>| clients r"
  have "conn_mset f ((heap r)(c := x)) (clients r) = conn_mset f (heap r) (clients r)" for f x
    using c by (intro conn_mset_cong) auto
  then show "room_inv r \<Longrightarrow> ?thesis" using c
    by (auto simp: room_inv_def viewer_mset_def user_mset_def newClient_def)
qed

lemma room_inv_recv [inv_intros]:
  "room_inv r \<Longrightarrow> room_inv (r\<lparr>heap := (heap r)(c := writerRecv n (heap r c))\<rparr>)"
  by (auto simp: room_inv_def viewer_mset_def user_mset_def intro: le_trans [OF diff_le_self])

lemma room_step_ok:
  assumes "room_inv r" "enumerates iter" "event_ok r e"
  shows "\<exists>r'. room_step iter e r = Inr r' \<and> room_inv r'"
  using assms room_join_ok room_leave_ok room_send_ok room_stop_ok
  by (cases e) (fastforce simp: inv_intros simp del: event_ok.simps(2,3))+

end
