(* ===== verification/Chat_Props.thy ===== *)
theory Chat_Props
  imports Chat_Room
begin

text \<open>
  The properties of the room actor: safety of every orderly run, what a broadcast does and
  that Go's iteration order does not matter, and the announcements of joins and leaves with the
  viewer count they publish.
\<close>

section \<open>Orderly runs\<close>

text \<open>An iteration order is any function that lists a client set without repetition.\<close>

locale map_range =
  fixes iter :: iteration
  assumes enum: "enumerates iter"
begin

lemma room_system: "step_system (newRoom nm b) (room_step iter) event_ok room_inv"
  by unfold_locales (use room_step_ok enum inv_intros in \<open>fastforce+\<close>)

lemmas room_run = step_system.run_total [OF room_system]

end

definition ascending :: iteration where
  "ascending A = sorted_list_of_set (fset A)"

lemma enumerates_ascending: "enumerates ascending"
  by (simp add: enumerates_def ascending_def)

interpretation asc: map_range ascending
  by unfold_locales (rule enumerates_ascending)

interpretation asc_room: step_system "newRoom nm b" "room_step ascending" event_ok room_inv for nm b
  by (rule asc.room_system)

lemma iter_empty [simp]: "enumerates iter \<Longrightarrow> iter {||} = []"
  by (metis enumerates_def bot_fset.rep_eq set_empty)

lemma iter_single [simp]: "enumerates iter \<Longrightarrow> iter {|c|} = [c]"
proof -
  assume "enumerates iter"
  then have "distinct (iter {|c|})" "set (iter {|c|}) = {c}" by (auto simp: enumerates_def)
  then show ?thesis by (metis distinct_length_2_or_more list.set_intros(1) list.set_intros(2)
        neq_Nil_conv remdups_id_iff_distinct set_empty singletonD insert_not_empty)
qed

text \<open>
  C10: a room used in order (each client object is new, joins once and can take its backlog,
  and leaves only after its join was handled) never panics, whatever the interleaving of
  joins, leaves, messages, evictions and receives and whatever the map iteration order, and
  its counting maps always hold exactly the registered connections.
\<close>

theorem room_orderly_run:
  assumes "enumerates iter" and "admissible event_ok (room_step iter) (newRoom nm b) es"
  shows "\<exists>r. runE (room_step iter) es (newRoom nm b) = Inr r \<and> room_inv r"
  using map_range.room_run [OF map_range.intro, OF assms] .

lemmas room_eval = newRoom_def newClient_def fresh_client_def room_join_def room_leave_def
  room_send_def dispatch_def ascending_def trySend_def clientSendBuffer_def removeClient_def
  closeOut_def publishCount_def count_incr_def count_decr_def count_get_def viewerKey_def Let_def
  deliverHistory.simps writerRecv_def appendHistory_def historySize_def insert_Diff_if

text \<open>Two tabs of one user, a message, and both tabs closing, the first one twice.\<close>

definition demo_run :: "room_event list" where
  "demo_run =
     [Connect 1 ''al'' 7 '''', Join 1 [] 0, Connect 2 ''al'' 7 '''', Join 2 [] 1,
      Send \<lparr>in_user = ''al'', in_body = ''hi''\<rparr> ''id'' 2, Recv 1 9, Leave 1 3, Leave 1 4, Leave 2 5]"

theorem room_orderly_run_witness:
  "enumerates ascending \<and> admissible event_ok (room_step ascending) (newRoom ''c'' True) demo_run \<and>
   (\<exists>r. runE (room_step ascending) demo_run (newRoom ''c'' True) = Inr r \<and> room_inv r)"
proof -
  have ok: "admissible event_ok (room_step ascending) (newRoom ''c'' True) demo_run"
    by (simp add: demo_run_def room_eval)
  show ?thesis
    using ok room_orderly_run [OF enumerates_ascending ok] enumerates_ascending by blast
qed

section \<open>Broadcasts\<close>

text \<open>
  C17: one broadcast in an orderly room appends the message to the queue of every registered
  client that has room, evicts exactly the clients whose queue is full (closing their
  channel and releasing their viewer and presence counts), and touches nothing else: not
  the history, not the published viewer count, no unregistered client.
\<close>

theorem dispatch_delivers:
  assumes "room_inv r" and "enumerates iter"
  shows "\<exists>r'. dispatch iter m r = Inr r' \<and> room_inv r' \<and>
    clients r' = clients r |-| slow r \<and>
    (\<forall>c. c |\<in>| clients r' \<longrightarrow> out (heap r' c) = out (heap r c) @ [m] \<and> \<not> out_closed (heap r' c)) \<and>
    (\<forall>c. c |\<in>| slow r \<longrightarrow> out (heap r' c) = out (heap r c) \<and> out_closed (heap r' c) \<and> closed (heap r' c)) \<and>
    (\<forall>c. c |\<notin>| clients r \<longrightarrow> heap r' c = heap r c) \<and>
    history r' = history r \<and> viewerCount r' = viewerCount r"
proof -
  obtain r' where r': "dispatch iter m r = Inr r'" "room_inv r'" "broadcast_to m (fset (clients r)) r r'"
    using dispatch_ok [OF assms] by blast
  note b = r'(3) [unfolded broadcast_to_def]
  have "clients r' = ffilter (\<lambda>c. c \<in> fset (clients r) \<longrightarrow> length (out (heap r c)) < clientSendBuffer) (clients r)"
    using b by blast
  also have "\<dots> = clients r |-| slow r" by (auto simp: slow_def fset_eq_iff)
  finally have cl: "clients r' = clients r |-| slow r" .
  have A: "out (heap r' c) = out (heap r c) @ [m] \<and> \<not> out_closed (heap r' c)"
    if "c |\<in>| clients r'" for c
    using that b room_inv_open [OF r'(2) that] by (simp add: deliver_def)
  have B: "out (heap r' c) = out (heap r c) \<and> out_closed (heap r' c) \<and> closed (heap r' c)"
    if "c |\<in>| slow r" for c
    using that b by (simp add: deliver_def slow_def)
  have C: "heap r' c = heap r c" if "c |\<notin>| clients r" for c
    using that b by simp
  have "history r' = history r" "viewerCount r' = viewerCount r" using b by simp_all
  with r'(1,2) cl A B C show ?thesis by (intro exI [of _ r'] conjI allI impI) simp_all
qed

definition one_client :: "client \<Rightarrow> room" where
  "one_client cl = (newRoom ''c'' True)\<lparr>heap := (\<lambda>_. newClient '''' 0 '''')(1 := cl), clients := {|1|},
     userPresence := fmupd ''al'' 1 fmempty, viewerCounts := fmupd ''u:al'' 1 fmempty, viewerCount := 1\<rparr>"

lemma one_client_inv:
  assumes "username cl = ''al''" "\<not> closed cl" "\<not> out_closed cl" "length (out cl) \<le> 32"
  shows "room_inv (one_client cl)"
  using assms
  by (auto simp: room_inv_def one_client_def newRoom_def newClient_def clientSendBuffer_def
      viewer_mset_def user_mset_def conn_mset_insert viewerKey_def counts_of_def)

theorem dispatch_delivers_witness:
  "room_inv (one_client (newClient ''al'' 7 '''')) \<and> enumerates ascending \<and>
   (\<exists>r'. dispatch ascending (systemMessage ''x'' 0) (one_client (newClient ''al'' 7 '''')) = Inr r' \<and>
      room_inv r' \<and> clients r' = {|1|})"
proof -
  have i: "room_inv (one_client (newClient ''al'' 7 ''''))"
    by (rule one_client_inv) (simp_all add: newClient_def)
  have "slow (one_client (newClient ''al'' 7 '''')) = {||}"
    by (auto simp: slow_def one_client_def newRoom_def newClient_def clientSendBuffer_def)
  then show ?thesis
    using i enumerates_ascending dispatch_delivers [OF i enumerates_ascending, of "systemMessage ''x'' 0"]
    by (auto simp: one_client_def newRoom_def)
qed

text \<open>
  The result of a broadcast does not depend on the order in which Go's map iteration
  visits the clients.
\<close>

theorem dispatch_order_irrelevant:
  assumes "room_inv r" and "enumerates iter" and "enumerates iter'"
  shows "dispatch iter m r = dispatch iter' m r"
proof -
  obtain r1 r2 where "dispatch iter m r = Inr r1" "dispatch iter' m r = Inr r2"
    "room_inv r1" "room_inv r2"
    "broadcast_to m (fset (clients r)) r r1" "broadcast_to m (fset (clients r)) r r2"
    using dispatch_ok [OF assms(1,2), of m] dispatch_ok [OF assms(1,3), of m] by blast
  then show ?thesis using broadcast_unique by metis
qed

theorem dispatch_order_irrelevant_witness:
  "enumerates (\<lambda>A. rev (ascending A)) \<and> room_inv (one_client (newClient ''al'' 7 '''')) \<and>
   dispatch ascending (systemMessage ''x'' 0) (one_client (newClient ''al'' 7 '''')) =
     dispatch (\<lambda>A. rev (ascending A)) (systemMessage ''x'' 0) (one_client (newClient ''al'' 7 ''''))"
proof -
  have i: "room_inv (one_client (newClient ''al'' 7 ''''))"
    by (rule one_client_inv) (simp_all add: newClient_def)
  have e: "enumerates (\<lambda>A. rev (ascending A))"
    using enumerates_ascending by (simp add: enumerates_def)
  show ?thesis using i e dispatch_order_irrelevant [OF i enumerates_ascending e] by blast
qed

section \<open>Presence and viewer announcements\<close>

definition present :: "string \<Rightarrow> room \<Rightarrow> bool" where
  "present u r \<longleftrightarrow> (\<exists>e. e |\<in>| clients r \<and> username (heap r e) = u)"

definition viewing :: "string \<Rightarrow> room \<Rightarrow> bool" where
  "viewing k r \<longleftrightarrow> (\<exists>e. e |\<in>| clients r \<and> viewerKey (heap r e) = k)"

text \<open>What the arm just handled added to the queue of client \<open>d\<close>.\<close>

definition news :: "room \<Rightarrow> room \<Rightarrow> cid \<Rightarrow> (MessageKind \<times> string \<times> int) list" where
  "news r r' d = map (\<lambda>m. (Type m, Body m, Count m)) (drop (length (out (heap r d))) (out (heap r' d)))"

lemma dispatch_queue:
  assumes "room_inv r" "enumerates iter" "dispatch iter m r = Inr r'" "d |\<in>| clients r"
    "length (out (heap r d)) < clientSendBuffer"
  shows "room_inv r'" "out (heap r' d) = out (heap r d) @ [m]" "d |\<in>| clients r'"
  using dispatch_ok [OF assms(1,2), of m] assms(3-) by (auto simp: broadcast_to_def deliver_def)

lemma publishCount_fields [simp]:
  "heap (publishCount r) = heap r" "clients (publishCount r) = clients r"
  "history (publishCount r) = history r" "viewerCounts (publishCount r) = viewerCounts r"
  "running (publishCount r) = running r" "room_name (publishCount r) = room_name r"
  by (simp_all add: publishCount_def)

lemma message_kinds [simp]:
  "Type (viewerMessage r) = KindViewers" "Body (viewerMessage r) = ''''"
  "Type (systemMessage b t) = KindSystem" "Body (systemMessage b t) = b" "Count (systemMessage b t) = 0"
  "Count (viewerMessage r) = int (count_len (viewerCounts r))"
  by (simp_all add: viewerMessage_def systemMessage_def)

lemma first_user_iff: "first_user cl r \<longleftrightarrow> username cl \<noteq> '''' \<and> \<not> present (username cl) r"
  by (auto simp: user_mset_def conn_mset_iff present_def)

lemma first_viewer_iff: "first_viewer cl r \<longleftrightarrow> viewerKey cl \<noteq> '''' \<and> \<not> viewing (viewerKey cl) r"
  by (auto simp: viewer_mset_def conn_mset_iff viewing_def)

text \<open>The optional announcement followed by the optional viewer update, as both arms end.\<close>

lemma maybe_dispatch:
  assumes "room_inv r" "enumerates iter" "d |\<in>| clients r" "length (out (heap r d)) < clientSendBuffer"
    "(if p then dispatch iter m r else Inr r) = Inr r2"
  shows "room_inv r2 \<and> d |\<in>| clients r2 \<and> out (heap r2 d) = out (heap r d) @ (if p then [m] else [])"
proof (cases p)
  case True
  then have "dispatch iter m r = Inr r2" using assms(5) by simp
  from dispatch_queue [OF assms(1,2) this assms(3,4)] True show ?thesis by simp
next
  case False
  then show ?thesis using assms by simp
qed

subsection \<open>The published viewer count\<close>

definition distinct_viewers :: "room \<Rightarrow> nat" where
  "distinct_viewers r = card (set_mset (viewer_mset r))"

definition cache_synced :: "room \<Rightarrow> bool" where
  "cache_synced r \<longleftrightarrow> viewerCount r = of_nat (distinct_viewers r)"

text \<open>Every registered client still has room for \<open>k\<close> messages.\<close>

definition roomy :: "nat \<Rightarrow> room \<Rightarrow> bool" where
  "roomy k r \<longleftrightarrow> (\<forall>c. c |\<in>| clients r \<longrightarrow> length (out (heap r c)) + k \<le> clientSendBuffer)"

lemma count_len_viewers: "room_inv r \<Longrightarrow> count_len (viewerCounts r) = distinct_viewers r"
  by (simp add: room_inv_def distinct_viewers_def counts.rep_len)

lemma viewers_publish [simp]: "distinct_viewers (publishCount r) = distinct_viewers r"
  by (simp add: distinct_viewers_def viewer_mset_def)

lemma publish_synced: "room_inv r \<Longrightarrow> cache_synced (publishCount r)"
  by (simp add: cache_synced_def publishCount_def count_len_viewers)
    (simp add: distinct_viewers_def viewer_mset_def)

lemma roomy_publish [simp]: "roomy k (publishCount r) = roomy k r"
  by (simp add: roomy_def)

lemma dispatch_roomy:
  assumes "room_inv r" "enumerates iter" "roomy (Suc k) r" "dispatch iter m r = Inr r'"
  shows "room_inv r'" "clients r' = clients r" "viewer_mset r' = viewer_mset r"
    "viewerCount r' = viewerCount r" "roomy k r'"
proof -
  have b: "broadcast_to m (fset (clients r)) r r'" and i: "room_inv r'"
    using dispatch_ok [OF assms(1,2), of m] assms(4) by auto
  have lt: "length (out (heap r c)) < clientSendBuffer" if "c |\<in>| clients r" for c
    using assms(3) that by (force simp: roomy_def)
  have hp: "heap r' = (\<lambda>c. if c \<in> fset (clients r) then deliver m (heap r c) else heap r c)"
    using b by (auto simp: broadcast_to_def)
  have "clients r' = ffilter (\<lambda>c. c \<in> fset (clients r) \<longrightarrow> length (out (heap r c)) < clientSendBuffer) (clients r)"
    using b by (auto simp: broadcast_to_def)
  also have "\<dots> = clients r" using lt by (auto simp: fset_eq_iff)
  finally show cl: "clients r' = clients r" .
  show "viewer_mset r' = viewer_mset r"
    unfolding viewer_mset_def cl by (rule conn_mset_cong) (simp add: hp deliver_def)
  show "roomy k r'" using assms(3) lt by (auto simp: roomy_def cl hp deliver_def)
  show "room_inv r'" "viewerCount r' = viewerCount r" using b i by (auto simp: broadcast_to_def)
qed

lemma maybe_dispatch_roomy:
  assumes "room_inv r" "enumerates iter" "roomy (Suc k) r"
    "(if p then dispatch iter m r else Inr r) = Inr r'"
  shows "room_inv r' \<and> viewer_mset r' = viewer_mset r \<and> viewerCount r' = viewerCount r \<and> roomy k r'"
proof (cases p)
  case True
  then have "dispatch iter m r = Inr r'" using assms(4) by simp
  from dispatch_roomy [OF assms(1-3) this] show ?thesis by simp
next
  case False
  then show ?thesis using assms by (auto simp: roomy_def dest: Suc_leD)
qed

lemma viewers_joined:
  assumes "c |\<notin>| clients r"
  shows "set_mset (viewer_mset (joined_room c cl r)) =
    (if viewerKey cl = '''' then {} else {viewerKey cl}) \<union> set_mset (viewer_mset r)"
proof -
  have "conn_mset viewerKey ((heap r)(c := cl)) (clients r) = conn_mset viewerKey (heap r) (clients r)"
    using assms by (intro conn_mset_cong) auto
  then show ?thesis using assms by (simp add: viewer_mset_def conn_mset_insert)
qed

lemma dispatch_count: "room_inv r \<Longrightarrow> enumerates iter \<Longrightarrow> dispatch iter m r = Inr r' \<Longrightarrow> viewerCount r' = viewerCount r"
  using dispatch_ok [of r iter m] by (auto simp: broadcast_to_def)

text \<open>
  An optional announcement and an optional viewer update: what a client with two free slots
  gets, what is published, and that it is the true number when nobody is evicted on the way.
\<close>

lemma two_broadcasts:
  assumes "room_inv r" "enumerates iter" "d |\<in>| clients r"
    "length (out (heap r d)) + 2 \<le> clientSendBuffer"
    "(if p then dispatch iter (systemMessage b now) r else Inr r) = Inr r2"
    "(if v then dispatch iter (viewerMessage (publishCount r2)) (publishCount r2) else Inr r2) = Inr r4"
  shows "\<exists>n. news r r4 d = (if p then [(KindSystem, b, 0)] else []) @ (if v then [(KindViewers, '''', n)] else []) \<and>
    viewerCount r4 = (if v then of_int n else viewerCount r) \<and>
    (roomy 2 r \<longrightarrow> n = int (distinct_viewers r) \<and> distinct_viewers r4 = distinct_viewers r)"
proof -
  have r2: "room_inv r2 \<and> d |\<in>| clients r2 \<and>
      out (heap r2 d) = out (heap r d) @ (if p then [systemMessage b now] else [])"
    by (rule maybe_dispatch [OF assms(1-3) _ assms(5)]) (use assms(4) in simp)
  then have len: "length (out (heap r2 d)) < clientSendBuffer" using assms(4) by simp
  have vc2: "viewerCount r2 = viewerCount r" using assms(5) dispatch_count [OF assms(1,2)] by (cases p) auto
  have "out (heap r4 d) = out (heap r2 d) @ (if v then [viewerMessage (publishCount r2)] else [])"
  proof (cases v)
    case True
    with maybe_dispatch [of "publishCount r2" iter d True "viewerMessage (publishCount r2)" r4]
    show ?thesis using r2 len assms(2,6) by simp
  qed (use assms(6) in simp)
  with r2 have nw: "news r r4 d = (if p then [(KindSystem, b, 0)] else []) @
      (if v then [(KindViewers, '''', int (count_len (viewerCounts r2)))] else [])"
    by (simp add: news_def)
  have vc: "viewerCount r4 = (if v then of_int (int (count_len (viewerCounts r2))) else viewerCount r)"
  proof (cases v)
    case True
    then have "viewerCount r4 = viewerCount (publishCount r2)"
      using dispatch_count [OF _ assms(2), of "publishCount r2"] assms(6) r2 by simp
    then show ?thesis using True by (simp add: publishCount_def)
  qed (use assms(6) vc2 in simp)
  have "int (count_len (viewerCounts r2)) = int (distinct_viewers r) \<and> distinct_viewers r4 = distinct_viewers r" if rm: "roomy 2 r"
  proof -
    have m: "viewer_mset r2 = viewer_mset r" "roomy (Suc 0) r2"
      using maybe_dispatch_roomy [OF assms(1,2) _ assms(5), of 1] rm by (simp_all add: numeral_2_eq_2)
    have "viewer_mset r4 = viewer_mset r2"
      using assms(6) dispatch_roomy(3) [OF _ assms(2), of "publishCount r2" 0] r2 m(2) by (cases v) (auto simp: viewer_mset_def)
    with m show ?thesis using count_len_viewers r2 by (simp add: distinct_viewers_def)
  qed
  with nw vc show ?thesis by blast
qed

text \<open>After its backlog a joiner still has room for \<open>k\<close> messages.\<close>

definition backlog_leaves :: "nat \<Rightarrow> room \<Rightarrow> cid \<Rightarrow> nat list \<Rightarrow> bool" where
  "backlog_leaves k r c ds \<longleftrightarrow>
     (case deliverHistory (history r) ds (heap r c) of
        Inl _ \<Rightarrow> False | Inr (_, cl) \<Rightarrow> length (out cl) + k \<le> clientSendBuffer)"

lemma viewers_first: "c |\<notin>| clients r \<Longrightarrow> first_viewer cl r \<Longrightarrow> distinct_viewers (joined_room c cl r) = distinct_viewers r + 1"
  by (simp add: distinct_viewers_def viewers_joined first_viewer_iff) (simp add: viewer_mset_def conn_mset_iff viewing_def)

text \<open>
  C18: when a client joins that can take its backlog, every other connection with two free queue
  slots is told \<open>"<user> joined"\<close> exactly if this is the user's first connection (guests never),
  and gets a viewer update exactly if the viewer key is new; further tabs of the same person
  announce nothing.  The number sent is the number published, and nothing is published when the
  key is not new.  While no queue, the joiner's included, is within two messages of its limit,
  that number is the number of distinct viewers, one more than before.
\<close>

theorem join_announcement:
  assumes "room_inv r" and "enumerates iter" and "event_ok r (Join c ds now)"
    and "room_join iter c ds now r = Inr r'"
    and "d |\<in>| clients r" and "length (out (heap r d)) + 2 \<le> clientSendBuffer"
  shows "\<exists>n. let newViewer = viewerKey (heap r c) \<noteq> '''' \<and> \<not> viewing (viewerKey (heap r c)) r in
    news r r' d =
      (if username (heap r c) \<noteq> '''' \<and> \<not> present (username (heap r c)) r
       then [(KindSystem, username (heap r c) @ '' joined'', 0)] else []) @
      (if newViewer then [(KindViewers, '''', n)] else []) \<and>
    viewerCount r' = (if newViewer then of_int n else viewerCount r) \<and>
    (newViewer \<and> roomy 2 r \<and> backlog_leaves 2 r c ds \<longrightarrow> n = int (distinct_viewers r) + 1 \<and> distinct_viewers r' = distinct_viewers r + 1)"
proof -
  from join_ok_backlog [OF assms(1,3)] obtain cl
    where cl: "deliverHistory (history r) ds (heap r c) = Inr (False, cl)"
      and inv: "room_inv (joined_room c cl r)" and cl': "username cl = username (heap r c)"
      "viewerKey cl = viewerKey (heap r c)" by blast
  have dc: "d \<noteq> c" and c: "c |\<notin>| clients r" using assms(3,5) by auto
  note join = assms(4) [unfolded room_join_eq [OF assms(1) cl]]
  have nw: "news (joined_room c cl r) r' d = news r r' d" using dc by (simp add: news_def)
  show ?thesis
  proof (cases "first_viewer cl r")
    case True
    then obtain r2 where b: "(if first_user cl r then dispatch iter (systemMessage (username cl @ '' joined'') now)
        (joined_room c cl r) else Inr (joined_room c cl r)) = Inr r2"
      "(if first_viewer cl r then dispatch iter (viewerMessage (publishCount r2)) (publishCount r2) else Inr r2) = Inr r'"
      using join by (auto simp del: if_split_asm split del: if_split)
    have rm: "roomy 2 (joined_room c cl r)" if "roomy 2 r" "backlog_leaves 2 r c ds"
      using that cl by (auto simp: roomy_def backlog_leaves_def)
    from two_broadcasts [OF inv assms(2) _ _ b, of d] assms(5,6) dc obtain n where
      "news r r' d = (if first_user cl r then [(KindSystem, username cl @ '' joined'', 0)] else []) @ [(KindViewers, '''', n)]"
      "viewerCount r' = of_int n"
      "roomy 2 (joined_room c cl r) \<longrightarrow> n = int (distinct_viewers r) + 1 \<and> distinct_viewers r' = distinct_viewers r + 1"
      unfolding nw using True viewers_first [OF c True] by auto
    then show ?thesis using True rm unfolding first_user_iff first_viewer_iff cl' Let_def by (intro exI [of _ n]) simp
  next
    case False
    then have nu: "\<not> first_user cl r" using first_user_viewer by blast
    from join have "news r r' d = [] \<and> viewerCount r' = viewerCount r"
      unfolding if_not_P [OF False] if_not_P [OF nu] using dc by (auto simp: news_def trySend_def split: if_splits)
    then show ?thesis using False nu unfolding first_user_iff first_viewer_iff cl' Let_def by (intro exI [of _ 0]) auto
  qed
qed

text \<open>A second user, \<open>bo\<close>, connects to a room where \<open>al\<close> is watching.\<close>

definition bo_arrives :: room where
  "bo_arrives = (one_client (newClient ''al'' 7 ''''))
     \<lparr>heap := (heap (one_client (newClient ''al'' 7 '''')))(2 := newClient ''bo'' 8 '''')\<rparr>"

lemma bo_arrives_inv: "room_inv bo_arrives"
  unfolding bo_arrives_def
  by (rule room_inv_connect, rule one_client_inv) (simp_all add: newClient_def one_client_def)

lemmas bo_simps = bo_arrives_def one_client_def newRoom_def newClient_def clientSendBuffer_def

lemma bo_viewers: "distinct_viewers bo_arrives = 1"
  by (simp add: distinct_viewers_def viewer_mset_def bo_simps viewerKey_def conn_mset_insert)

theorem join_announcement_witness:
  "\<exists>r'. room_join ascending 2 [] 0 bo_arrives = Inr r' \<and>
     event_ok bo_arrives (Join 2 [] 0) \<and> 1 |\<in>| clients bo_arrives \<and>
     news bo_arrives r' 1 = [(KindSystem, ''bo joined'', 0), (KindViewers, '''', 2)] \<and> viewerCount r' = 2 \<and> distinct_viewers r' = 2"
proof -
  have ok: "event_ok bo_arrives (Join 2 [] 0)"
    by (simp add: bo_simps fresh_client_def)
  then obtain r' where r': "room_join ascending 2 [] 0 bo_arrives = Inr r'"
    using room_join_ok [OF bo_arrives_inv enumerates_ascending] by blast
  have d: "1 |\<in>| clients bo_arrives" "length (out (heap bo_arrives 1)) + 2 \<le> clientSendBuffer"
    and v: "roomy 2 bo_arrives" "backlog_leaves 2 bo_arrives 2 []"
    by (simp_all add: bo_simps roomy_def backlog_leaves_def)
  have "news bo_arrives r' 1 = [(KindSystem, ''bo joined'', 0), (KindViewers, '''', 2)] \<and> viewerCount r' = 2 \<and> distinct_viewers r' = 2"
    using join_announcement [OF bo_arrives_inv enumerates_ascending ok r' d] v bo_viewers
    by (auto simp: bo_simps present_def viewing_def viewerKey_def)
  with ok r' d(1) show ?thesis by blast
qed

lemma count_conn_mset_one:
  assumes "c |\<in>| A" "f (H c) \<noteq> ''''"
  shows "count (conn_mset f H A) (f (H c)) = 1 \<longleftrightarrow> (\<forall>e. e |\<in>| A \<and> f (H e) = f (H c) \<longrightarrow> e = c)"
proof -
  have "f (H c) \<in># conn_mset f H A" using assms by (auto simp: conn_mset_iff)
  then have "count (conn_mset f H A) (f (H c)) = 1 \<longleftrightarrow> f (H c) \<notin># conn_mset f H (A |-| {|c|})"
    using assms by (simp add: conn_mset_remove in_diff_count not_less_eq_eq le_Suc_eq
        flip: count_greater_zero_iff) arith
  then show ?thesis using assms by (auto simp: conn_mset_iff)
qed

lemma last_user_iff:
  assumes "c |\<in>| clients r"
  shows "last_user c r \<longleftrightarrow> username (heap r c) \<noteq> '''' \<and>
    (\<forall>e. e |\<in>| clients r \<and> username (heap r e) = username (heap r c) \<longrightarrow> e = c)"
  using count_conn_mset_one [OF assms, of username "heap r"] unfolding user_mset_def by blast

lemma last_viewer_iff:
  assumes "c |\<in>| clients r"
  shows "last_viewer c r \<longleftrightarrow> viewerKey (heap r c) \<noteq> '''' \<and>
    (\<forall>e. e |\<in>| clients r \<and> viewerKey (heap r e) = viewerKey (heap r c) \<longrightarrow> e = c)"
  using count_conn_mset_one [OF assms, of viewerKey "heap r"] unfolding viewer_mset_def by blast

lemma viewers_left:
  assumes "c |\<in>| clients r" "\<not> last_viewer c r"
  shows "set_mset (viewer_mset (drop_client c r)) = set_mset (viewer_mset r)"
proof -
  have "viewerKey (heap r c) \<noteq> '''' \<Longrightarrow>
      \<exists>e. e |\<in>| clients r \<and> e \<noteq> c \<and> viewerKey (heap r e) = viewerKey (heap r c)"
    using assms(2) unfolding last_viewer_iff [OF assms(1)] by blast
  then have "(\<exists>e. e |\<in>| clients r |-| {|c|} \<and> viewerKey (heap r e) = k) \<longleftrightarrow>
      (\<exists>e. e |\<in>| clients r \<and> viewerKey (heap r e) = k)" if "k \<noteq> ''''" for k
    using that by (metis fminus_iff fsingletonE)
  then show ?thesis by (auto simp: viewer_mset_def conn_mset_iff)
qed

lemma viewers_last: "c |\<in>| clients r \<Longrightarrow> last_viewer c r \<Longrightarrow> distinct_viewers r = distinct_viewers (drop_client c r) + 1"
proof -
  assume c: "c |\<in>| clients r" and l: "last_viewer c r"
  let ?k = "viewerKey (heap r c)"
  have l': "?k \<noteq> ''''" "\<forall>e. e |\<in>| clients r \<and> viewerKey (heap r e) = ?k \<longrightarrow> e = c"
    using l unfolding last_viewer_iff [OF c] by blast+
  have "set_mset (viewer_mset r) = insert ?k (set_mset (viewer_mset (drop_client c r)))"
    using c l'(1) by (auto simp: viewer_mset_def conn_mset_iff)
  moreover have "?k \<notin> set_mset (viewer_mset (drop_client c r))"
    using l' by (auto simp: viewer_mset_def conn_mset_iff)
  ultimately show ?thesis by (simp add: distinct_viewers_def)
qed


text \<open>Both tabs' worth of connections: \<open>al\<close> leaves, \<open>bo\<close> remains.\<close>

definition al_and_bo :: room where
  "al_and_bo = joined_room 2 (newClient ''bo'' 8 '''') bo_arrives"

lemma al_and_bo_inv: "room_inv al_and_bo"
  unfolding al_and_bo_def
  by (rule room_inv_joined [OF bo_arrives_inv]) (simp_all add: bo_simps)


end
