(* ===== verification/Chat_Window.thy ===== *)
theory Chat_Window
  imports Chat_Props
begin

text \<open>
  What a viewer sees of a room over time: the bounded history and its delivery to joiners, in
  full or, if their buffer overflows, in part.
\<close>

section \<open>The history\<close>

fun sent :: "room_event list \<Rightarrow> Message list" where
  "sent [] = []"
| "sent (Send msg uid now # es) = chatMessage msg uid now # sent es"
| "sent (_ # es) = sent es"

definition same_log :: "room \<Rightarrow> room \<Rightarrow> bool" where
  "same_log r r' \<longleftrightarrow> history r' = history r \<and> running r' = running r"

lemma removeClient_log: "removeClient c r = Inr (f, r') \<Longrightarrow> same_log r r'"
  by (auto simp: removeClient_def same_log_def Let_def split: if_splits prod.splits)

lemma dispatch_loop_log: "dispatch_loop m cs r = Inr r' \<Longrightarrow> same_log r r'"
proof (induction cs arbitrary: r)
  case (Cons c cs)
  then show ?case
    by (force simp: same_log_def split: if_splits dest: removeClient_log)
qed (simp add: same_log_def)

lemma dispatch_log: "dispatch iter m r = Inr r' \<Longrightarrow> same_log r r'"
  by (auto simp: dispatch_def dest: dispatch_loop_log)

lemma publishCount_log [simp]: "same_log (publishCount r) r' = same_log r r'"
  by (simp add: same_log_def)

lemma same_log_trans: "same_log r s \<Longrightarrow> same_log s t \<Longrightarrow> same_log r t"
  by (simp add: same_log_def)

lemma maybe_dispatch_log: "(if p then dispatch iter m r else Inr r) = Inr r' \<Longrightarrow> same_log r r'"
  by (cases p) (auto dest: dispatch_log simp: same_log_def)

lemma publish_dispatch_log:
  "(if p then dispatch iter (viewerMessage (publishCount r)) (publishCount r) else Inr r) = Inr r' \<Longrightarrow>
   same_log r r'"
  by (cases p) (auto dest: dispatch_log simp: same_log_def)

text \<open>Composition of the frame property along the error monad.\<close>

definition keeps_log :: "room \<Rightarrow> panic + room \<Rightarrow> bool" where
  "keeps_log r x \<longleftrightarrow> (\<forall>r'. x = Inr r' \<longrightarrow> same_log r r')"

lemma keeps_Inr: "same_log r s \<Longrightarrow> keeps_log r (Inr s)"
  by (simp add: keeps_log_def)

lemma keeps_dispatch: "same_log r s \<Longrightarrow> keeps_log r (dispatch iter m s)"
  by (auto simp: keeps_log_def intro: same_log_trans dispatch_log)

lemma keeps_room_bind:
  "keeps_log r x \<Longrightarrow> (\<And>s. same_log r s \<Longrightarrow> keeps_log r (f s)) \<Longrightarrow> keeps_log r (bindE x f)"
  by (auto simp: keeps_log_def)

lemma keeps_bind: "(\<And>a. keeps_log r (f a)) \<Longrightarrow> keeps_log r (bindE x f)"
  by (auto simp: keeps_log_def)

lemma keeps_remove_bind:
  "(\<And>b s. same_log r s \<Longrightarrow> keeps_log r (f (b, s))) \<Longrightarrow> keeps_log r (bindE (removeClient c r) f)"
  by (auto simp: keeps_log_def dest: removeClient_log)

lemma keeps_if: "(b \<Longrightarrow> keeps_log r x) \<Longrightarrow> (\<not> b \<Longrightarrow> keeps_log r y) \<Longrightarrow> keeps_log r (if b then x else y)"
  by simp

lemmas keeps_intros = keeps_remove_bind keeps_room_bind keeps_bind keeps_dispatch keeps_Inr

lemma room_leave_log: "room_leave iter c now r = Inr r' \<Longrightarrow> same_log r r'"
proof -
  have "keeps_log r (room_leave iter c now r)"
    unfolding room_leave_def Let_def case_prod_beta
    by (intro keeps_intros keeps_if) (simp_all add: same_log_def)
  then show "room_leave iter c now r = Inr r' \<Longrightarrow> ?thesis" by (simp add: keeps_log_def)
qed

lemma room_join_log: "room_join iter c ds now r = Inr r' \<Longrightarrow> same_log r r'"
proof -
  have "keeps_log r (room_join iter c ds now r)"
    unfolding room_join_def Let_def case_prod_beta
    by (intro keeps_if keeps_intros) (simp_all add: same_log_def)
  then show "room_join iter c ds now r = Inr r' \<Longrightarrow> ?thesis" by (simp add: keeps_log_def)
qed

lemma appendHistory_window:
  "length (history r) \<le> historySize \<Longrightarrow>
   history (appendHistory m r) = lastn historySize (history r @ [m])"
  by (auto simp: appendHistory_def lastn_def historySize_def Let_def drop_Suc)

lemma appendHistory_running [simp]: "running (appendHistory m r) = running r"
  by (simp add: appendHistory_def)

lemma room_send_log:
  "room_send iter msg uid now r = Inr r' \<Longrightarrow> length (history r) \<le> historySize \<Longrightarrow>
   history r' = lastn historySize (history r @ [chatMessage msg uid now]) \<and> running r' = running r"
  using appendHistory_window [of r "chatMessage msg uid now"]
  by (auto simp: room_send_def Let_def same_log_def dest!: dispatch_log)

lemma room_step_log:
  assumes "room_step iter e r = Inr r'" "e \<noteq> Stop" "running r" "length (history r) \<le> historySize"
  shows "history r' = lastn historySize (history r @ sent [e]) \<and> running r'"
proof (cases e)
  case (Join c ds now)
  then show ?thesis using assms room_join_log [of iter c ds now r r'] by (simp add: same_log_def)
next
  case (Leave c now)
  then show ?thesis using assms room_leave_log [of iter c now r r'] by (simp add: same_log_def)
next
  case (Send msg uid now)
  then show ?thesis using assms room_send_log [of iter msg uid now r r'] by simp
qed (use assms in auto)

lemma sent_append: "sent (es @ fs) = sent es @ sent fs"
  by (induction es rule: sent.induct) auto

lemma run_history:
  "runE (room_step iter) es r = Inr r' \<Longrightarrow> Stop \<notin> set es \<Longrightarrow> running r \<Longrightarrow>
   length (history r) \<le> historySize \<Longrightarrow>
   history r' = lastn historySize (history r @ sent es) \<and> running r'"
proof (induction es arbitrary: r)
  case (Cons e es)
  then obtain r1 where r1: "room_step iter e r = Inr r1" "runE (room_step iter) es r1 = Inr r'"
    by auto
  have h: "history r1 = lastn historySize (history r @ sent [e])" "running r1"
    using room_step_log [OF r1(1)] Cons.prems by auto
  then have "history r' = lastn historySize (history r1 @ sent es) \<and> running r'"
    using Cons.IH [OF r1(2)] Cons.prems by simp
  then show ?case using sent_append [of "[e]" es] by (simp add: h)
qed simp

text \<open>A client's whole stream, read or still queued, only ever grows at its end.\<close>

definition stream_of :: "room \<Rightarrow> cid \<Rightarrow> Message list" where
  "stream_of r c = rcvd (heap r c) @ out (heap r c)"

lemma dispatch_stream:
  assumes "dispatch iter m r = Inr r'" "room_inv r" "enumerates iter"
  shows "room_inv r'" "\<exists>ms. stream_of r' d = stream_of r d @ ms"
  using dispatch_ok [OF assms(2,3), of m] assms(1)
  by (auto simp: broadcast_to_def deliver_evicted stream_of_def)

lemma join_stream:
  assumes "room_inv r" "enumerates iter" "deliverHistory (history r) ds (heap r c) = Inr (False, cl)"
    "room_inv (joined_room c cl r)" "room_join iter c ds now r = Inr r'"
  shows "\<exists>ms. stream_of r' c = rcvd cl @ out cl @ ms"
proof -
  have s0: "stream_of (joined_room c cl r) c = rcvd cl @ out cl" by (simp add: stream_of_def)
  obtain r4 where r4: "(if first_user cl r
        then dispatch iter (systemMessage (username cl @ '' joined'') now) (joined_room c cl r)
        else Inr (joined_room c cl r)) = Inr r4"
    and r': "(if first_viewer cl r then dispatch iter (viewerMessage (publishCount r4)) (publishCount r4)
         else bindE (trySend (viewerMessage r4) (heap r4 c))
                (\<lambda>(_, cl2). Inr (r4\<lparr>heap := (heap r4)(c := cl2)\<rparr>))) = Inr r'"
    using assms(5) unfolding room_join_eq [OF assms(1,3)] bindE_eq_Inr by blast
  have s4: "room_inv r4 \<and> (\<exists>ms. stream_of r4 c = rcvd cl @ out cl @ ms)"
  proof (cases "first_user cl r")
    case True
    then have "dispatch iter (systemMessage (username cl @ '' joined'') now) (joined_room c cl r) = Inr r4"
      using r4 by simp
    from dispatch_stream(1) [OF this assms(4,2)] dispatch_stream(2) [OF this assms(4,2), of c] s0
    show ?thesis by auto

  qed (use r4 assms(4) s0 in auto)
  show ?thesis
  proof (cases "first_viewer cl r")
    case True
    then have "dispatch iter (viewerMessage (publishCount r4)) (publishCount r4) = Inr r'"
      using r' by simp
    moreover have "stream_of (publishCount r4) c = stream_of r4 c" by (simp add: stream_of_def)
    ultimately obtain ms where "stream_of r' c = stream_of r4 c @ ms"
      using dispatch_stream(2) [of iter _ "publishCount r4" r' c] s4 assms(2) by auto
    with s4 show ?thesis by auto
  next
    case False
    then have "\<exists>ms. stream_of r' c = stream_of r4 c @ ms" using r'
      by (auto simp: trySend_def stream_of_def split: if_splits)
    with s4 show ?thesis by auto
  qed
qed

text \<open>A joiner whose queue cannot take the backlog has got a beginning of it.\<close>

lemma deliverHistory_cut:
  "deliverHistory ms ds c = Inr (True, c') \<Longrightarrow> length (out c) \<le> clientSendBuffer \<Longrightarrow>
   length (out c') = clientSendBuffer \<and> (\<exists>k < length ms. rcvd c' @ out c' = rcvd c @ out c @ take k ms)"
proof (induction ms arbitrary: ds c)
  case (Cons m ms)
  let ?c1 = "writerRecv (case ds of [] \<Rightarrow> 0 | d # _ \<Rightarrow> d) c"
  have fifo: "rcvd ?c1 @ out ?c1 = rcvd c @ out c" by (simp add: writerRecv_def)
  show ?case
  proof (cases "length (out ?c1) < clientSendBuffer")
    case True
    then have "deliverHistory ms (tl ds) (?c1\<lparr>out := out ?c1 @ [m]\<rparr>) = Inr (True, c')"
      using Cons.prems(1) by (auto simp: backlog_simps split: if_splits)
    from Cons.IH [OF this] True obtain k where k: "length (out c') = clientSendBuffer" "k < length ms"
      "rcvd c' @ out c' = rcvd ?c1 @ (out ?c1 @ [m]) @ take k ms" by auto
    then have "rcvd c' @ out c' = rcvd c @ out c @ take (Suc k) (m # ms)" using fifo by simp
    then show ?thesis using k by (intro conjI exI [of _ "Suc k"]) simp_all
  next
    case False
    then have "c' = ?c1" using Cons.prems(1) by (auto simp: backlog_simps split: if_splits)
    then show ?thesis using False fifo Cons.prems(2) by (intro conjI exI [of _ 0]) auto
  qed
qed simp

text \<open>
  C20: the history is a sliding window of the last fifty messages sent since the room was
  created, and a new connection gets it first.  If its queue takes the backlog (32 messages, or
  more as its writer drains it), it has been handed exactly that window, in order, before
  anything else.  If not, it is not registered: it has been handed a proper beginning of the
  window, at least 32 messages, and its channel is closed.
\<close>

theorem joiner_gets_window:
  assumes "runE (room_step iter) es (newRoom nm b) = Inr r" and "Stop \<notin> set es"
    and "room_inv r" and "enumerates iter" and new: "c |\<notin>| clients r" "fresh_client (heap r c)" "rcvd (heap r c) = []"
    and "room_join iter c ds now r = Inr r'"
  shows "history r = lastn 50 (sent es) \<and>
    (if event_ok r (Join c ds now) then take (length (history r)) (stream_of r' c) = lastn 50 (sent es)
     else c |\<notin>| clients r' \<and> out_closed (heap r' c) \<and>
       (\<exists>k. 32 \<le> k \<and> k < length (history r) \<and> stream_of r' c = take k (lastn 50 (sent es))))"
proof -
  have h: "history r = lastn historySize (sent es)"
    using run_history [OF assms(1,2)] by (simp add: newRoom_def)
  show ?thesis
  proof (cases "event_ok r (Join c ds now)")
    case True
    from join_ok_backlog [OF assms(3) True] obtain cl
      where cl: "deliverHistory (history r) ds (heap r c) = Inr (False, cl)"
        and inv: "room_inv (joined_room c cl r)" and s: "rcvd cl @ out cl = history r"
      using new(3) by auto
    from join_stream [OF assms(3,4) cl inv assms(8)] s obtain ms where "stream_of r' c = history r @ ms"
      by (metis append_assoc)
    then show ?thesis using h True by (simp add: historySize_def del: event_ok.simps)
  next
    case False
    from new(2) have f: "\<not> out_closed (heap r c)" "out (heap r c) = []" by (simp_all add: fresh_client_def)
    obtain cl where cl: "deliverHistory (history r) ds (heap r c) = Inr (True, cl)"
      using deliverHistory_total [OF f(1), of "history r" ds] False new(1,2) by auto
    from deliverHistory_cut [OF cl] f(2) new(3) obtain k where
      k: "length (out cl) = clientSendBuffer" "k < length (history r)" "rcvd cl @ out cl = take k (history r)" by auto
    have "length (rcvd cl @ out cl) = k" using k(2,3) by simp
    then have "32 \<le> k" using k(1) by (simp add: clientSendBuffer_def)
    moreover have "heap r' c = cl\<lparr>out_closed := True\<rparr>" "clients r' = clients r"
      using assms(8) cl deliverHistory_frame [OF cl] f(1) by (auto simp: room_join_def closeOut_def)
    ultimately show ?thesis using h k new(1) False by (auto simp: historySize_def stream_of_def simp del: event_ok.simps)
  qed
qed

definition window_run :: "room_event list" where
  "window_run = [Connect 1 ''al'' 7 '''', Join 1 [] 0, Send \<lparr>in_user = ''al'', in_body = ''hi''\<rparr> ''id'' 2,
     Connect 2 ''bo'' 8 '''']"

theorem joiner_gets_window_witness:
  "\<exists>r r'. runE (room_step ascending) window_run (newRoom ''c'' True) = Inr r \<and>
     event_ok r (Join 2 [] 3) \<and> room_join ascending 2 [] 3 r = Inr r' \<and>
     take 1 (stream_of r' 2) = [chatMessage \<lparr>in_user = ''al'', in_body = ''hi''\<rparr> ''id'' 2]"
proof -
  have ok: "admissible event_ok (room_step ascending) (newRoom ''c'' True) window_run"
    by (simp add: window_run_def room_eval)
  then obtain r where r: "runE (room_step ascending) window_run (newRoom ''c'' True) = Inr r" "room_inv r"
    using asc_room.run_total by blast
  have nostop: "Stop \<notin> set window_run" by (simp add: window_run_def)
  have j: "event_ok r (Join 2 [] 3)" "rcvd (heap r 2) = []"
    using r(1) by (auto simp: window_run_def room_eval)
  then have n: "2 |\<notin>| clients r" "fresh_client (heap r 2)" by simp_all
  obtain r' where r': "room_join ascending 2 [] 3 r = Inr r'"
    using room_join_ok [OF r(2) enumerates_ascending j(1)] by blast
  have "take 1 (stream_of r' 2) = [chatMessage \<lparr>in_user = ''al'', in_body = ''hi''\<rparr> ''id'' 2]"
    using joiner_gets_window [OF r(1) nostop r(2) enumerates_ascending n j(2) r'] j(1)
    by (auto simp: window_run_def simp del: event_ok.simps)
  with r(1) j r' show ?thesis by blast
qed

end
