(* ===== verification/Chat_Faults.thy ===== *)
theory Chat_Faults
  imports Chat_Window
begin

text \<open>
  The published viewer count of a room, when it is exact and when it goes stale, and the two
  orders of events on which the actor goroutine panics: a joiner that cannot take the
  backlog, and a leave that is handled before its join.
\<close>

section \<open>The published viewer count\<close>

lemma two_broadcasts_cache:
  assumes "room_inv r" "enumerates iter" "roomy 2 r"
    "(if p then dispatch iter m r else Inr r) = Inr r2"
    "(if v then dispatch iter (viewerMessage (publishCount r2)) (publishCount r2) else Inr r2) = Inr r4"
    "\<not> v \<Longrightarrow> cache_synced r"
  shows "cache_synced r4"
proof -
  have r2: "room_inv r2" "viewer_mset r2 = viewer_mset r" "viewerCount r2 = viewerCount r" "roomy 1 r2"
    using maybe_dispatch_roomy [OF assms(1,2) _ assms(4), of 1] assms(3) by (simp_all add: numeral_2_eq_2)
  show ?thesis
  proof (cases v)
    case True
    then have d: "dispatch iter (viewerMessage (publishCount r2)) (publishCount r2) = Inr r4"
      using assms(5) by simp
    have "viewer_mset r4 = viewer_mset (publishCount r2)" "viewerCount r4 = viewerCount (publishCount r2)"
      using dispatch_roomy [OF _ assms(2) _ d, of 0] r2 by simp_all
    with publish_synced [OF r2(1)] show ?thesis by (simp add: cache_synced_def distinct_viewers_def)
  next
    case False
    then show ?thesis using assms(5,6) r2(2,3) by (simp add: cache_synced_def distinct_viewers_def)
  qed
qed

lemma cache_synced_heap:
  "(\<And>c. viewerKey (H c) = viewerKey (heap r c)) \<Longrightarrow> cache_synced (r\<lparr>heap := H\<rparr>) = cache_synced r"
  using conn_mset_cong [of "clients r" viewerKey H "heap r"]
  by (simp add: cache_synced_def distinct_viewers_def viewer_mset_def)

lemma join_cache:
  assumes "room_inv r" "enumerates iter" "event_ok r (Join c ds now)" "cache_synced r" "roomy 2 r"
    "backlog_leaves 2 r c ds" "room_join iter c ds now r = Inr r'"
  shows "cache_synced r'"
proof -
  from join_ok_backlog [OF assms(1,3)] obtain cl
    where cl: "deliverHistory (history r) ds (heap r c) = Inr (False, cl)" "\<not> out_closed cl"
      and inv: "room_inv (joined_room c cl r)" by blast
  have c: "c |\<notin>| clients r" "out (heap r c) = []" using assms(3) by (auto simp: fresh_client_def)
  have "length (out cl) + 2 \<le> clientSendBuffer"
    using assms(6) cl(1) by (simp add: backlog_leaves_def)
  then have rm: "roomy 2 (joined_room c cl r)" using assms(5) by (auto simp: roomy_def)
  have sy: "\<not> first_viewer cl r \<Longrightarrow> cache_synced (joined_room c cl r)"
    using assms(4) viewers_joined [OF c(1), of cl] by (auto simp: cache_synced_def distinct_viewers_def insert_absorb)
  obtain r4 where r4: "(if first_user cl r
        then dispatch iter (systemMessage (username cl @ '' joined'') now) (joined_room c cl r)
        else Inr (joined_room c cl r)) = Inr r4"
    and r': "(if first_viewer cl r then dispatch iter (viewerMessage (publishCount r4)) (publishCount r4)
         else bindE (trySend (viewerMessage r4) (heap r4 c))
                (\<lambda>(_, cl2). Inr (r4\<lparr>heap := (heap r4)(c := cl2)\<rparr>))) = Inr r'"
    using assms(7) unfolding room_join_eq [OF assms(1) cl(1)] bindE_eq_Inr by blast
  show ?thesis
  proof (cases "first_viewer cl r")
    case True
    then have "(if True then dispatch iter (viewerMessage (publishCount r4)) (publishCount r4) else Inr r4) = Inr r'"
      using r' by simp
    from two_broadcasts_cache [OF inv assms(2) rm r4 this] show ?thesis by simp
  next
    case False
    then have "\<not> first_user cl r" using first_user_viewer by blast
    then have "r4 = joined_room c cl r" using r4 by auto
    then show ?thesis using False r' sy cl(2)
      by (auto simp: trySend_def cache_synced_heap split: if_splits)
  qed
qed

lemma leave_cache:
  assumes "room_inv r" "enumerates iter" "c |\<in>| clients r \<or> closed (heap r c)" "cache_synced r" "roomy 2 r"
    "room_leave iter c now r = Inr r'"
  shows "cache_synced r'"
proof (cases "closed (heap r c)")
  case True
  then show ?thesis using assms(4,6)
    by (auto simp: room_leave_def removeClient_closed cache_synced_def distinct_viewers_def viewer_mset_def)
next
  case False
  then have c: "c |\<in>| clients r" using assms(3) by blast
  have sy: "\<not> last_viewer c r \<Longrightarrow> cache_synced (drop_client c r)"
    using assms(4) viewers_left [OF c] by (simp add: cache_synced_def distinct_viewers_def)
  have rm: "roomy 2 (drop_client c r)" using assms(5) by (simp add: roomy_def)
  from assms(6) obtain r2 r4 where
    "(if last_user c r then dispatch iter (systemMessage (username (heap r c) @ '' left'') now)
        (drop_client c r) else Inr (drop_client c r)) = Inr r2"
    and "(if last_viewer c r then dispatch iter (viewerMessage (publishCount r2)) (publishCount r2)
        else Inr r2) = Inr r4"
    and r': "r' = (if clients r4 = {||} \<and> hasOnEmpty r4
        then r4\<lparr>onEmptyCalls := onEmptyCalls r4 + 1\<rparr> else r4)"
    unfolding room_leave_def removeClient_registered [OF assms(1) c] bindE_simps prod.case Let_def
      bindE_eq_Inr sum.inject drop_client_fields fun_upd_same evicted_simps by blast
  from two_broadcasts_cache [OF room_inv_drop_client [OF assms(1) c] assms(2) rm this(1,2) sy] r'
  show ?thesis by (simp add: cache_synced_def distinct_viewers_def viewer_mset_def)
qed

lemma send_cache:
  assumes "room_inv r" "enumerates iter" "cache_synced r" "roomy 1 r"
    "room_send iter msg uid now r = Inr r'"
  shows "cache_synced r'"
proof -
  define m where "m = chatMessage msg uid now"
  have a: "viewer_mset (appendHistory m r) = viewer_mset r" "viewerCount (appendHistory m r) = viewerCount r"
    "roomy (Suc 0) (appendHistory m r)"
    using assms(4) by (auto simp: appendHistory_def viewer_mset_def Let_def roomy_def)
  have "dispatch iter m (appendHistory m r) = Inr r'" using assms(5) by (simp add: room_send_def m_def Let_def)
  from dispatch_roomy [OF room_inv_history [OF assms(1)] assms(2) a(3) this] a assms(3)
  show ?thesis by (simp add: cache_synced_def distinct_viewers_def)
qed

text \<open>
  Calm use of a room: in order, and no queue is so full that a broadcast of the arm evicts its
  client; a joiner counts after its backlog.  Stopping the room is not part of it.
\<close>

fun calm :: "room \<Rightarrow> room_event \<Rightarrow> bool" where
  "calm r (Join c ds now) = (event_ok r (Join c ds now) \<and> roomy 2 r \<and> backlog_leaves 2 r c ds)"
| "calm r (Leave c now) = (event_ok r (Leave c now) \<and> roomy 2 r)"
| "calm r (Send msg uid now) = roomy 1 r"
| "calm r Stop = False"
| "calm r e = event_ok r e"

lemma calm_ok: "calm r e \<Longrightarrow> event_ok r e"
  by (cases e) (auto simp del: event_ok.simps(2,3))

lemma calm_step:
  assumes "room_inv r" "enumerates iter" "calm r e" "cache_synced r" "room_step iter e r = Inr r'"
  shows "cache_synced r'"
proof (cases e)
  case (Connect c u uid ak)
  then have "conn_mset viewerKey ((heap r)(c := newClient u uid ak)) (clients r) =
      conn_mset viewerKey (heap r) (clients r)"
    using assms(3) by (intro conn_mset_cong) auto
  then show ?thesis using assms(4,5) Connect by (auto simp: cache_synced_def distinct_viewers_def viewer_mset_def)
next
  case (Join c ds now)
  then show ?thesis using join_cache [OF assms(1,2) _ assms(4)] assms(3-5)
    by (auto simp del: event_ok.simps split: if_splits)
next
  case (Leave c now)
  then show ?thesis using leave_cache [OF assms(1,2) _ assms(4)] assms(3-5) by (auto split: if_splits)
next
  case (Send msg uid now)
  then show ?thesis using send_cache [OF assms(1,2,4)] assms(3-5) by (auto split: if_splits)
next
  case (Recv c n)
  then show ?thesis using assms(4,5) cache_synced_heap [of "(heap r)(c := writerRecv n (heap r c))" r] by auto
qed (use assms(3) in simp)

lemma synced_new: "cache_synced (newRoom nm b)"
  by (simp add: cache_synced_def distinct_viewers_def viewer_mset_def newRoom_def conn_mset_def)

context map_range
begin

lemma calm_system: "step_system (newRoom nm b) (room_step iter) calm (\<lambda>r. room_inv r \<and> cache_synced r)"
proof
  show "room_inv (newRoom nm b) \<and> cache_synced (newRoom nm b)" by (simp add: synced_new inv_intros)
  fix r e assume r: "room_inv r \<and> cache_synced r" "calm r e"
  then obtain s where s: "room_step iter e r = Inr s" "room_inv s" using room_step_ok [OF _ enum calm_ok] by blast
  then show "\<exists>s. room_step iter e r = Inr s" by blast
  fix r' assume "room_step iter e r = Inr r'"
  then show "room_inv r' \<and> cache_synced r'" using s calm_step [OF _ enum r(2)] r(1) by auto
qed

lemmas calm_run = step_system.run_total [OF calm_system]

end

interpretation asc_calm: step_system "newRoom nm b" "room_step ascending" calm "\<lambda>r. room_inv r \<and> cache_synced r" for nm b
  by (rule asc.calm_system)

text \<open>
  C21: the published viewer count is exact as long as nobody is evicted.  Take any run of a new
  room in which clients use it in order, the room is not stopped, and at every join and leave
  the queues of the registered clients (the joiner's after its backlog) have two free slots, at
  every message one.  Then the run does not panic, and at its end the published 32-bit count is
  the number of distinct viewer keys of the registered connections; below \<open>2^31\<close> distinct_viewers reading
  it back as a signed integer gives that number.
\<close>

theorem viewer_count_exact:
  assumes "enumerates iter" and "admissible calm (room_step iter) (newRoom nm b) es"
  shows "\<exists>r. runE (room_step iter) es (newRoom nm b) = Inr r \<and> viewerCount r = of_nat (distinct_viewers r) \<and>
    (distinct_viewers r < 2 ^ 31 \<longrightarrow> sint (viewerCount r) = int (distinct_viewers r))"
proof -
  obtain r where r: "runE (room_step iter) es (newRoom nm b) = Inr r" "cache_synced r"
    using map_range.calm_run [OF map_range.intro, OF assms] by blast
  moreover have "sint (word_of_nat (distinct_viewers r) :: 32 word) = int (distinct_viewers r)" if "distinct_viewers r < 2 ^ 31"
    using that by (simp add: signed_of_nat signed_take_bit_int_eq_self)
  ultimately show ?thesis by (auto simp: cache_synced_def)
qed

theorem viewer_count_exact_witness:
  "admissible calm (room_step ascending) (newRoom ''c'' True) demo_run \<and>
   (\<exists>r. runE (room_step ascending) demo_run (newRoom ''c'' True) = Inr r \<and> viewerCount r = of_nat (distinct_viewers r))"
proof -
  have ok: "admissible calm (room_step ascending) (newRoom ''c'' True) demo_run"
    by (simp add: demo_run_def room_eval roomy_def backlog_leaves_def)
  from ok viewer_count_exact [OF enumerates_ascending ok] show ?thesis by blast
qed

section \<open>Where the count goes stale\<close>

text \<open>
  An eviction changes the set of viewers without publishing it.  A message sent to a
  room whose only client is a viewer with a full queue evicts that client and leaves the
  published count at its old value, so the directory keeps counting a viewer that is gone.
\<close>

theorem eviction_stale_count:
  assumes "room_inv r" and "enumerates iter" and "clients r = {|c|}" and "cache_synced r"
    and "viewerKey (heap r c) \<noteq> ''''" and "length (out (heap r c)) = clientSendBuffer"
  shows "\<exists>r'. room_send iter msg uid now r = Inr r' \<and> distinct_viewers r' = 0 \<and> viewerCount r' = 1"
proof -
  define m where "m = chatMessage msg uid now"
  define r1 where "r1 = appendHistory m r"
  have r1: "room_inv r1" "heap r1 = heap r" "clients r1 = clients r" "viewerCount r1 = viewerCount r"
    using room_inv_history [OF assms(1)] by (auto simp: r1_def appendHistory_def Let_def)
  obtain r' where r': "dispatch iter m r1 = Inr r'" "broadcast_to m (fset (clients r1)) r1 r'"
    using dispatch_ok [OF r1(1) assms(2)] by blast
  have "clients r' = {||}" "viewerCount r' = viewerCount r"
    using r'(2) assms(3,6) r1 by (auto simp: broadcast_to_def)
  moreover have "distinct_viewers r = 1"
    using assms(3,5) by (simp add: distinct_viewers_def viewer_mset_def conn_mset_insert)
  ultimately show ?thesis using r'(1) assms(4)
    by (simp add: room_send_def Let_def distinct_viewers_def viewer_mset_def cache_synced_def
        flip: m_def r1_def)
qed

text \<open>
  Connections without a session and without an anonymous id join and leave without being
  counted at all: they are registered and receive messages, but the number of viewers does
  not change.
\<close>

theorem keyless_guest_uncounted:
  assumes "room_inv r" and "enumerates iter" and "event_ok r (Join c ds now)"
    and "viewerKey (heap r c) = ''''"
  shows "\<exists>r'. room_join iter c ds now r = Inr r' \<and> c |\<in>| clients r' \<and>
    viewerCounts r' = viewerCounts r \<and> viewerCount r' = viewerCount r \<and> distinct_viewers r' = distinct_viewers r"
proof -
  from join_ok_backlog [OF assms(1,3)] obtain cl
    where cl: "deliverHistory (history r) ds (heap r c) = Inr (False, cl)" "\<not> out_closed cl"
      "viewerKey cl = ''''" using assms(4) by auto
  have "username cl = ''''" using cl(3) by (auto simp: viewerKey_def split: if_splits)
  have c: "c |\<notin>| clients r" using assms(3) by simp
  have v: "set_mset (viewer_mset (joined_room c cl r)) = set_mset (viewer_mset r)"
    using viewers_joined [OF c, of cl] cl(3) by simp
  have h: "viewer_mset ((joined_room c cl r)\<lparr>heap := (heap r)(c := x)\<rparr>) = viewer_mset (joined_room c cl r)"
    if "viewerKey x = ''''" for x
    unfolding viewer_mset_def using that cl(3) by simp (rule conn_mset_cong, simp)
  show ?thesis using cl \<open>username cl = ''''\<close> v h [of "cl\<lparr>out := out cl @ _\<rparr>"]
    by (simp add: room_join_eq [OF assms(1) cl(1)] trySend_def distinct_viewers_def)
      (auto simp: joined_room_def)
qed

section \<open>Panics\<close>

lemma deliverHistory_overflow:
  "\<not> out_closed c \<Longrightarrow> length (out c) \<le> clientSendBuffer \<Longrightarrow>
   clientSendBuffer < length (out c) + length ms \<Longrightarrow>
   \<exists>c'. deliverHistory ms [] c = Inr (True, c') \<and> \<not> out_closed c' \<and> closed c' = closed c"
proof (induction ms arbitrary: c)
  case (Cons m ms)
  then show ?case using Cons.IH [of "c\<lparr>out := out c @ [m]\<rparr>"]
    by (auto simp: backlog_simps writerRecv_def)
qed auto

text \<open>
  C25: a joiner that cannot take the backlog crashes the process.  With more than 32 messages
  of history and a writer that has not read any of them yet, the room refuses the joiner and
  closes its channel without marking it closed; the leave that its writer loop then sends
  closes the channel a second time, which panics in the room's goroutine.
\<close>

theorem backlog_overflow_panics:
  assumes "clientSendBuffer < length (history r)" and "fresh_client (heap r c)" and "c |\<notin>| clients r"
  shows "\<exists>r'. room_join iter c [] now r = Inr r' \<and> c |\<notin>| clients r' \<and>
    room_leave iter c now' r' = Inl CloseOfClosedChannel"
proof -
  obtain cl where cl: "deliverHistory (history r) [] (heap r c) = Inr (True, cl)" "\<not> out_closed cl"
    "\<not> closed cl"
    using deliverHistory_overflow [of "heap r c" "history r"] assms by (auto simp: fresh_client_def)
  then show ?thesis using assms(3)
    by (simp add: room_join_def closeOut_def room_leave_def removeClient_def)
qed

text \<open>
  A registered client has an open channel; that is all a broadcast needs in order not to panic,
  and one registered client with a closed channel makes it panic.
\<close>

definition open_clients :: "room \<Rightarrow> bool" where
  "open_clients r \<longleftrightarrow> (\<forall>d. d |\<in>| clients r \<longrightarrow> \<not> closed (heap r d) \<and> \<not> out_closed (heap r d))"

lemma open_dispatch_loop:
  "open_clients r \<Longrightarrow> distinct cs \<Longrightarrow> set cs \<subseteq> fset (clients r) \<Longrightarrow>
   \<exists>r'. dispatch_loop m cs r = Inr r' \<and> open_clients r' \<and> history r' = history r \<and> clients r' |\<subseteq>| clients r \<and>
     (\<forall>d. d \<notin> set cs \<longrightarrow> heap r' d = heap r d)"
proof (induction cs arbitrary: r)
  case (Cons c cs)
  have c: "\<not> closed (heap r c)" "\<not> out_closed (heap r c)" using Cons.prems by (auto simp: open_clients_def)
  obtain r1 where r1: "dispatch_loop m (c # cs) r = dispatch_loop m cs r1" "open_clients r1" "history r1 = history r"
    "clients r1 |\<subseteq>| clients r" "clients r |-| {|c|} |\<subseteq>| clients r1" "\<forall>d. d \<noteq> c \<longrightarrow> heap r1 d = heap r d"
  proof (cases "length (out (heap r c)) < clientSendBuffer")
    case True
    show ?thesis
      by (rule that [of "r\<lparr>heap := (heap r)(c := (heap r c)\<lparr>out := out (heap r c) @ [m]\<rparr>)\<rparr>"])
         (use True c Cons.prems(1) in \<open>auto simp: trySend_def open_clients_def\<close>)
  next
    case False
    show ?thesis
      by (rule that [of "drop_client c r"])
         (use False c Cons.prems(1) in \<open>auto simp: trySend_def open_clients_def removeClient_open\<close>)
  qed
  have "set cs \<subseteq> fset (clients r1)" using Cons.prems(2,3) r1(5) by auto
  then obtain r' where "dispatch_loop m cs r1 = Inr r'" "open_clients r'" "history r' = history r1" "clients r' |\<subseteq>| clients r1"
    "\<forall>d. d \<notin> set cs \<longrightarrow> heap r' d = heap r1 d" using Cons.IH [OF r1(2)] Cons.prems(2) by auto
  then show ?case using r1(3,4,6) unfolding r1(1) by (intro exI [of _ r']) auto
qed simp

lemma open_dispatch:
  assumes "open_clients r" "enumerates iter" "c |\<notin>| clients r"
  obtains r' where "dispatch iter m r = Inr r'" "open_clients r'" "history r' = history r" "c |\<notin>| clients r'" "heap r' c = heap r c"
  using open_dispatch_loop [OF assms(1), of "iter (clients r)" m] assms(2,3) that by (auto simp: dispatch_def enumerates_def)

lemma closed_dispatch_loop:
  "distinct cs \<Longrightarrow> c \<in> set cs \<Longrightarrow> out_closed (heap r c) \<Longrightarrow>
   \<forall>d\<in>set cs. d \<noteq> c \<longrightarrow> \<not> closed (heap r d) \<and> \<not> out_closed (heap r d) \<Longrightarrow> dispatch_loop m cs r = Inl SendOnClosedChannel"
proof (induction cs arbitrary: r)
  case (Cons d cs)
  show ?case
  proof (cases "d = c")
    case True
    then show ?thesis using Cons.prems(3) by (simp add: trySend_def)
  next
    case False
    then have d: "\<not> closed (heap r d)" "\<not> out_closed (heap r d)" "c \<in> set cs" "d \<notin> set cs" using Cons.prems by auto
    have "dispatch_loop m cs (r\<lparr>heap := (heap r)(d := x)\<rparr>) = Inl SendOnClosedChannel"
      "dispatch_loop m cs (drop_client d r) = Inl SendOnClosedChannel" for x
      by (rule Cons.IH; use Cons.prems d False in auto)+
    then show ?thesis using d by (simp add: trySend_def removeClient_open)
  qed
qed simp

lemma joined_closed_panics:
  assumes "open_clients r" "enumerates iter" "out_closed (heap r c)" "c |\<notin>| clients r"
  shows "room_join iter c ds now r = Inl SendOnClosedChannel"
proof (cases "history r")
  case Nil
  have dead: "dispatch iter m r' = Inl SendOnClosedChannel" if "clients r' = finsert c (clients r)" "heap r' = heap r" for m r'
    unfolding dispatch_def
    by (rule closed_dispatch_loop [of _ c]) (use assms that in \<open>auto simp: enumerates_def open_clients_def\<close>)
  show ?thesis
    using assms(3) by (simp add: room_join_def Nil Let_def split_beta dead trySend_def)
next
  case (Cons m ms)
  then show ?thesis using assms(3) by (simp add: room_join_def deliverHistory_Cons trySend_def Let_def)
qed

text \<open>
  C26: the room reads joins and leaves from two channels, so a leave can be handled before the
  join of the same client; the join then always panics.  Whoever the client is and whatever the
  room holds, the leave closes the channel of the client, which is not registered, and the join
  sends to it: the backlog, an announcement or the viewer count.
\<close>

theorem leave_before_join_panics:
  assumes inv: "room_inv r" and it: "enumerates iter" and c: "fresh_client (heap r c)" "c |\<notin>| clients r"
  shows "\<exists>r'. room_leave iter c now r = Inr r' \<and> room_join iter c ds now' r' = Inl SendOnClosedChannel"
proof -
  let ?gone = "\<lambda>r'. open_clients r' \<and> out_closed (heap r' c) \<and> c |\<notin>| clients r'"
  have start: "?gone (drop_client c r)" using inv c by (auto simp: open_clients_def room_inv_def)
  have say: "\<exists>r'. (if b then dispatch iter m r1 else Inr r1) = Inr r' \<and> ?gone r'" if "?gone r1" for b m r1
  proof (cases b)
    case True
    have "open_clients r1" "c |\<notin>| clients r1" using that by simp_all
    then obtain r' where "dispatch iter m r1 = Inr r'" "open_clients r'" "c |\<notin>| clients r'" "heap r' c = heap r1 c"
      using open_dispatch [OF _ it] by metis
    then show ?thesis using that True by auto
  qed (use that in simp)
  obtain p v where rm: "removeClient c r = Inr ((p, v), drop_client c r)"
    using removeClient_open [of r c] c by (auto simp: fresh_client_def)
  obtain r2 where r2: "(if p then dispatch iter (systemMessage (username (heap (drop_client c r) c) @ '' left'') now) (drop_client c r)
      else Inr (drop_client c r)) = Inr r2" "?gone r2" using say [OF start] by metis
  obtain r4 where r4: "(if v then dispatch iter (viewerMessage (publishCount r2)) (publishCount r2) else Inr r2) = Inr r4" "?gone r4"
  proof (cases v)
    case True
    have "?gone (publishCount r2)" using r2(2) by (simp add: open_clients_def)
    from say [OF this, of True "viewerMessage (publishCount r2)"] show ?thesis using that True by auto
  qed (use that r2(2) in simp)
  define r' where "r' = (if clients r4 = {||} \<and> hasOnEmpty r4 then r4\<lparr>onEmptyCalls := onEmptyCalls r4 + 1\<rparr> else r4)"
  have "room_leave iter c now r = Inr r'"
    unfolding room_leave_def Let_def rm bindE_simps prod.case r2(1) r4(1) r'_def ..
  moreover have "?gone r'" using r4(2) by (auto simp: r'_def open_clients_def)
  ultimately show ?thesis using joined_closed_panics it by blast
qed

section \<open>Witnesses\<close>

definition stuck_al :: room where
  "stuck_al = one_client ((newClient ''al'' 7 '''')\<lparr>out := replicate 32 (systemMessage ''x'' 0)\<rparr>)"

theorem eviction_stale_count_witness:
  "room_inv stuck_al \<and> cache_synced stuck_al \<and>
   (\<exists>r'. room_send ascending \<lparr>in_user = ''bo'', in_body = ''hi''\<rparr> ''id'' 0 stuck_al = Inr r' \<and>
      distinct_viewers r' = 0 \<and> viewerCount r' = 1)"
proof -
  have i: "room_inv stuck_al"
    unfolding stuck_al_def by (rule one_client_inv) (simp_all add: newClient_def)
  have s: "cache_synced stuck_al" "clients stuck_al = {|1|}" "viewerKey (heap stuck_al 1) \<noteq> ''''"
    "length (out (heap stuck_al 1)) = clientSendBuffer"
    by (simp_all add: stuck_al_def one_client_def newRoom_def newClient_def cache_synced_def
        distinct_viewers_def viewer_mset_def conn_mset_insert viewerKey_def clientSendBuffer_def)
  show ?thesis
    using i s(1) eviction_stale_count [OF i enumerates_ascending s(2,1,3,4)] by blast
qed

definition anon_arrives :: room where
  "anon_arrives = (one_client (newClient ''al'' 7 ''''))
     \<lparr>history := [systemMessage ''x'' 0],
      heap := (heap (one_client (newClient ''al'' 7 '''')))(2 := newClient '''' 0 '''')\<rparr>"

lemma anon_arrives_inv: "room_inv anon_arrives"
proof -
  have "room_inv ((one_client (newClient ''al'' 7 ''''))
     \<lparr>heap := (heap (one_client (newClient ''al'' 7 '''')))(2 := newClient '''' 0 '''')\<rparr>)"
    by (rule room_inv_connect, rule one_client_inv) (simp_all add: newClient_def one_client_def)
  then show ?thesis by (simp add: anon_arrives_def room_inv_def viewer_mset_def user_mset_def historySize_def)
qed

lemma anon_arrives_client: "heap anon_arrives 2 = newClient '''' 0 ''''" "history anon_arrives = [systemMessage ''x'' 0]"
  "clients anon_arrives = {|1|}"
  by (simp_all add: anon_arrives_def one_client_def)

theorem keyless_guest_uncounted_witness:
  "event_ok anon_arrives (Join 2 [] 0) \<and>
   (\<exists>r'. room_join ascending 2 [] 0 anon_arrives = Inr r' \<and> 2 |\<in>| clients r' \<and> distinct_viewers r' = distinct_viewers anon_arrives)"
proof -
  have ok: "event_ok anon_arrives (Join 2 [] 0)"
    by (simp add: anon_arrives_client fresh_client_def newClient_def deliverHistory_Cons
        writerRecv_def clientSendBuffer_def)
  have "viewerKey (heap anon_arrives 2) = ''''" by (simp add: anon_arrives_client newClient_def viewerKey_def)
  from ok keyless_guest_uncounted [OF anon_arrives_inv enumerates_ascending ok this] show ?thesis by blast
qed

theorem backlog_overflow_panics_witness:
  "\<exists>r'. room_join ascending 1 [] 0 ((newRoom ''c'' True)\<lparr>history := replicate 33 (systemMessage ''x'' 0)\<rparr>) = Inr r' \<and>
     room_leave ascending 1 1 r' = Inl CloseOfClosedChannel"
  using backlog_overflow_panics [of "(newRoom ''c'' True)\<lparr>history := replicate 33 (systemMessage ''x'' 0)\<rparr>" 1 ascending 0 1]
  by (auto simp: newRoom_def newClient_def fresh_client_def clientSendBuffer_def)

theorem leave_before_join_panics_witness:
  "\<exists>r'. room_leave ascending 2 0 anon_arrives = Inr r' \<and>
     room_join ascending 2 [] 1 r' = Inl SendOnClosedChannel"
  by (rule leave_before_join_panics [OF anon_arrives_inv enumerates_ascending])
     (simp_all add: anon_arrives_client newClient_def fresh_client_def)

end
