(* ===== verification/Float64.thy ===== *)
theory Float64
  imports Complex_Main "HOL-Library.Log_Nat"
begin

text \<open>
  Go's \<open>float64\<close> as exact rationals with IEEE 754 round-to-nearest-even after every
  operation: \<open>f64 x\<close> is the nearest double to the exact result \<open>x\<close>, with gradual underflow.
  Infinities and NaN are outside the model: no value of the rate limiter comes near
  \<open>2^1024\<close>.  The rounding is executable, so limiter runs evaluate in the kernel.
\<close>

section \<open>Rounding\<close>

text \<open>The binary exponent of a positive rational: \<open>2 ^ exp2 x \<le> x < 2 ^ (exp2 x + 1)\<close>.\<close>

definition exp2 :: "rat \<Rightarrow> int" where
  "exp2 x =
     (let (p, q) = quotient_of x; e = bitlen p - bitlen q
      in if 2 powi e \<le> x then e else e - 1)"

definition round_even :: "rat \<Rightarrow> int" where
  "round_even y =
     (let f = \<lfloor>y\<rfloor>; d = y - of_int f
      in if d < 1 / 2 then f else if 1 / 2 < d then f + 1 else if even f then f else f + 1)"

text \<open>The unit in the last place of a 53-bit significand, with the subnormal cut-off.\<close>

definition ulp :: "rat \<Rightarrow> rat" where
  "ulp x = 2 powi (max (exp2 \<bar>x\<bar>) (-1022) - 52)"

definition f64 :: "rat \<Rightarrow> rat" where
  "f64 x = (if x = 0 then 0 else of_int (round_even (x / ulp x)) * ulp x)"

section \<open>Exponent\<close>

lemma bitlen_powi:
  assumes "0 < p"
  shows "2 powi (bitlen p - 1) \<le> (of_int p :: rat)" "(of_int p :: rat) < 2 powi (bitlen p)"
proof -
  have n: "0 \<le> bitlen p - 1" "0 \<le> bitlen p"
    using bitlen_nonneg [of p] bitlen_eq_zero_iff [of p] assms by linarith+
  have "2 ^ nat (bitlen p - 1) \<le> p" "p < 2 ^ nat (bitlen p)"
    using bitlen_bounds [OF assms] by auto
  then have "(2 :: rat) ^ nat (bitlen p - 1) \<le> of_int p" "(of_int p :: rat) < 2 ^ nat (bitlen p)"
    by (metis of_int_le_iff of_int_less_iff of_int_numeral of_int_power)+
  then show "2 powi (bitlen p - 1) \<le> (of_int p :: rat)" "(of_int p :: rat) < 2 powi (bitlen p)"
    using n by (simp_all add: power_int_def)
qed

lemma exp2_bounds:
  assumes "0 < x"
  shows "2 powi (exp2 x) \<le> x" "x < 2 powi (exp2 x + 1)"
proof -
  obtain p q where pq: "quotient_of x = (p, q)" by fastforce
  have q: "0 < q" and x: "x = of_int p / of_int q"
    using quotient_of_denom_pos [OF pq] quotient_of_div [OF pq] by auto
  have p: "0 < p" using assms x q by (simp add: zero_less_divide_iff)
  define e where "e = bitlen p - bitlen q"
  have "2 powi (e - 1) = 2 powi (bitlen p - 1) / (2 powi (bitlen q) :: rat)"
    by (simp add: e_def flip: power_int_diff) (simp add: algebra_simps)
  also have "\<dots> \<le> x" unfolding x
    using bitlen_powi [OF p] bitlen_powi [OF q] p q
    by (intro frac_le) (simp_all add: less_imp_le)
  finally have lo: "2 powi (e - 1) \<le> x" .
  have "x < 2 powi (bitlen p) / 2 powi (bitlen q - 1)" unfolding x
    using bitlen_powi [OF p] bitlen_powi [OF q] p
    by (intro frac_less) simp_all
  also have "\<dots> = 2 powi (e + 1)"
    by (simp add: e_def flip: power_int_diff) (simp add: algebra_simps)
  finally have hi: "x < 2 powi (e + 1)" .
  have "exp2 x = (if 2 powi e \<le> x then e else e - 1)" by (simp add: exp2_def pq e_def)
  with lo hi show "2 powi (exp2 x) \<le> x" "x < 2 powi (exp2 x + 1)" by auto
qed

section \<open>Error bounds\<close>

lemma round_even_error: "\<bar>of_int (round_even y) - y\<bar> \<le> 1 / 2"
proof -
  define f where "f = \<lfloor>y\<rfloor>"
  have "of_int f \<le> y" "y < of_int f + 1" unfolding f_def by linarith+
  then show ?thesis unfolding round_even_def Let_def f_def [symmetric] by (auto simp: abs_if)
qed

lemma round_even_int [simp]: "round_even (of_int n) = n"
  by (simp add: round_even_def Let_def)

lemma ulp_pos [simp]: "0 < ulp x" "0 \<le> ulp x" "ulp x \<noteq> 0"
  by (simp_all add: ulp_def)

lemma f64_half_ulp: "\<bar>f64 x - x\<bar> \<le> ulp x / 2"
proof (cases "x = 0")
  case False
  have "f64 x - x = (of_int (round_even (x / ulp x)) - x / ulp x) * ulp x"
    using False by (simp add: f64_def algebra_simps)
  then have "\<bar>f64 x - x\<bar> = \<bar>of_int (round_even (x / ulp x)) - x / ulp x\<bar> * ulp x"
    by (simp add: abs_mult)
  also have "\<dots> \<le> 1 / 2 * ulp x"
    by (intro mult_right_mono round_even_error) simp
  finally show ?thesis by simp
qed (simp add: f64_def)

text \<open>The two constants of the error analysis: half a relative unit, half a subnormal unit.\<close>

definition eps :: rat where
  "eps = 1 / 2 ^ 53"

definition eta :: rat where
  "eta = 2 powi (-1075)"

lemma half_ulp_bound:
  assumes "x \<noteq> 0"
  shows "ulp x / 2 \<le> eps * \<bar>x\<bar> + eta"
proof (cases "exp2 \<bar>x\<bar> < -1022")
  case True
  then have "ulp x = 2 powi (-1074)" by (simp add: ulp_def max_def)
  also have "\<dots> = 2 * eta"
    using power_int_add_1 [of "2 :: rat" "-1075"] by (simp add: eta_def)
  finally show ?thesis by (simp add: eps_def)
next
  case False
  then have "ulp x = 2 powi (exp2 \<bar>x\<bar>) * 2 powi (-52)"
    using power_int_add [of "2 :: rat" "exp2 \<bar>x\<bar>" "-52"] by (simp add: ulp_def max_def)
  also have "\<dots> \<le> \<bar>x\<bar> * 2 powi (-52)"
    using exp2_bounds(1) [of "\<bar>x\<bar>"] assms by (intro mult_right_mono) auto
  also have "\<dots> = 2 * (eps * \<bar>x\<bar>)" by (simp add: eps_def power_int_def power_one_over)
  finally show ?thesis by (simp add: eta_def)
qed

lemma f64_error: "\<bar>f64 x - x\<bar> \<le> eps * \<bar>x\<bar> + eta"
proof (cases "x = 0")
  case False
  then show ?thesis using f64_half_ulp [of x] half_ulp_bound [of x] by linarith
qed (simp add: f64_def eta_def)

lemma f64_le: "0 \<le> x \<Longrightarrow> f64 x \<le> x + eps * x + eta"
  using f64_error [of x] by linarith

lemma f64_nonneg: "0 \<le> x \<Longrightarrow> 0 \<le> f64 x"
  by (simp add: f64_def round_even_def Let_def zero_le_mult_iff)

text \<open>Integers of up to 53 bits are exact.\<close>

lemma powi_less_exp: "(2 powi a :: rat) < 2 powi b \<Longrightarrow> a < b"
  using power_int_increasing [of b a "2 :: rat"] by (cases "a < b") auto

lemma f64_int:
  assumes "\<bar>n\<bar> < 2 ^ 53"
  shows "f64 (of_int n) = of_int n"
proof (cases "n = 0")
  case False
  define e where "e = exp2 \<bar>of_int n\<bar>"
  have e: "2 powi e \<le> \<bar>of_int n :: rat\<bar>" "\<bar>of_int n :: rat\<bar> < 2 powi (e + 1)"
    using exp2_bounds [of "\<bar>of_int n\<bar>"] False by (simp_all add: e_def)
  have "2 powi e \<le> (\<bar>of_int n\<bar> :: rat)" by (rule e(1))
  also have "\<dots> < 2 powi 53"
    using assms by (metis of_int_abs of_int_less_iff of_int_numeral of_int_power power_int_numeral)
  finally have e53: "e < 53" by (rule powi_less_exp)
  have "1 \<le> (\<bar>of_int n\<bar> :: rat)" using False by (simp flip: of_int_abs)
  with e(2) have "2 powi 0 < (2 powi (e + 1) :: rat)" by simp
  then have e0: "0 \<le> e" using powi_less_exp [of 0 "e + 1"] by simp
  have u: "ulp (of_int n) = 2 powi (e - 52)" using e0 by (simp add: ulp_def e_def)
  define k where "k = n * 2 ^ nat (52 - e)"
  have "of_int k = (of_int n * 2 powi (52 - e) :: rat)" using e53 by (simp add: k_def power_int_def)
  also have "\<dots> = of_int n / ulp (of_int n)"
    unfolding u using power_int_minus_divide [of "2 :: rat" "e - 52"] by simp
  finally have k: "of_int n / ulp (of_int n) = (of_int k :: rat)" ..
  then have "f64 (of_int n) = of_int k * ulp (of_int n)" using False unfolding f64_def k by simp
  also have "\<dots> = of_int n" by (simp flip: k)
  finally show ?thesis .
qed (simp add: f64_def)

end
