(* ===== verification/Ratelimit.thy ===== *)
theory Ratelimit
  imports Prelude Float64 "HOL-Library.Finite_Map"
begin

text \<open>
  \<open>internal/chat/ratelimit.go\<close>: the token bucket and the per-user bucket store, in double
  precision (theory \<open>Float64\<close>), with \<open>time.Now()\<close> as an argument of every call.  The lemmas
  bound how many messages a bucket can admit over any stretch of time, rounding included.
\<close>

section \<open>The bucket\<close>

record limiter =
  tokens :: rat
  maxTokens :: rat
  refillRate :: rat
  lastRefill :: time

definition newLimiter :: "int \<Rightarrow> rat \<Rightarrow> time \<Rightarrow> limiter" where
  "newLimiter burst perSecond now =
     \<lparr>tokens = f64 (of_int burst), maxTokens = f64 (of_int burst), refillRate = perSecond,
      lastRefill = now\<rparr>"

definition minFloat :: "rat \<Rightarrow> rat \<Rightarrow> rat" where
  "minFloat a b = (if a < b then a else b)"

text \<open>\<open>Duration.Seconds\<close>: whole seconds plus nanoseconds over 1e9, in floating point.\<close>

definition dur_Seconds :: "duration \<Rightarrow> rat" where
  "dur_Seconds d =
     (let sec = (if 0 \<le> d then d div 1000000000 else - ((- d) div 1000000000));
          nsec = d - sec * 1000000000
      in f64 (f64 (of_int sec) + f64 (f64 (of_int nsec) / 1000000000)))"

definition limiter_allow :: "limiter \<Rightarrow> time \<Rightarrow> bool \<times> limiter" where
  "limiter_allow l now =
     (let elapsed = dur_Seconds (time_Sub now (lastRefill l));
          l1 = (if 0 < elapsed
                then l\<lparr>tokens := minFloat (maxTokens l) (f64 (tokens l + f64 (elapsed * refillRate l))),
                       lastRefill := now\<rparr>
                else l)
      in if tokens l1 < 1 then (False, l1)
         else (True, l1\<lparr>tokens := f64 (tokens l1 - 1)\<rparr>))"

fun limiter_run :: "limiter \<Rightarrow> time list \<Rightarrow> bool list \<times> limiter" where
  "limiter_run l [] = ([], l)"
| "limiter_run l (t # ts) =
     (let (b, l1) = limiter_allow l t; (bs, l2) = limiter_run l1 ts in (b # bs, l2))"

section \<open>The store\<close>

record limiterMap =
  byUser :: "(int, limiter) fmap"
  burst :: int
  perSecond :: rat

definition newLimiterMap :: "int \<Rightarrow> rat \<Rightarrow> limiterMap" where
  "newLimiterMap b p = \<lparr>byUser = fmempty, burst = b, perSecond = p\<rparr>"

text \<open>\<open>t0\<close> is the clock read by \<open>newLimiter\<close>, \<open>t1\<close> the one passed to \<open>allow\<close>.\<close>

definition limiterMap_allow :: "limiterMap \<Rightarrow> int \<Rightarrow> time \<Rightarrow> time \<Rightarrow> bool \<times> limiterMap" where
  "limiterMap_allow m uid t0 t1 =
     (let l = (case fmlookup (byUser m) uid of
                 Some l \<Rightarrow> l
               | None \<Rightarrow> newLimiter (burst m) (perSecond m) t0);
          (b, l') = limiter_allow l t1
      in (b, m\<lparr>byUser := fmupd uid l' (byUser m)\<rparr>))"

fun limiterMap_run :: "limiterMap \<Rightarrow> (int \<times> time \<times> time) list \<Rightarrow> (int \<times> bool) list \<times> limiterMap" where
  "limiterMap_run m [] = ([], m)"
| "limiterMap_run m ((u, t0, t1) # cs) =
     (let (b, m1) = limiterMap_allow m u t0 t1; (bs, m2) = limiterMap_run m1 cs in ((u, b) # bs, m2))"

definition limiter_inv :: "limiter \<Rightarrow> bool" where
  "limiter_inv l \<longleftrightarrow>
     0 \<le> tokens l \<and> tokens l \<le> maxTokens l \<and> maxTokens l \<le> 2 ^ 52 \<and> 0 \<le> refillRate l"

section \<open>Rounding of the clock\<close>

lemma eps_eta: "0 \<le> eta" "eta \<le> eps" "0 < eps" "eps \<le> 1 / 16"
proof -
  have "(2::rat) powi (-1075) \<le> 2 powi (-53)" by (rule power_int_increasing) simp_all
  then show "eta \<le> eps" by (simp add: eta_def eps_def power_int_def power_one_over)
qed (simp_all add: eta_def eps_def)

lemma dur_Seconds_zero [simp]: "dur_Seconds 0 = 0"
  by (simp add: dur_Seconds_def f64_def)

lemma dur_Seconds_le:
  assumes "0 \<le> d" "d \<le> maxDuration"
  shows "dur_Seconds d \<le> (of_int d / 1000000000) * (1 + eps) + 4 * eps"
proof -
  define s n where "s = d div 1000000000" and "n = d mod 1000000000"
  have n: "0 \<le> n" "n < 1000000000" "d - s * 1000000000 = n"
    by (simp_all add: n_def s_def minus_div_mult_eq_mod)
  have s: "0 \<le> s" "s < 2 ^ 53" using assms by (auto simp: s_def maxDuration_def)
  define q where "q = (of_int n :: rat) / 1000000000"
  have q: "0 \<le> q" "q \<le> 1" "of_int s + q = of_int d / 1000000000"
  proof -
    show "0 \<le> q" "q \<le> 1" using n by (simp_all add: q_def)
    have "d = s * 1000000000 + n" using n by simp
    then show "of_int s + q = of_int d / 1000000000" by (simp add: q_def field_simps)
  qed
  define g where "g = f64 q"
  have g: "0 \<le> g" "g \<le> q + eps * q + eta" using f64_nonneg [OF q(1)] f64_le [OF q(1)] by (simp_all add: g_def)
  have "dur_Seconds d = f64 (of_int s + g)"
    unfolding dur_Seconds_def Let_def if_P [OF assms(1)] s_def [symmetric] n(3)
    using n(1,2) s by (simp add: g_def q_def f64_int)
  also have "\<dots> \<le> (of_int s + g) + eps * (of_int s + g) + eta"
    using s g by (intro f64_le) simp
  also have "\<dots> \<le> of_int d / 1000000000 * (1 + eps) + 4 * eps"
  proof -
    have a: "eps * q \<le> eps" using q eps_eta by (simp add: mult_left_le)
    then have g2: "g \<le> q + 2 * eps" using g eps_eta by linarith
    have "g \<le> q + 1" using g2 eps_eta by linarith
    then have b: "eps * g \<le> eps * q + eps" using eps_eta mult_left_mono [of g "q + 1" eps] by (simp add: distrib_left)
    have "of_int s + g + (eps * of_int s + eps * g) + eta \<le> of_int s + q + (eps * of_int s + eps * q) + 4 * eps"
      using b g2 eps_eta by linarith
    then have "(of_int s + g) + eps * (of_int s + g) + eta \<le> (of_int s + q) * (1 + eps) + 4 * eps"
      by (simp only: distrib_left distrib_right mult_1_left mult_1_right mult.commute add.assoc add.left_commute)
    then show ?thesis by (simp add: q(3))
  qed
  finally show ?thesis .
qed

lemma time_Sub_le: "0 \<le> time_Sub t u \<Longrightarrow> time_Sub t u \<le> t - u \<and> time_Sub t u \<le> maxDuration"
  by (auto simp: time_Sub_def minDuration_def maxDuration_def)

lemma f64_nonpos: "x \<le> 0 \<Longrightarrow> f64 x \<le> 0"
proof -
  assume x: "x \<le> 0"
  define y where "y = x / ulp x"
  have y: "y \<le> 0" using x by (simp add: y_def divide_nonpos_pos)
  have "\<lfloor>y\<rfloor> \<le> 0" using y by linarith
  moreover have "y = of_int \<lfloor>y\<rfloor>" if "\<lfloor>y\<rfloor> = 0" using that y of_int_floor_le [of y] by simp
  ultimately have "round_even y \<le> 0"
    by (cases "\<lfloor>y\<rfloor> = 0") (auto simp: round_even_def Let_def)
  then show "f64 x \<le> 0" by (simp add: f64_def y_def mult_nonpos_nonneg)
qed

lemma dur_Seconds_neg: "d \<le> 0 \<Longrightarrow> dur_Seconds d \<le> 0"
proof (cases "d = 0")
  case False
  moreover assume "d \<le> 0"
  ultimately have d: "d < 0" by simp
  define s where "s = - ((- d) div 1000000000)"
  have "s \<le> 0" using d by (simp add: s_def pos_imp_zdiv_nonneg_iff)
  moreover have "d - s * 1000000000 \<le> 0"
    using mult_div_mod_eq [of 1000000000 "- d"] pos_mod_sign [of 1000000000 "- d"] by (simp add: s_def)
  ultimately show ?thesis
    using d unfolding dur_Seconds_def Let_def s_def [symmetric]
    by (simp, intro f64_nonpos add_nonpos_nonpos divide_nonpos_pos) (simp_all flip: of_int_diff)
qed simp

lemma elapsed_bound:
  assumes "0 < dur_Seconds (time_Sub t u)"
  shows "dur_Seconds (time_Sub t u) \<le> (of_int (t - u) / 1000000000) * (1 + eps) + 4 * eps" "u < t"
proof -
  have pos: "0 < time_Sub t u" using assms dur_Seconds_neg [of "time_Sub t u"] by linarith
  then have le: "time_Sub t u \<le> t - u" "time_Sub t u \<le> maxDuration" using time_Sub_le [of t u] by auto
  have "dur_Seconds (time_Sub t u) \<le> (of_int (time_Sub t u) / 1000000000) * (1 + eps) + 4 * eps"
    using pos le by (intro dur_Seconds_le) auto
  also have "\<dots> \<le> (of_int (t - u) / 1000000000) * (1 + eps) + 4 * eps"
  proof -
    have "(of_int (time_Sub t u) :: rat) \<le> of_int (t - u)" using le(1) by (simp only: of_int_le_iff)
    then show ?thesis using eps_eta(3) by (intro add_right_mono mult_right_mono divide_right_mono) auto
  qed
  finally show "dur_Seconds (time_Sub t u) \<le> (of_int (t - u) / 1000000000) * (1 + eps) + 4 * eps" .
  show "u < t" using pos le by linarith
qed

section \<open>One call\<close>

lemma limiter_allow_frame [simp]:
  "maxTokens (snd (limiter_allow l t)) = maxTokens l"
  "refillRate (snd (limiter_allow l t)) = refillRate l"
  by (simp_all add: limiter_allow_def Let_def)

definition refilled :: "limiter \<Rightarrow> time \<Rightarrow> rat" where
  "refilled l now =
     (let elapsed = dur_Seconds (time_Sub now (lastRefill l))
      in if 0 < elapsed then minFloat (maxTokens l) (f64 (tokens l + f64 (elapsed * refillRate l)))
         else tokens l)"

lemma limiter_allow_eq:
  "fst (limiter_allow l now) \<longleftrightarrow> 1 \<le> refilled l now"
  "tokens (snd (limiter_allow l now)) = (if 1 \<le> refilled l now then f64 (refilled l now - 1) else refilled l now)"
  "lastRefill (snd (limiter_allow l now)) =
     (if 0 < dur_Seconds (time_Sub now (lastRefill l)) then now else lastRefill l)"
  by (auto simp: limiter_allow_def refilled_def Let_def)

lemma refilled_range:
  assumes "limiter_inv l"
  shows "0 \<le> refilled l now" "refilled l now \<le> maxTokens l"
  using assms by (auto simp: refilled_def Let_def minFloat_def limiter_inv_def intro!: f64_nonneg add_nonneg_nonneg)

lemma spend_le:
  assumes "1 \<le> x"
  shows "f64 (x - 1) \<le> x - 1 + eps * x" "0 \<le> f64 (x - 1)"
proof -
  show "0 \<le> f64 (x - 1)" using assms by (intro f64_nonneg) simp
  have "f64 (x - 1) \<le> x - 1 + eps * (x - 1) + eta" using assms by (intro f64_le) simp
  then show "f64 (x - 1) \<le> x - 1 + eps * x" using eps_eta by (simp add: right_diff_distrib)
qed

lemma limiter_inv_allow [inv_intros]:
  assumes "limiter_inv l"
  shows "limiter_inv (snd (limiter_allow l now))"
proof -
  define x where "x = refilled l now"
  have x: "0 \<le> x" "x \<le> maxTokens l" "maxTokens l \<le> 2 ^ 52" "0 \<le> refillRate l"
    using refilled_range [OF assms] assms by (simp_all add: x_def limiter_inv_def)
  have "f64 (x - 1) \<le> maxTokens l" if "1 \<le> x"
  proof -
    have "eps * x \<le> eps * 2 ^ 52" using x eps_eta by (intro mult_left_mono) auto
    then have "eps * x \<le> 1" by (simp add: eps_def)
    then show ?thesis using spend_le(1) [OF that] x by linarith
  qed
  then show ?thesis using x spend_le(2)
    by (auto simp: limiter_inv_def limiter_allow_eq simp flip: x_def)
qed

lemma limiter_inv_new:
  assumes "0 \<le> b" "b \<le> 2 ^ 52" "0 \<le> p"
  shows "limiter_inv (newLimiter b p now)"
proof -
  have "(of_int b :: rat) \<le> of_int (2 ^ 52)" using assms(2) by (simp only: of_int_le_iff)
  then show ?thesis using assms f64_int [of b] by (simp add: limiter_inv_def newLimiter_def)
qed

text \<open>The refill in exact arithmetic, up to a relative and an absolute rounding error.\<close>

lemma scale3: "0 \<le> (x::rat) \<Longrightarrow> (x * (1 + eps)) * (1 + eps) * (1 + eps) \<le> x * (1 + 4 * eps)"
proof -
  assume x: "0 \<le> x"
  have "(1 + eps) * (1 + eps) * (1 + eps) \<le> 1 + 4 * eps" by (simp add: eps_def)
  from mult_left_mono [OF this x] show ?thesis by (simp add: mult.assoc)
qed

lemma refilled_le:
  assumes inv: "limiter_inv l" and now: "0 < dur_Seconds (time_Sub now (lastRefill l))"
  shows "refilled l now \<le> tokens l + refillRate l * (of_int (now - lastRefill l) / 1000000000) * (1 + 4 * eps)
           + eps * (maxTokens l + 5 * refillRate l + 4)"
proof -
  define e where "e = dur_Seconds (time_Sub now (lastRefill l))"
  define D where "D = (of_int (now - lastRefill l) :: rat) / 1000000000"
  define r tk where "r = refillRate l" and "tk = tokens l"
  have r: "0 \<le> r" "0 \<le> tk" "tk \<le> maxTokens l" using inv by (simp_all add: r_def tk_def limiter_inv_def)
  have D: "0 \<le> D" "e \<le> D * (1 + eps) + 4 * eps" using elapsed_bound [OF now] by (simp_all add: D_def e_def)
  have e: "0 \<le> e * r" using now r by (simp add: e_def)
  have "refilled l now \<le> f64 (tk + f64 (e * r))"
    using now by (simp add: refilled_def Let_def minFloat_def e_def tk_def r_def)
  also have "\<dots> \<le> (tk + f64 (e * r)) * (1 + eps) + eps"
    using f64_le [of "tk + f64 (e * r)"] f64_nonneg [OF e] r eps_eta by (simp add: algebra_simps)
  also have "\<dots> \<le> (tk + (e * r * (1 + eps) + eps)) * (1 + eps) + eps"
    using f64_le [OF e] eps_eta by (intro add_right_mono mult_right_mono add_left_mono) (simp_all add: algebra_simps)
  also have "\<dots> \<le> (tk + ((D * (1 + eps) + 4 * eps) * r * (1 + eps) + eps)) * (1 + eps) + eps"
    using D r eps_eta by (intro add_right_mono mult_right_mono add_left_mono) simp_all
  also have "\<dots> = tk + eps * tk + (D * r) * (1 + eps) * (1 + eps) * (1 + eps) + eps * r * (4 * (1 + eps) * (1 + eps)) + eps * (2 + eps)"
    by (simp add: algebra_simps)
  also have "\<dots> \<le> tk + eps * maxTokens l + (D * r) * (1 + 4 * eps) + eps * r * 5 + eps * 4"
    using r D eps_eta by (intro add_mono scale3 mult_left_mono) (simp_all add: eps_def)
  finally show ?thesis by (simp add: tk_def D_def r_def algebra_simps)
qed

section \<open>Many calls\<close>

text \<open>The rounding slack of one call.\<close>

definition slack :: "limiter \<Rightarrow> rat" where
  "slack l = 8 * eps * (maxTokens l + refillRate l + 1)"

lemma slack_frame [simp]: "slack (snd (limiter_allow l now)) = slack l"
  by (simp add: slack_def)

text \<open>The tokens earned in \<open>d\<close> nanoseconds, up to the relative rounding error.\<close>

definition gain :: "limiter \<Rightarrow> duration \<Rightarrow> rat" where
  "gain l d = refillRate l * (1 + 4 * eps) * (of_int d / 1000000000)"

lemma gain_frame [simp]: "gain (snd (limiter_allow l now)) d = gain l d"
  by (simp add: gain_def)

lemma gain_zero [simp]: "gain l 0 = 0"
  by (simp add: gain_def)

lemma gain_add: "gain l (w - v) + gain l (v - u) = gain l (w - u)"
  by (simp add: gain_def diff_divide_distrib right_diff_distrib)

lemma gain_mono: "limiter_inv l \<Longrightarrow> d \<le> e \<Longrightarrow> gain l d \<le> gain l e"
  using eps_eta(3) by (auto simp: gain_def limiter_inv_def intro!: mult_left_mono divide_right_mono)

lemma allow_step:
  assumes inv: "limiter_inv l"
  shows "of_bool (fst (limiter_allow l now)) + tokens (snd (limiter_allow l now))
         \<le> tokens l
           + gain l (lastRefill (snd (limiter_allow l now)) - lastRefill l)
           + slack l"
proof -
  define x where "x = refilled l now"
  define r M where "r = refillRate l" and "M = maxTokens l"
  have x: "0 \<le> x" "x \<le> M" "0 \<le> r" using refilled_range [OF inv] inv by (simp_all add: x_def r_def M_def limiter_inv_def)
  have "of_bool (1 \<le> x) + (if 1 \<le> x then f64 (x - 1) else x) \<le> x + eps * x"
    using spend_le(1) [of x] x eps_eta by (cases "1 \<le> x") simp_all
  moreover have "eps * x \<le> eps * M" using x eps_eta by (intro mult_left_mono) auto
  ultimately have spend: "of_bool (1 \<le> x) + (if 1 \<le> x then f64 (x - 1) else x) \<le> x + eps * M" by linarith
  have "0 \<le> eps * M" "0 \<le> eps * r" using x eps_eta by simp_all
  then have slack: "eps * (M + 5 * r + 4) + eps * M \<le> slack l" "eps * M \<le> slack l"
    using eps_eta by (simp_all add: slack_def r_def M_def algebra_simps)
  show ?thesis
  proof (cases "0 < dur_Seconds (time_Sub now (lastRefill l))")
    case True
    from refilled_le [OF inv True] spend slack(1)
    have "of_bool (1 \<le> x) + (if 1 \<le> x then f64 (x - 1) else x)
       \<le> tokens l + r * (of_int (now - lastRefill l) / 1000000000) * (1 + 4 * eps) + slack l"
      unfolding x_def [symmetric] r_def [symmetric] M_def [symmetric] by linarith
    then show ?thesis using True by (cases "1 \<le> x") (simp_all add: limiter_allow_eq x_def r_def gain_def mult_ac)
  next
    case False
    then have "x = tokens l" by (simp add: x_def refilled_def Let_def)
    with spend slack(2) have "of_bool (1 \<le> x) + (if 1 \<le> x then f64 (x - 1) else x) \<le> tokens l + slack l" by linarith
    then show ?thesis using False by (cases "1 \<le> x") (simp_all add: limiter_allow_eq x_def)
  qed
qed

definition allowed :: "bool list \<Rightarrow> nat" where
  "allowed bs = length (filter id bs)"

lemma run_step:
  assumes "limiter_inv l"
  shows "of_nat (allowed (fst (limiter_run l ts))) + tokens (snd (limiter_run l ts))
         \<le> tokens l
           + gain l (lastRefill (snd (limiter_run l ts)) - lastRefill l)
           + of_nat (length ts) * slack l"
  using assms
proof (induction ts arbitrary: l)
  case (Cons t ts)
  define l1 where "l1 = snd (limiter_allow l t)"
  define b where "b = fst (limiter_allow l t)"
  have run: "limiter_run l (t # ts) = (b # fst (limiter_run l1 ts), snd (limiter_run l1 ts))"
    by (simp add: b_def l1_def split_beta Let_def)
  have "limiter_inv l1" using limiter_inv_allow [OF Cons.prems] by (simp add: l1_def)
  from Cons.IH [OF this] allow_step [OF Cons.prems, of t]
  have "of_bool b + (of_nat (allowed (fst (limiter_run l1 ts))) + tokens (snd (limiter_run l1 ts)))
    \<le> tokens l + gain l (lastRefill (snd (limiter_run l1 ts)) - lastRefill l) + (of_nat (length ts) * slack l + slack l)"
    using gain_add [of l "lastRefill (snd (limiter_run l1 ts))" "lastRefill l1" "lastRefill l"]
    by (simp add: l1_def b_def)
  then show ?case unfolding run by (cases b) (simp_all add: allowed_def distrib_right)
qed (simp add: allowed_def)

lemma lastRefill_run:
  "lastRefill l \<le> T \<Longrightarrow> \<forall>t\<in>set ts. t \<le> T \<Longrightarrow> lastRefill (snd (limiter_run l ts)) \<le> T"
proof (induction ts arbitrary: l)
  case (Cons t ts)
  then show ?case by (simp add: split_beta Let_def limiter_allow_eq)
qed simp

lemma tokens_run: "limiter_inv l \<Longrightarrow> limiter_inv (snd (limiter_run l ts))"
  by (induction ts arbitrary: l) (simp_all add: split_beta Let_def limiter_inv_allow)

section \<open>Properties of the bucket\<close>

text \<open>
  C27: the token bucket is a rate limit.  However the calls are timed, the number of messages
  admitted up to the instant \<open>T\<close> is at most the tokens in the bucket plus the refill rate
  times the elapsed time; double-precision rounding adds at most a relative \<open>2^-51\<close> to the
  refill and \<open>2^-50 * (burst + rate + 1)\<close> per call.
\<close>

theorem limiter_rate_bound:
  assumes "limiter_inv l" "lastRefill l \<le> T" "\<forall>t\<in>set ts. t \<le> T"
  shows "of_nat (length (filter id (fst (limiter_run l ts))))
         \<le> tokens l + refillRate l * (1 + 1 / 2 ^ 51) * (of_int (T - lastRefill l) / 1000000000)
           + of_nat (length ts) * ((maxTokens l + refillRate l + 1) / 2 ^ 50)"
proof -
  have "lastRefill (snd (limiter_run l ts)) - lastRefill l \<le> T - lastRefill l"
    using lastRefill_run [OF assms(2,3)] by simp
  from gain_mono [OF assms(1) this] run_step [OF assms(1), of ts] tokens_run [OF assms(1), of ts]
  have "of_nat (allowed (fst (limiter_run l ts)))
        \<le> tokens l + gain l (T - lastRefill l) + of_nat (length ts) * slack l"
    by (simp add: limiter_inv_def)
  then show ?thesis by (simp add: allowed_def gain_def slack_def eps_def)
qed

theorem limiter_rate_bound_witness:
  "of_nat (length (filter id (fst (limiter_run (newLimiter 5 1 0) [0, 0, 0, 0, 0, 0, 1500000000, 1500000000]))))
   \<le> tokens (newLimiter 5 1 0) + refillRate (newLimiter 5 1 0) * (1 + 1 / 2 ^ 51)
       * (of_int (2000000000 - lastRefill (newLimiter 5 1 0)) / 1000000000)
     + of_nat 8 * ((maxTokens (newLimiter 5 1 0) + refillRate (newLimiter 5 1 0) + 1) / 2 ^ 50)"
  using limiter_rate_bound [OF limiter_inv_new [of 5 1 0], of 2000000000 "[0, 0, 0, 0, 0, 0, 1500000000, 1500000000]"]
  by (simp add: newLimiter_def)

lemma allow_same_instant:
  assumes "tokens l = of_int k" "0 \<le> k" "k < 2 ^ 53" "lastRefill l = t"
  shows "limiter_allow l t = (1 \<le> k, l\<lparr>tokens := of_int (k - of_bool (1 \<le> k))\<rparr>)"
proof -
  have "f64 (of_int k - 1) = of_int (k - 1)" if "1 \<le> k" using f64_int [of "k - 1"] assms that by simp
  then show ?thesis
    using assms by (auto simp: limiter_allow_def time_Sub_def minDuration_def maxDuration_def)
qed

lemma run_same_instant:
  "tokens l = of_int k \<Longrightarrow> 0 \<le> k \<Longrightarrow> k < 2 ^ 53 \<Longrightarrow> lastRefill l = t \<Longrightarrow>
   fst (limiter_run l (replicate n t)) = map (\<lambda>i. int i < k) [0..<n]"
proof (induction n arbitrary: l k)
  case (Suc n)
  have "fst (limiter_run (l\<lparr>tokens := of_int (k - of_bool (1 \<le> k))\<rparr>) (replicate n t))
        = map (\<lambda>i. int i < k - of_bool (1 \<le> k)) [0..<n]"
    using Suc.prems by (intro Suc.IH) simp_all
  also have "\<dots> = map (\<lambda>i. int (Suc i) < k) [0..<n]" using Suc.prems by (auto simp: of_bool_def)
  finally show ?case using Suc.prems
    by (simp add: allow_same_instant split_beta Let_def upt_conv_Cons map_Suc_upt [symmetric] o_def
             del: upt_Suc) linarith
qed simp

text \<open>
  The burst is exact.  A new bucket of burst \<open>b\<close> admits precisely the first \<open>b\<close> of any
  number of calls made at the instant it was created, and denies the rest.
\<close>

theorem burst_exact:
  assumes "0 \<le> b" "b < 2 ^ 53"
  shows "fst (limiter_run (newLimiter b p t) (replicate n t)) = map (\<lambda>i. int i < b) [0..<n]"
  using assms f64_int [of b] by (intro run_same_instant) (simp_all add: newLimiter_def)

theorem burst_exact_witness:
  "fst (limiter_run (newLimiter 5 1 7) (replicate 7 7)) = [True, True, True, True, True, False, False]"
  using burst_exact [of 5 1 7 7] by (simp add: upt_rec)

lemma f64_ge_1:
  assumes "1 \<le> x"
  shows "1 \<le> f64 x"
proof -
  define e where "e = exp2 x"
  have x: "0 < x" "\<bar>x\<bar> = x" using assms by simp_all
  have "2 powi 0 < (2 powi (e + 1) :: rat)" using exp2_bounds(2) [OF x(1)] assms by (simp add: e_def)
  then have e0: "0 \<le> e" using powi_less_exp [of 0 "e + 1"] by simp
  have u: "ulp x = 2 powi (e - 52)" using e0 x by (simp add: ulp_def e_def)
  have p: "2 powi e = 2 ^ 52 * ulp x" unfolding u using power_int_add [of "2 :: rat" 52 "e - 52"] by simp
  have "2 ^ 52 * ulp x \<le> x" using exp2_bounds(1) [OF x(1)] p by (simp only: e_def)
  then have "2 ^ 52 \<le> x / ulp x" by (simp add: pos_le_divide_eq)
  then have "2 ^ 52 \<le> \<lfloor>x / ulp x\<rfloor>" by (simp add: le_floor_iff)
  then have "2 ^ 52 \<le> round_even (x / ulp x)" by (auto simp: round_even_def Let_def)
  then have "(2 ^ 52 :: rat) \<le> of_int (round_even (x / ulp x))"
    by (metis of_int_le_iff of_int_numeral of_int_power)
  then have "2 powi e \<le> f64 x" unfolding p using x by (simp add: f64_def)
  moreover have "(1::rat) \<le> 2 powi e" using power_int_increasing [of 0 e "2 :: rat"] e0 by simp
  ultimately show ?thesis by linarith
qed

text \<open>
  The bucket never locks a user out.  With a burst and a rate of at least one (the service
  runs with 5 and 1.0), a call made one second or more after the last refill is admitted,
  whatever the bucket held.
\<close>

theorem idle_second_admits:
  assumes "limiter_inv l" "1 \<le> maxTokens l" "1 \<le> refillRate l" "lastRefill l + 1000000000 \<le> now"
  shows "fst (limiter_allow l now)"
proof -
  define d where "d = time_Sub now (lastRefill l)"
  have d: "1000000000 \<le> d" using assms(4) by (auto simp: d_def time_Sub_def minDuration_def maxDuration_def)
  have "dur_Seconds d = f64 (f64 (of_int (d div 1000000000)) + f64 (f64 (of_int (d mod 1000000000)) / 1000000000))"
    using d unfolding dur_Seconds_def Let_def by (simp only: minus_div_mult_eq_mod if_P)
  moreover have "1 \<le> f64 (of_int (d div 1000000000))" using d by (intro f64_ge_1) simp
  moreover have "0 \<le> f64 (f64 (of_int (d mod 1000000000)) / 1000000000)" by (intro f64_nonneg divide_nonneg_pos) simp_all
  ultimately have e: "1 \<le> dur_Seconds d" by (simp add: f64_ge_1)
  then have "1 \<le> dur_Seconds d * refillRate l" using assms(3) mult_mono [of 1 "dur_Seconds d" 1 "refillRate l"] by simp
  then have "1 \<le> f64 (tokens l + f64 (dur_Seconds d * refillRate l))"
    using f64_ge_1 assms(1) by (intro f64_ge_1) (fastforce simp: limiter_inv_def)
  with e assms(2) show ?thesis
    by (simp add: limiter_allow_eq refilled_def Let_def minFloat_def flip: d_def)
qed

theorem idle_second_admits_witness:
  "fst (limiter_allow (snd (limiter_allow (newLimiter 1 1 0) 0)) 1000000000)"
proof -
  have l: "snd (limiter_allow (newLimiter 1 1 0) 0) = \<lparr>tokens = 0, maxTokens = 1, refillRate = 1, lastRefill = 0\<rparr>"
    by code_simp
  show ?thesis unfolding l by (rule idle_second_admits) (simp_all add: limiter_inv_def)
qed

section \<open>Properties of the store\<close>

definition userCalls :: "int \<Rightarrow> (int \<times> time \<times> time) list \<Rightarrow> (int \<times> time \<times> time) list" where
  "userCalls u cs = filter (\<lambda>c. fst c = u) cs"

definition bucketAt :: "limiterMap \<Rightarrow> int \<Rightarrow> time \<Rightarrow> limiter" where
  "bucketAt m u t0 =
     (case fmlookup (byUser m) u of Some l \<Rightarrow> l | None \<Rightarrow> newLimiter (burst m) (perSecond m) t0)"

lemma limiterMap_allow_eq:
  "limiterMap_allow m u t0 t1 =
     (fst (limiter_allow (bucketAt m u t0) t1),
      m\<lparr>byUser := fmupd u (snd (limiter_allow (bucketAt m u t0) t1)) (byUser m)\<rparr>)"
  by (simp add: limiterMap_allow_def bucketAt_def split_beta Let_def)

lemma limiterMap_run_present:
  "fmlookup (byUser m) u = Some l \<Longrightarrow>
   map snd (filter (\<lambda>d. fst d = u) (fst (limiterMap_run m cs)))
   = fst (limiter_run l (map (snd \<circ> snd) (userCalls u cs)))"
proof (induction cs arbitrary: m l)
  case (Cons c cs)
  obtain v t0 t1 where c: "c = (v, t0, t1)" by (cases c)
  define m1 where "m1 = snd (limiterMap_allow m v t0 t1)"
  have run: "fst (limiterMap_run m (c # cs)) = (v, fst (limiterMap_allow m v t0 t1)) # fst (limiterMap_run m1 cs)"
    by (simp add: c m1_def split_beta Let_def)
  show ?case
  proof (cases "v = u")
    case True
    then have "fmlookup (byUser m1) u = Some (snd (limiter_allow l t1))"
      using Cons.prems by (simp add: m1_def limiterMap_allow_eq bucketAt_def)
    from Cons.IH [OF this] True Cons.prems show ?thesis
      unfolding run by (simp add: userCalls_def c limiterMap_allow_eq bucketAt_def split_beta Let_def)
  next
    case False
    then have "fmlookup (byUser m1) u = Some l" using Cons.prems by (simp add: m1_def limiterMap_allow_eq)
    from Cons.IH [OF this] False show ?thesis unfolding run by (simp add: userCalls_def c)
  qed
qed (simp add: userCalls_def)

text \<open>
  C28: users do not share quota.  In any interleaving of the calls of all users, the decisions
  one user gets are those of a bucket of its own on its own calls; the bucket is the stored
  one, or, at the user's first call, a new one with the store's parameters.
\<close>

theorem users_do_not_share_quota:
  "map snd (filter (\<lambda>d. fst d = u) (fst (limiterMap_run m cs)))
   = (case userCalls u cs of
        [] \<Rightarrow> []
      | (_, t0, _) # _ \<Rightarrow> fst (limiter_run (bucketAt m u t0) (map (snd \<circ> snd) (userCalls u cs))))"
proof (induction cs arbitrary: m)
  case (Cons c cs)
  obtain v t0 t1 where c: "c = (v, t0, t1)" by (cases c)
  define m1 where "m1 = snd (limiterMap_allow m v t0 t1)"
  have run: "fst (limiterMap_run m (c # cs)) = (v, fst (limiterMap_allow m v t0 t1)) # fst (limiterMap_run m1 cs)"
    by (simp add: c m1_def split_beta Let_def)
  show ?case
  proof (cases "v = u")
    case True
    then have "fmlookup (byUser m1) u = Some (snd (limiter_allow (bucketAt m u t0) t1))"
      by (simp add: m1_def limiterMap_allow_eq)
    from limiterMap_run_present [OF this] True show ?thesis
      unfolding run by (simp add: userCalls_def c limiterMap_allow_eq split_beta Let_def)
  next
    case False
    have same: "userCalls u (c # cs) = userCalls u cs" using False by (simp add: userCalls_def c)
    have bucket: "bucketAt m1 u = bucketAt m u"
      using False by (simp add: fun_eq_iff m1_def limiterMap_allow_eq bucketAt_def split: option.split)
    show ?thesis using Cons.IH [of m1] False unfolding run same bucket by simp
  qed
qed (simp add: userCalls_def)

end
