(* ===== verification/Chat_Manager.thy ===== *)
theory Chat_Manager
  imports Chat_Props Ratelimit
begin

text \<open>
  \<open>internal/chat/manager.go\<close> and \<open>internal/chat/service.go\<close>: the rooms map with its reap
  timers, the shutdown, and the service facade.  The record \<open>world\<close> adds what the source keeps
  on the heap and in goroutines: the room objects, the armed timers, the \<open>reap\<close> calls a timer
  has started and that wait for the mutex, and the rooms whose \<open>stop\<close> channel is about to be
  closed (\<open>reap\<close> and \<open>shutdownAll\<close> close it after they release the mutex).  Each step is one
  critical section, so every interleaving of the goroutines is a list of steps.
\<close>

section \<open>State\<close>

type_synonym rid = nat
type_synonym tid = nat

record roomEntry =
  re_room :: rid
  reapTimer :: "tid option"

record manager =
  rooms :: "(string, roomEntry) fmap"
  limits :: limiterMap
  stopped :: bool

record world =
  mgr :: manager
  roomObj :: "rid \<Rightarrow> room"
  nextRoom :: rid
  armed :: "(tid \<times> string) list"
  nextTimer :: tid
  firing :: "string list"
  closing :: "rid list"
  stopClosed :: "rid list"

definition newManager :: "int \<Rightarrow> rat \<Rightarrow> manager" where
  "newManager b p = \<lparr>rooms = fmempty, limits = newLimiterMap b p, stopped = False\<rparr>"

definition newWorld :: "manager \<Rightarrow> world" where
  "newWorld m =
     \<lparr>mgr = m, roomObj = (\<lambda>_. newRoom '''' False), nextRoom = 0, armed = [], nextTimer = 0,
      firing = [], closing = [], stopClosed = []\<rparr>"

section \<open>Operations\<close>

definition setEntry :: "string \<Rightarrow> roomEntry \<Rightarrow> world \<Rightarrow> world" where
  "setEntry nm e w = w\<lparr>mgr := (mgr w)\<lparr>rooms := fmupd nm e (rooms (mgr w))\<rparr>\<rparr>"

text \<open>\<open>Timer.Stop\<close> removes an armed timer; a timer that has fired is not affected.\<close>

definition timerStop :: "tid option \<Rightarrow> world \<Rightarrow> world" where
  "timerStop t w = (case t of None \<Rightarrow> w | Some i \<Rightarrow> w\<lparr>armed := filter (\<lambda>(j, _). j \<noteq> i) (armed w)\<rparr>)"

definition getOrCreate :: "string \<Rightarrow> world \<Rightarrow> rid option \<times> world" where
  "getOrCreate channelName w =
     (if stopped (mgr w) then (None, w)
      else case fmlookup (rooms (mgr w)) channelName of
        Some e \<Rightarrow>
          (Some (re_room e),
           if reapTimer e \<noteq> None then
             setEntry channelName (e\<lparr>reapTimer := None\<rparr>) (timerStop (reapTimer e) w)
           else w)
      | None \<Rightarrow>
          (let r = nextRoom w;
               w1 = w\<lparr>roomObj := (roomObj w)(r := newRoom channelName True), nextRoom := r + 1\<rparr>
           in (Some r, setEntry channelName \<lparr>re_room = r, reapTimer = None\<rparr> w1)))"

definition scheduleReap :: "string \<Rightarrow> world \<Rightarrow> world" where
  "scheduleReap channelName w =
     (case fmlookup (rooms (mgr w)) channelName of
        None \<Rightarrow> w
      | Some e \<Rightarrow>
          (let w1 = timerStop (reapTimer e) w; t = nextTimer w1
           in setEntry channelName (e\<lparr>reapTimer := Some t\<rparr>)
                (w1\<lparr>armed := armed w1 @ [(t, channelName)], nextTimer := t + 1\<rparr>)))"

text \<open>\<open>delete(m.rooms, name)\<close> by a goroutine that keeps the entry to close its stop channel.\<close>

definition takeEntry :: "string \<Rightarrow> roomEntry \<Rightarrow> world \<Rightarrow> world" where
  "takeEntry nm e w =
     w\<lparr>mgr := (mgr w)\<lparr>rooms := fmdrop nm (rooms (mgr w))\<rparr>, closing := closing w @ [re_room e]\<rparr>"

text \<open>The critical section of \<open>reap\<close>, and the \<open>close\<close> that follows it.\<close>

definition reap :: "string \<Rightarrow> world \<Rightarrow> world" where
  "reap channelName w =
     (case fmlookup (rooms (mgr w)) channelName of
        None \<Rightarrow> w
      | Some e \<Rightarrow> takeEntry channelName e w)"

definition closeStop :: "rid \<Rightarrow> world \<Rightarrow> panic + world" where
  "closeStop r w =
     (if r \<in> set (stopClosed w) then Inl CloseOfClosedChannel
      else Inr (w\<lparr>closing := remove1 r (closing w), stopClosed := r # stopClosed w\<rparr>))"

text \<open>The loop of \<open>shutdownAll\<close>; \<open>nms\<close> is the iteration order of the map.\<close>

fun shutdown_loop :: "string list \<Rightarrow> world \<Rightarrow> world" where
  "shutdown_loop [] w = w"
| "shutdown_loop (nm # nms) w =
     (case fmlookup (rooms (mgr w)) nm of
        None \<Rightarrow> shutdown_loop nms w
      | Some e \<Rightarrow> shutdown_loop nms (takeEntry nm e (timerStop (reapTimer e) w)))"

definition shutdownAll :: "string list \<Rightarrow> world \<Rightarrow> world" where
  "shutdownAll order w = shutdown_loop order (w\<lparr>mgr := (mgr w)\<lparr>stopped := True\<rparr>\<rparr>)"

definition allowUser :: "int \<Rightarrow> time \<Rightarrow> time \<Rightarrow> world \<Rightarrow> bool \<times> world" where
  "allowUser uid t0 t1 w =
     (let (b, l) = limiterMap_allow (limits (mgr w)) uid t0 t1
      in (b, w\<lparr>mgr := (mgr w)\<lparr>limits := l\<rparr>\<rparr>))"

definition mgr_viewerCount :: "string \<Rightarrow> world \<Rightarrow> int" where
  "mgr_viewerCount channelName w =
     (case fmlookup (rooms (mgr w)) channelName of
        None \<Rightarrow> 0
      | Some e \<Rightarrow> sint (viewerCount (roomObj w (re_room e))))"

section \<open>The service facade\<close>

record Options =
  RateBurst :: int
  RatePerSecond :: rat

definition NewService :: "Options \<Rightarrow> world" where
  "NewService opts =
     (let b = (if RateBurst opts \<le> 0 then 5 else RateBurst opts);
          perSec = (if RatePerSecond opts \<le> 0 then 1 else RatePerSecond opts)
      in newWorld (newManager b perSec))"

definition Shutdown :: "string list \<Rightarrow> world \<Rightarrow> world" where
  "Shutdown order w = shutdownAll order w"

definition ViewerCount :: "string \<Rightarrow> world \<Rightarrow> int" where
  "ViewerCount channelName w = mgr_viewerCount channelName w"

section \<open>Steps\<close>

text \<open>
  One step of the service: a call of \<open>getOrCreate\<close>; an arm of a room's \<open>run\<close>, which calls
  \<open>scheduleReap\<close> where the room reports that it is empty; a timer that expires and starts its
  \<open>reap\<close> call; the critical section of that call; the \<open>close\<close> of a stop channel; a rate-limit
  decision; the shutdown.
\<close>

datatype mgr_event =
    GetRoom string
  | InRoom rid room_event
  | Expire tid
  | Reap string
  | CloseStop rid
  | Allow int time time
  | ShutdownAll "string list"

definition room_arm :: "iteration \<Rightarrow> rid \<Rightarrow> room_event \<Rightarrow> world \<Rightarrow> panic + world" where
  "room_arm iter i ev w =
     bindE (room_step iter ev (roomObj w i)) (\<lambda>r.
       let w1 = w\<lparr>roomObj := (roomObj w)(i := r)\<rparr>
       in Inr (if onEmptyCalls (roomObj w i) < onEmptyCalls r then scheduleReap (room_name r) w1 else w1))"

fun mgr_step :: "iteration \<Rightarrow> mgr_event \<Rightarrow> world \<Rightarrow> panic + world" where
  "mgr_step iter (GetRoom nm) w = Inr (snd (getOrCreate nm w))"
| "mgr_step iter (InRoom i ev) w = room_arm iter i ev w"
| "mgr_step iter (Expire t) w =
     (case map_of (armed w) t of
        None \<Rightarrow> Inr w
      | Some nm \<Rightarrow> Inr ((timerStop (Some t) w)\<lparr>firing := firing w @ [nm]\<rparr>))"
| "mgr_step iter (Reap nm) w =
     (if nm \<in> set (firing w) then Inr (reap nm (w\<lparr>firing := remove1 nm (firing w)\<rparr>)) else Inr w)"
| "mgr_step iter (CloseStop i) w = (if i \<in> set (closing w) then closeStop i w else Inr w)"
| "mgr_step iter (Allow u t0 t1) w = Inr (snd (allowUser u t0 t1 w))"
| "mgr_step iter (ShutdownAll nms) w = Inr (shutdownAll nms w)"

section \<open>Specification\<close>

text \<open>
  Every room object is in exactly one place: registered under its own name, about to be
  stopped, or stopped once.  After the shutdown nothing is registered.
\<close>

definition registered :: "world \<Rightarrow> rid \<Rightarrow> bool" where
  "registered w i \<longleftrightarrow>
     (case fmlookup (rooms (mgr w)) (room_name (roomObj w i)) of None \<Rightarrow> False | Some e \<Rightarrow> re_room e = i)"

definition world_inv :: "world \<Rightarrow> bool" where
  "world_inv w \<longleftrightarrow>
     (\<forall>i. room_inv (roomObj w i)) \<and>
     (\<forall>nm e. fmlookup (rooms (mgr w)) nm = Some e \<longrightarrow>
        re_room e < nextRoom w \<and> room_name (roomObj w (re_room e)) = nm) \<and>
     distinct (closing w @ stopClosed w) \<and>
     (\<forall>i. i \<in> set (closing w @ stopClosed w) \<longleftrightarrow> i < nextRoom w \<and> \<not> registered w i) \<and>
     (stopped (mgr w) \<longrightarrow> rooms (mgr w) = fmempty)"

text \<open>
  The admissible steps: clients use a room in order (\<open>event_ok\<close>), a room runs its stop arm
  only once its stop channel is closed, and the shutdown ranges over the whole map.
\<close>

fun mgr_event_ok :: "world \<Rightarrow> mgr_event \<Rightarrow> bool" where
  "mgr_event_ok w (InRoom i ev) =
     (i < nextRoom w \<and> event_ok (roomObj w i) ev \<and> (ev = Stop \<longrightarrow> i \<in> set (stopClosed w)))"
| "mgr_event_ok w (ShutdownAll nms) = (distinct nms \<and> set nms = fset (fmdom (rooms (mgr w))))"
| "mgr_event_ok w e = True"

section \<open>Frame of a room step\<close>

lemma removeClient_name: "removeClient c r = Inr (x, r') \<Longrightarrow> room_name r' = room_name r"
  by (auto simp: removeClient_def Let_def split_beta split: if_splits)

lemma dispatch_loop_name: "dispatch_loop m cs r = Inr r' \<Longrightarrow> room_name r' = room_name r"
  by (induction m cs r rule: dispatch_loop.induct) (fastforce dest: removeClient_name split: if_splits)+

lemma dispatch_name: "dispatch iter m r = Inr r' \<Longrightarrow> room_name r' = room_name r"
  unfolding dispatch_def by (rule dispatch_loop_name)

lemma stop_loop_name: "stop_loop cs r = Inr r' \<Longrightarrow> room_name r' = room_name r"
  by (induction cs r rule: stop_loop.induct) (fastforce dest: removeClient_name)+

text \<open>The intermediate rooms of a join and of a leave that do not panic.\<close>

lemma room_leave_cases:
  assumes "room_leave iter c now r = Inr r'"
  obtains wl vc r1 r2 r3 where
    "removeClient c r = Inr ((wl, vc), r1)"
    "(if wl then dispatch iter (systemMessage (username (heap r1 c) @ '' left'') now) r1 else Inr r1) = Inr r2"
    "(if vc then dispatch iter (viewerMessage (publishCount r2)) (publishCount r2) else Inr r2) = Inr r3"
    "r' = (if clients r3 = {||} \<and> hasOnEmpty r3 then r3\<lparr>onEmptyCalls := onEmptyCalls r3 + 1\<rparr> else r3)"
proof -
  obtain wl vc r1 where r1: "removeClient c r = Inr ((wl, vc), r1)"
    using assms by (cases "removeClient c r") (auto simp: room_leave_def)
  define x where "x = (if wl then dispatch iter (systemMessage (username (heap r1 c) @ '' left'') now) r1 else Inr r1)"
  obtain r2 where r2: "x = Inr r2" using assms by (cases x) (simp_all add: room_leave_def r1 x_def)
  define y where "y = (if vc then dispatch iter (viewerMessage (publishCount r2)) (publishCount r2) else Inr r2)"
  have eq: "room_leave iter c now r = bindE y (\<lambda>r4. Inr (if clients r4 = {||} \<and> hasOnEmpty r4
                        then r4\<lparr>onEmptyCalls := onEmptyCalls r4 + 1\<rparr> else r4))"
    using r2 by (simp only: room_leave_def r1 bindE_simps prod.case x_def [symmetric] y_def [symmetric] Let_def)
  then obtain r3 where r3: "y = Inr r3" using assms by (cases y) auto
  show thesis
    by (rule that [OF r1 r2 [unfolded x_def] r3 [unfolded y_def]]) (use assms eq r3 in simp)
qed

lemma room_join_cases:
  assumes "room_join iter c ds now r = Inr r'"
  obtains (overflow) cl cl' where "deliverHistory (history r) ds (heap r c) = Inr (True, cl)"
      "closeOut cl = Inr cl'" "r' = r\<lparr>heap := (heap r)(c := cl')\<rparr>"
    | (joined) cl v u fp vc r1 r2 where "deliverHistory (history r) ds (heap r c) = Inr (False, cl)"
      "r1 = r\<lparr>heap := (heap r)(c := cl), clients := finsert c (clients r), viewerCounts := v, userPresence := u\<rparr>"
      "(if fp then dispatch iter (systemMessage (username cl @ '' joined'') now) r1 else Inr r1) = Inr r2"
      "(if vc then dispatch iter (viewerMessage (publishCount r2)) (publishCount r2)
        else bindE (trySend (viewerMessage r2) (heap r2 c)) (\<lambda>(_, cl2). Inr (r2\<lparr>heap := (heap r2)(c := cl2)\<rparr>)))
       = Inr r'"
proof -
  obtain ov cl where d: "deliverHistory (history r) ds (heap r c) = Inr (ov, cl)"
    using assms by (cases "deliverHistory (history r) ds (heap r c)") (auto simp: room_join_def)
  show thesis
  proof (cases ov)
    case True
    then show thesis using assms d overflow by (auto simp: room_join_def)
  next
    case False
    obtain vc v where v: "(if viewerKey cl \<noteq> '''' then count_incr (viewerKey cl) (viewerCounts r) else (False, viewerCounts r)) = (vc, v)"
      by fastforce
    obtain fp u where u: "(if username cl \<noteq> '''' then count_incr (username cl) (userPresence r) else (False, userPresence r)) = (fp, u)"
      by fastforce
    define r1 where "r1 = r\<lparr>heap := (heap r)(c := cl), clients := finsert c (clients r), viewerCounts := v, userPresence := u\<rparr>"
    have eq: "room_join iter c ds now r =
      bindE (if fp then dispatch iter (systemMessage (username cl @ '' joined'') now) r1 else Inr r1)
        (\<lambda>r4. if vc then dispatch iter (viewerMessage (publishCount r4)) (publishCount r4)
              else bindE (trySend (viewerMessage r4) (heap r4 c)) (\<lambda>(_, cl2). Inr (r4\<lparr>heap := (heap r4)(c := cl2)\<rparr>)))"
      using False d v u
      by (cases "viewerKey cl = []"; cases "username cl = []") (simp_all add: room_join_def Let_def r1_def)
    obtain r2 where r2: "(if fp then dispatch iter (systemMessage (username cl @ '' joined'') now) r1 else Inr r1) = Inr r2"
      using assms unfolding eq bindE_eq_Inr by blast
    have "deliverHistory (history r) ds (heap r c) = Inr (False, cl)" using d False by simp
    then show thesis by (rule joined [OF _ r1_def r2]) (use assms eq r2 in simp)
  qed
qed

lemma room_leave_name: "room_leave iter c now r = Inr r' \<Longrightarrow> room_name r' = room_name r"
  by (erule room_leave_cases)
     (auto dest!: removeClient_name dispatch_name simp: publishCount_def split: if_splits)

lemma room_join_name: "room_join iter c ds now r = Inr r' \<Longrightarrow> room_name r' = room_name r"
  by (erule room_join_cases) (auto dest!: dispatch_name simp: publishCount_def split: if_splits)

lemma room_step_name: "room_step iter ev r = Inr r' \<Longrightarrow> room_name r' = room_name r"
  by (cases ev)
     (auto simp: room_send_def room_stop_def appendHistory_def Let_def
           dest!: room_join_name room_leave_name dispatch_name stop_loop_name split: if_splits)

section \<open>The invariant\<close>

lemmas world_defs = world_inv_def registered_def

lemma world_inv_frame [simp]:
  "world_inv (w\<lparr>armed := a\<rparr>) = world_inv w"
  "world_inv (w\<lparr>nextTimer := t\<rparr>) = world_inv w"
  "world_inv (w\<lparr>firing := f\<rparr>) = world_inv w"
  "world_inv (w\<lparr>mgr := (mgr w)\<lparr>limits := l\<rparr>\<rparr>) = world_inv w"
  by (simp_all add: world_defs)

lemma timerStop_frame [simp]:
  "mgr (timerStop t w) = mgr w" "world_inv (timerStop t w) = world_inv w"
  "roomObj (timerStop t w) = roomObj w" "nextRoom (timerStop t w) = nextRoom w"
  "closing (timerStop t w) = closing w" "stopClosed (timerStop t w) = stopClosed w"
  "firing (timerStop t w) = firing w" "nextTimer (timerStop t w) = nextTimer w"
  by (simp_all add: timerStop_def split: option.split)

lemma registered_setEntry:
  "fmlookup (rooms (mgr w)) nm = Some e \<Longrightarrow> re_room e' = re_room e \<Longrightarrow>
   registered (setEntry nm e' w) i = registered w i"
  by (auto simp: registered_def setEntry_def split: option.split)

lemma world_inv_retimer [inv_intros]:
  assumes "world_inv w" "fmlookup (rooms (mgr w)) nm = Some e" "re_room e' = re_room e"
  shows "world_inv (setEntry nm e' w)"
proof -
  have "\<not> stopped (mgr w)" using assms by (auto simp: world_inv_def)
  then show ?thesis
    using assms unfolding world_inv_def registered_setEntry [OF assms(2,3)] by (auto simp: setEntry_def)
qed

lemma world_inv_scheduleReap [inv_intros]: "world_inv w \<Longrightarrow> world_inv (scheduleReap nm w)"
  by (auto simp: scheduleReap_def Let_def split: option.split intro!: world_inv_retimer)

lemma world_inv_entry:
  "world_inv w \<Longrightarrow> fmlookup (rooms (mgr w)) nm = Some e \<Longrightarrow>
   re_room e < nextRoom w \<and> room_name (roomObj w (re_room e)) = nm"
  by (auto simp: world_inv_def)

lemma world_inv_create:
  assumes inv: "world_inv w" and new: "fmlookup (rooms (mgr w)) nm = None" and up: "\<not> stopped (mgr w)"
  shows "world_inv (setEntry nm \<lparr>re_room = nextRoom w, reapTimer = None\<rparr>
           (w\<lparr>roomObj := (roomObj w)(nextRoom w := newRoom nm True), nextRoom := nextRoom w + 1\<rparr>))"
proof -
  define w' where "w' = setEntry nm \<lparr>re_room = nextRoom w, reapTimer = None\<rparr>
           (w\<lparr>roomObj := (roomObj w)(nextRoom w := newRoom nm True), nextRoom := nextRoom w + 1\<rparr>)"
  have nm: "room_name (newRoom nm True) = nm" by (simp add: newRoom_def)
  have lk: "fmlookup (rooms (mgr w')) x =
      (if x = nm then Some \<lparr>re_room = nextRoom w, reapTimer = None\<rparr> else fmlookup (rooms (mgr w)) x)" for x
    by (simp add: setEntry_def w'_def)
  have obj: "roomObj w' = (roomObj w)(nextRoom w := newRoom nm True)" "nextRoom w' = Suc (nextRoom w)"
    "closing w' = closing w" "stopClosed w' = stopClosed w" "stopped (mgr w') = stopped (mgr w)"
    by (simp_all add: setEntry_def w'_def)
  have reg: "registered w' i \<longleftrightarrow> (if i = nextRoom w then True else registered w i)" for i
    using new inv by (simp add: registered_def lk obj nm)
  have "i < nextRoom w \<and> \<not> registered w i \<longleftrightarrow>
        i < Suc (nextRoom w) \<and> \<not> (if i = nextRoom w then True else registered w i)" for i
    by auto
  moreover have "re_room e \<noteq> nextRoom w" if "fmlookup (rooms (mgr w)) x = Some e" for x e
    using world_inv_entry [OF inv that] by simp
  ultimately have "world_inv w'"
    using inv up unfolding world_inv_def reg lk obj by (simp add: nm inv_intros less_Suc_eq)
  then show ?thesis by (simp only: w'_def)
qed

lemma world_inv_getOrCreate [inv_intros]: "world_inv w \<Longrightarrow> world_inv (snd (getOrCreate nm w))"
  using world_inv_create [of w nm] by (auto simp: getOrCreate_def Let_def split: option.split intro!: world_inv_retimer)

lemma world_inv_take [inv_intros]:
  assumes inv: "world_inv w" and e: "fmlookup (rooms (mgr w)) nm = Some e"
  shows "world_inv (takeEntry nm e w)"
proof -
  have e': "re_room e < nextRoom w" "room_name (roomObj w (re_room e)) = nm" using inv e by (auto simp: world_inv_def)
  have reg: "registered (takeEntry nm e w) i \<longleftrightarrow> registered w i \<and> i \<noteq> re_room e" for i
  proof (cases "room_name (roomObj w i) = nm")
    case True
    then show ?thesis using e by (auto simp: registered_def takeEntry_def)
  next
    case False
    then show ?thesis using e e' by (auto simp: registered_def takeEntry_def)
  qed
  have here: "registered w (re_room e)" using e e' by (simp add: registered_def)
  then have fresh: "re_room e \<notin> set (closing w @ stopClosed w)" using inv by (simp add: world_inv_def)
  have cl: "closing (takeEntry nm e w) = closing w @ [re_room e]" "stopClosed (takeEntry nm e w) = stopClosed w"
    "roomObj (takeEntry nm e w) = roomObj w" "nextRoom (takeEntry nm e w) = nextRoom w"
    "rooms (mgr (takeEntry nm e w)) = fmdrop nm (rooms (mgr w))"
    "stopped (mgr (takeEntry nm e w)) = stopped (mgr w)"
    by (simp_all add: takeEntry_def)
  have stops: "i \<in> set (closing w @ stopClosed w) \<or> i = re_room e \<longleftrightarrow>
      i < nextRoom w \<and> \<not> (registered w i \<and> i \<noteq> re_room e)" for i
    using inv e'(1) here unfolding world_inv_def by auto
  show ?thesis
    using inv fresh stops unfolding world_inv_def reg cl by auto
qed

lemma world_inv_reap [inv_intros]: "world_inv w \<Longrightarrow> world_inv (reap nm w)"
  by (auto simp: reap_def inv_intros split: option.split)

lemma world_inv_close:
  assumes "world_inv w" "i \<in> set (closing w)"
  shows "\<exists>w'. closeStop i w = Inr w' \<and> world_inv w'"
  using assms by (auto simp: closeStop_def world_defs)

lemma world_inv_room_arm:
  assumes inv: "world_inv w" and "enumerates iter" "event_ok (roomObj w i) ev"
  shows "\<exists>w'. room_arm iter i ev w = Inr w' \<and> world_inv w'"
proof -
  obtain r where r: "room_step iter ev (roomObj w i) = Inr r" "room_inv r"
    using room_step_ok [OF _ assms(2,3)] inv by (auto simp: world_inv_def)
  then have nm: "room_name r = room_name (roomObj w i)" by (simp add: room_step_name)
  define w1 where "w1 = w\<lparr>roomObj := (roomObj w)(i := r)\<rparr>"
  have names: "room_name (roomObj w1 j) = room_name (roomObj w j)" for j by (simp add: w1_def nm)
  have "registered w1 j = registered w j" for j unfolding registered_def names by (simp add: w1_def)
  then have "world_inv w1" using inv r(2) names unfolding world_inv_def by (simp add: w1_def)
  then show ?thesis using r(1) by (simp add: room_arm_def Let_def inv_intros flip: w1_def)
qed

text \<open>The shutdown loop, with the flag set before or after it.\<close>

definition setStopped :: "world \<Rightarrow> world" where
  "setStopped w = w\<lparr>mgr := (mgr w)\<lparr>stopped := True\<rparr>\<rparr>"

lemma setStopped_simps [simp]:
  "rooms (mgr (setStopped w)) = rooms (mgr w)" "stopped (mgr (setStopped w))"
  "timerStop t (setStopped w) = setStopped (timerStop t w)"
  "takeEntry nm e (setStopped w) = setStopped (takeEntry nm e w)"
  by (simp_all add: setStopped_def timerStop_def takeEntry_def split: option.split)

lemma shutdown_loop_setStopped: "shutdown_loop nms (setStopped w) = setStopped (shutdown_loop nms w)"
  by (induction nms w rule: shutdown_loop.induct) (simp_all split: option.split)

lemma shutdownAll_eq: "shutdownAll nms w = setStopped (shutdown_loop nms w)"
  by (simp add: shutdownAll_def shutdown_loop_setStopped flip: setStopped_def)

lemma shutdown_loop_inv: "world_inv w \<Longrightarrow> world_inv (shutdown_loop nms w)"
  by (induction nms w rule: shutdown_loop.induct) (simp_all add: world_inv_take split: option.split)

lemma shutdown_loop_rooms: "rooms (mgr (shutdown_loop nms w)) = fmdrop_set (set nms) (rooms (mgr w))"
proof (induction nms w rule: shutdown_loop.induct)
  case (2 nm nms w)
  show ?case
  proof (cases "fmlookup (rooms (mgr w)) nm")
    case None
    have "fmdrop_set (insert nm (set nms)) (rooms (mgr w)) = fmdrop_set (set nms) (rooms (mgr w))"
      by (rule fmap_ext) (auto simp: None)
    with 2 None show ?thesis by simp
  next
    case (Some e)
    have "fmdrop_set (insert nm (set nms)) (rooms (mgr w)) = fmdrop_set (set nms) (fmdrop nm (rooms (mgr w)))"
      by (rule fmap_ext) auto
    with 2 Some show ?thesis by (simp add: takeEntry_def)
  qed
qed simp

lemma shutdown_frame:
  "nextRoom (shutdown_loop nms w) = nextRoom w" "roomObj (shutdown_loop nms w) = roomObj w"
  by (induction nms w rule: shutdown_loop.induct) (simp_all add: takeEntry_def split: option.split)

lemma shutdown_all_rooms:
  assumes "set nms = fset (fmdom (rooms (mgr w)))"
  shows "rooms (mgr (shutdown_loop nms w)) = fmempty"
proof (rule fmap_ext)
  fix x
  show "fmlookup (rooms (mgr (shutdown_loop nms w))) x = fmlookup fmempty x"
    using assms by (auto simp: shutdown_loop_rooms fmdom_notD)
qed

lemma world_inv_shutdown:
  assumes "world_inv w" "set nms = fset (fmdom (rooms (mgr w)))"
  shows "world_inv (shutdownAll nms w)"
proof -
  have "world_inv (shutdown_loop nms w)" using assms(1) by (rule shutdown_loop_inv)
  moreover have "registered (setStopped v) i = registered v i" for v i
    by (simp add: registered_def) (simp add: setStopped_def)
  ultimately show ?thesis
    using shutdown_all_rooms [OF assms(2)] unfolding shutdownAll_eq world_inv_def by (simp add: setStopped_def)
qed

lemma mgr_step_ok:
  assumes "enumerates iter" "world_inv w" "mgr_event_ok w e"
  shows "\<exists>w'. mgr_step iter e w = Inr w' \<and> world_inv w'"
proof (cases e)
  case (GetRoom nm) then show ?thesis using assms by (simp add: inv_intros)
next
  case (InRoom i ev) then show ?thesis using assms world_inv_room_arm by simp
next
  case (Expire t) then show ?thesis using assms by (simp split: option.split)
next
  case (Reap nm) then show ?thesis using assms by (auto intro: inv_intros)
next
  case (CloseStop i) then show ?thesis using assms world_inv_close by simp
next
  case (Allow u t0 t1) then show ?thesis using assms by (simp add: allowUser_def Let_def split_beta)
next
  case (ShutdownAll nms) then show ?thesis using assms world_inv_shutdown by simp
qed

lemma world_inv_new [inv_intros]: "world_inv (newWorld m)" if "rooms m = fmempty"
  using that by (simp add: world_defs newWorld_def inv_intros)

context map_range
begin

lemma manager_system: "step_system (NewService opts) (mgr_step iter) mgr_event_ok world_inv"
  by unfold_locales (use mgr_step_ok enum in \<open>fastforce simp: NewService_def newManager_def Let_def inv_intros\<close>)+

lemmas manager_run = step_system.run_total [OF manager_system]

end

interpretation asc_manager: step_system "NewService opts" "mgr_step ascending" mgr_event_ok world_inv for opts
  by (rule asc.manager_system)

section \<open>Properties\<close>

text \<open>
  C14: the room manager never panics and never loses a room.  In every interleaving of calls,
  room events, timer expiries, reaps and shutdowns in which clients use rooms in order, each
  room ever created is either the one registered under its name or has its stop channel closed
  (or about to be closed) exactly once, so no stop channel is closed twice and no actor leaks.
\<close>

theorem manager_orderly_run:
  assumes "enumerates iter" and "admissible mgr_event_ok (mgr_step iter) (NewService opts) es"
  shows "\<exists>w. runE (mgr_step iter) es (NewService opts) = Inr w \<and> world_inv w"
  using map_range.manager_run [OF map_range.intro, OF assms] .

lemmas mgr_eval = NewService_def newManager_def newWorld_def newLimiterMap_def getOrCreate_def setEntry_def
  timerStop_def scheduleReap_def reap_def takeEntry_def closeStop_def room_arm_def

definition reap_race :: "string \<Rightarrow> mgr_event list" where
  "reap_race nm =
     [GetRoom nm, InRoom 0 (Connect 0 '''' 0 ''a''), InRoom 0 (Join 0 [] 0),
      GetRoom nm, InRoom 0 (Leave 0 0),
      InRoom 0 (Connect 1 '''' 0 ''b''), InRoom 0 (Join 1 [] 0),
      Expire 0, Reap nm, CloseStop 0]"

theorem manager_orderly_run_witness:
  "\<exists>w. runE (mgr_step ascending) (reap_race ''ch'' @ [InRoom 0 Stop, GetRoom ''ch'', ShutdownAll [''ch'']])
        (NewService \<lparr>RateBurst = 0, RatePerSecond = 0\<rparr>) = Inr w \<and> world_inv w"
  by (rule manager_orderly_run)
     (simp_all add: enumerates_ascending reap_race_def mgr_eval room_eval room_stop_def
        iter_single [OF enumerates_ascending] iter_empty [OF enumerates_ascending])

text \<open>
  C29: the shutdown is complete and final.  From any reachable state, \<open>shutdownAll\<close> leaves no
  channel registered, every room ever created is stopped or about to be, and no later request
  gets a room.
\<close>

theorem shutdown_complete:
  assumes "world_inv w" "set nms = fset (fmdom (rooms (mgr w)))"
  shows "(\<forall>nm. getOrCreate nm (Shutdown nms w) = (None, Shutdown nms w)) \<and>
         (\<forall>nm. ViewerCount nm (Shutdown nms w) = 0) \<and>
         set (closing (Shutdown nms w) @ stopClosed (Shutdown nms w)) = {..<nextRoom w}"
proof -
  have rooms: "rooms (mgr (shutdownAll nms w)) = fmempty" "stopped (mgr (shutdownAll nms w))"
    "nextRoom (shutdownAll nms w) = nextRoom w"
    using shutdown_all_rooms [OF assms(2)] by (simp_all add: shutdownAll_eq) (simp add: setStopped_def shutdown_frame)
  have "set (closing (shutdownAll nms w) @ stopClosed (shutdownAll nms w)) = {..<nextRoom w}"
    using world_inv_shutdown [OF assms] rooms unfolding world_inv_def by (auto simp: registered_def)
  then show ?thesis
    by (simp add: getOrCreate_def ViewerCount_def mgr_viewerCount_def Shutdown_def rooms)
qed

theorem shutdown_complete_witness:
  "getOrCreate ''b'' (Shutdown [''a''] (snd (getOrCreate ''a'' (NewService \<lparr>RateBurst = 0, RatePerSecond = 0\<rparr>))))
   = (None, Shutdown [''a''] (snd (getOrCreate ''a'' (NewService \<lparr>RateBurst = 0, RatePerSecond = 0\<rparr>))))"
proof -
  have "world_inv (NewService \<lparr>RateBurst = 0, RatePerSecond = 0\<rparr>)"
    by (simp add: NewService_def newManager_def inv_intros)
  moreover have "set [''a''] = fset (fmdom (rooms (mgr (snd (getOrCreate ''a''
      (NewService \<lparr>RateBurst = 0, RatePerSecond = 0\<rparr>))))))"
    by (simp add: mgr_eval)
  ultimately show ?thesis by (intro shutdown_complete [THEN conjunct1, rule_format] world_inv_getOrCreate)
qed

text \<open>
  A channel has one room and asking for it cancels its reaping.  While the service runs,
  \<open>getOrCreate\<close> returns the room now registered under the name with no pending timer, asking
  again returns the same room, and no other channel is affected.
\<close>

theorem getOrCreate_registers:
  assumes "world_inv w" "\<not> stopped (mgr w)"
  shows "\<exists>r w'. getOrCreate nm w = (Some r, w') \<and>
           fmlookup (rooms (mgr w')) nm = Some \<lparr>re_room = r, reapTimer = None\<rparr> \<and>
           getOrCreate nm w' = (Some r, w') \<and> room_name (roomObj w' r) = nm \<and>
           (\<forall>nm'. nm' \<noteq> nm \<longrightarrow> fmlookup (rooms (mgr w')) nm' = fmlookup (rooms (mgr w)) nm')"
proof (cases "fmlookup (rooms (mgr w)) nm")
  case None
  then show ?thesis using assms by (simp add: getOrCreate_def setEntry_def Let_def newRoom_def)
next
  case (Some e)
  obtain r t where e: "e = \<lparr>re_room = r, reapTimer = t\<rparr>" by (cases e) auto
  from world_inv_entry [OF assms(1) Some] have "room_name (roomObj w r) = nm" by (simp add: e)
  with Some assms(2) show ?thesis
    by (cases t) (simp_all add: e getOrCreate_def setEntry_def)
qed

theorem getOrCreate_registers_witness:
  "\<exists>r w'. getOrCreate ''a'' (NewService \<lparr>RateBurst = 0, RatePerSecond = 0\<rparr>) = (Some r, w') \<and>
           fmlookup (rooms (mgr w')) ''a'' = Some \<lparr>re_room = r, reapTimer = None\<rparr> \<and>
           getOrCreate ''a'' w' = (Some r, w') \<and> room_name (roomObj w' r) = ''a'' \<and>
           (\<forall>nm'. nm' \<noteq> ''a'' \<longrightarrow> fmlookup (rooms (mgr w')) nm'
              = fmlookup (rooms (mgr (NewService \<lparr>RateBurst = 0, RatePerSecond = 0\<rparr>))) nm')"
  by (rule getOrCreate_registers)
     (simp_all add: NewService_def newManager_def inv_intros, simp_all add: mgr_eval)

lemma removeClient_onEmpty: "removeClient c r = Inr (x, r') \<Longrightarrow> onEmptyCalls r' = onEmptyCalls r"
  by (auto simp: removeClient_def Let_def split_beta split: if_splits)

lemma dispatch_onEmpty: "dispatch iter m r = Inr r' \<Longrightarrow> onEmptyCalls r' = onEmptyCalls r"
proof -
  have "dispatch_loop m cs r = Inr r' \<Longrightarrow> onEmptyCalls r' = onEmptyCalls r" for cs
    by (induction m cs r rule: dispatch_loop.induct) (fastforce dest: removeClient_onEmpty split: if_splits)+
  then show "dispatch iter m r = Inr r' \<Longrightarrow> ?thesis" by (simp add: dispatch_def)
qed

lemma room_join_onEmpty: "room_join iter c ds now r = Inr r' \<Longrightarrow> onEmptyCalls r' = onEmptyCalls r"
  by (erule room_join_cases) (auto simp: publishCount_def dest!: dispatch_onEmpty split: if_splits)

text \<open>A join touches nothing but its room: no timer is cancelled.\<close>

lemma join_arm:
  assumes "mgr_step iter (InRoom i (Join c ds now)) w = Inr w'"
  shows "\<exists>r. w' = w\<lparr>roomObj := (roomObj w)(i := r)\<rparr>"
proof (cases "running (roomObj w i)")
  case True
  then show ?thesis using assms room_join_onEmpty [of iter c ds now "roomObj w i"] by (auto simp: room_arm_def Let_def)
next
  case False
  then show ?thesis using assms by (intro exI [of _ "roomObj w i"]) (simp add: room_arm_def Let_def)
qed

text \<open>
  C30: a pending reap stops an occupied room.  The timer is cancelled when a viewer asks for the
  room, not when it joins.  In any state of the service in which the reap timer of a channel's
  room is armed (a viewer that asked for the room before the last one left may still be on its
  way), let that viewer join and become registered: the timer still fires, and when its \<open>reap\<close>
  has run the room is off the map and its stop channel closed with the viewer in it, while the
  next viewer of the channel gets a different room.
\<close>

theorem reap_stops_occupied_room:
  assumes inv: "world_inv w" and reg: "fmlookup (rooms (mgr w)) nm = Some \<lparr>re_room = i, reapTimer = Some t\<rparr>"
    and timer: "map_of (armed w) t = Some nm"
    and join: "mgr_step iter (InRoom i (Join c ds now)) w = Inr w1" "c |\<in>| clients (roomObj w1 i)"
  shows "\<exists>w2. runE (mgr_step iter) [Expire t, Reap nm, CloseStop i] w1 = Inr w2 \<and>
    c |\<in>| clients (roomObj w2 i) \<and> i \<in> set (stopClosed w2) \<and> fmlookup (rooms (mgr w2)) nm = None \<and>
    (\<exists>j. fst (getOrCreate nm w2) = Some j \<and> j \<noteq> i)"
proof -
  obtain r where w1: "w1 = w\<lparr>roomObj := (roomObj w)(i := r)\<rparr>" using join_arm [OF join(1)] by blast
  have i: "i < nextRoom w" "room_name (roomObj w i) = nm" using world_inv_entry [OF inv reg] by simp_all
  then have "registered w i" using reg by (simp add: registered_def)
  then have out: "i \<notin> set (closing w)" "i \<notin> set (stopClosed w)" using inv by (auto simp: world_inv_def)
  have run: "\<not> stopped (mgr w)" using inv reg by (auto simp: world_inv_def)
  show ?thesis using reg timer out run i(1) join(2)
    by (auto simp: w1 timerStop_def reap_def takeEntry_def closeStop_def getOrCreate_def Let_def)
qed

definition before_join :: "mgr_event list" where
  "before_join = [GetRoom ''ch'', InRoom 0 (Connect 0 '''' 0 ''a''), InRoom 0 (Join 0 [] 0),
     GetRoom ''ch'', InRoom 0 (Leave 0 0), InRoom 0 (Connect 1 '''' 0 ''b'')]"

theorem reap_stops_occupied_room_witness:
  "\<exists>w1 w2. runE (mgr_step ascending) (before_join @ [InRoom 0 (Join 1 [] 0)]) (NewService \<lparr>RateBurst = 0, RatePerSecond = 0\<rparr>) = Inr w1 \<and>
     runE (mgr_step ascending) [Expire 0, Reap ''ch'', CloseStop 0] w1 = Inr w2 \<and>
     1 |\<in>| clients (roomObj w2 0) \<and> 0 \<in> set (stopClosed w2)"
proof -
  let ?s = "NewService \<lparr>RateBurst = 0, RatePerSecond = 0\<rparr>"
  note eval = before_join_def mgr_eval room_eval iter_single [OF enumerates_ascending] iter_empty [OF enumerates_ascending]
  have ok: "admissible mgr_event_ok (mgr_step ascending) ?s before_join" by (simp add: eval)
  obtain w where w: "runE (mgr_step ascending) before_join ?s = Inr w" "world_inv w"
    using manager_orderly_run [OF enumerates_ascending ok] by blast
  have "\<exists>w. runE (mgr_step ascending) before_join ?s = Inr w \<and>
      fmlookup (rooms (mgr w)) ''ch'' = Some \<lparr>re_room = 0, reapTimer = Some 0\<rparr> \<and> map_of (armed w) 0 = Some ''ch''"
    by (simp add: eval)
  with w have reg: "fmlookup (rooms (mgr w)) ''ch'' = Some \<lparr>re_room = 0, reapTimer = Some 0\<rparr>" "map_of (armed w) 0 = Some ''ch''"
    by auto
  have "\<exists>w1. runE (mgr_step ascending) (before_join @ [InRoom 0 (Join 1 [] 0)]) ?s = Inr w1 \<and> 1 |\<in>| clients (roomObj w1 0)"
    by (simp add: eval)
  then obtain w1 where r1: "runE (mgr_step ascending) (before_join @ [InRoom 0 (Join 1 [] 0)]) ?s = Inr w1"
    "1 |\<in>| clients (roomObj w1 0)" by blast
  have "bindE (mgr_step ascending (InRoom 0 (Join 1 [] 0)) w) (runE (mgr_step ascending) []) = Inr w1"
    using r1(1) w(1) by (simp only: runE_append bindE_simps runE.simps)
  then have w1: "mgr_step ascending (InRoom 0 (Join 1 [] 0)) w = Inr w1"
    by (cases "mgr_step ascending (InRoom 0 (Join 1 [] 0)) w") simp_all
  from r1(1) reap_stops_occupied_room [OF w(2) reg w1 r1(2)] show ?thesis by blast
qed

end
