(* ===== verification/Utf8.thy ===== *)
theory Utf8
  imports Prelude
begin

text \<open>
  The parts of Go's \<open>unicode/utf8\<close>, \<open>unicode\<close> and \<open>strings\<close> the sources use on byte strings:
  decoding of the first and last rune (an invalid byte is one replacement rune of width 1),
  \<open>len([]rune(s))\<close>, \<open>utf8.ValidString\<close>, \<open>unicode.IsSpace\<close> and \<open>strings.TrimSpace\<close>.
\<close>

section \<open>Decoding\<close>

abbreviation byte_of :: "byte \<Rightarrow> nat" where
  "byte_of c \<equiv> of_char c"

definition runeError :: nat where
  "runeError = 65533"

definition cont :: "byte \<Rightarrow> bool" where
  "cont c \<longleftrightarrow> 128 \<le> byte_of c \<and> byte_of c < 192"

definition between :: "nat \<Rightarrow> nat \<Rightarrow> byte \<Rightarrow> bool" where
  "between lo hi c \<longleftrightarrow> lo \<le> byte_of c \<and> byte_of c \<le> hi"

text \<open>The range of the second byte, for each first byte of a multi-byte sequence.\<close>

definition second_ok :: "byte \<Rightarrow> byte \<Rightarrow> bool" where
  "second_ok b0 b1 \<longleftrightarrow>
     (if byte_of b0 = 224 then between 160 191 b1
      else if byte_of b0 = 237 then between 128 159 b1
      else if byte_of b0 = 240 then between 144 191 b1
      else if byte_of b0 = 244 then between 128 143 b1
      else cont b1)"

text \<open>\<open>utf8.DecodeRune\<close>: the rune and its width; width 0 on the empty string.\<close>

definition decodeRune :: "bytes \<Rightarrow> nat \<times> nat" where
  "decodeRune s =
     (case s of
        [] \<Rightarrow> (runeError, 0)
      | b0 # r \<Rightarrow>
          if byte_of b0 < 128 then (byte_of b0, 1)
          else if between 194 223 b0 then
            (case r of b1 # _ \<Rightarrow>
               if cont b1 then ((byte_of b0 - 192) * 64 + (byte_of b1 - 128), 2) else (runeError, 1)
             | _ \<Rightarrow> (runeError, 1))
          else if between 224 239 b0 then
            (case r of b1 # b2 # _ \<Rightarrow>
               if second_ok b0 b1 \<and> cont b2
               then ((byte_of b0 - 224) * 4096 + (byte_of b1 - 128) * 64 + (byte_of b2 - 128), 3)
               else (runeError, 1)
             | _ \<Rightarrow> (runeError, 1))
          else if between 240 244 b0 then
            (case r of b1 # b2 # b3 # _ \<Rightarrow>
               if second_ok b0 b1 \<and> cont b2 \<and> cont b3
               then ((byte_of b0 - 240) * 262144 + (byte_of b1 - 128) * 4096 + (byte_of b2 - 128) * 64
                     + (byte_of b3 - 128), 4)
               else (runeError, 1)
             | _ \<Rightarrow> (runeError, 1))
          else (runeError, 1))"

lemma decodeRune_width: "s \<noteq> [] \<Longrightarrow> 1 \<le> snd (decodeRune s) \<and> snd (decodeRune s) \<le> length s"
  by (auto simp: decodeRune_def split: list.split)

function runeCount :: "bytes \<Rightarrow> nat" where
  "runeCount s = (if s = [] then 0 else Suc (runeCount (drop (snd (decodeRune s)) s)))"
  by auto
termination
proof (relation "measure length")
  fix s :: bytes assume "s \<noteq> []"
  with decodeRune_width [of s] show "(drop (snd (decodeRune s)) s, s) \<in> measure length" by simp
qed simp

function validString :: "bytes \<Rightarrow> bool" where
  "validString s =
     (if s = [] then True
      else if decodeRune s = (runeError, 1) then False
      else validString (drop (snd (decodeRune s)) s))"
  by auto
termination
proof (relation "measure length")
  fix s :: bytes assume "s \<noteq> []"
  with decodeRune_width [of s] show "(drop (snd (decodeRune s)) s, s) \<in> measure length" by simp
qed simp

declare runeCount.simps [simp del] validString.simps [simp del]

section \<open>White space\<close>

definition isSpace :: "nat \<Rightarrow> bool" where
  "isSpace r \<longleftrightarrow>
     r \<in> {9, 10, 11, 12, 13, 32, 133, 160, 5760, 8232, 8233, 8239, 8287, 12288} \<or>
     (8192 \<le> r \<and> r \<le> 8202)"

function trimLeftSpace :: "bytes \<Rightarrow> bytes" where
  "trimLeftSpace s =
     (if s = [] then []
      else if isSpace (fst (decodeRune s)) then trimLeftSpace (drop (snd (decodeRune s)) s)
      else s)"
  by auto
termination
proof (relation "measure length")
  fix s :: bytes assume "s \<noteq> []"
  with decodeRune_width [of s] show "(drop (snd (decodeRune s)) s, s) \<in> measure length" by simp
qed simp

declare trimLeftSpace.simps [simp del]

definition runeStart :: "byte \<Rightarrow> bool" where
  "runeStart b \<longleftrightarrow> \<not> cont b"

text \<open>
  \<open>utf8.DecodeLastRune\<close>: step back over at most three continuation bytes to a start byte; what
  is found there must end exactly at the end of the string.
\<close>

definition lastStart :: "bytes \<Rightarrow> nat" where
  "lastStart s =
     (let n = length s; starts = filter (\<lambda>i. runeStart (s ! i)) [n - 4..<n - 1]
      in if starts = [] then n - 4 else last starts)"

definition decodeLastRune :: "bytes \<Rightarrow> nat \<times> nat" where
  "decodeLastRune s =
     (if s = [] then (runeError, 0)
      else if byte_of (last s) < 128 then (byte_of (last s), 1)
      else
        (let start = lastStart s;
             (r, size) = decodeRune (drop start s)
         in if start + size \<noteq> length s then (runeError, 1) else (r, size)))"

lemma decodeLastRune_width: "s \<noteq> [] \<Longrightarrow> 1 \<le> snd (decodeLastRune s) \<and> snd (decodeLastRune s) \<le> length s"
proof -
  assume s: "s \<noteq> []"
  have "lastStart s < length s"
  proof -
    define xs where "xs = filter (\<lambda>i. runeStart (s ! i)) [length s - 4..<length s - 1]"
    have "set xs \<subseteq> {..<length s}" by (auto simp: xs_def)
    then have "xs \<noteq> [] \<Longrightarrow> last xs < length s" using last_in_set by blast
    then show ?thesis using s unfolding lastStart_def Let_def xs_def [symmetric] by simp
  qed
  then have "drop (lastStart s) s \<noteq> []" by simp
  from decodeRune_width [OF this] s show ?thesis
    by (auto simp: decodeLastRune_def Let_def split_beta)
qed

function trimRightSpace :: "bytes \<Rightarrow> bytes" where
  "trimRightSpace s =
     (if s = [] then []
      else if isSpace (fst (decodeLastRune s)) then trimRightSpace (take (length s - snd (decodeLastRune s)) s)
      else s)"
  by auto
termination
proof (relation "measure length")
  fix s :: bytes assume "s \<noteq> []"
  with decodeLastRune_width [of s]
  show "(take (length s - snd (decodeLastRune s)) s, s) \<in> measure length" by simp
qed simp

declare trimRightSpace.simps [simp del]

definition trimSpace :: "bytes \<Rightarrow> bytes" where
  "trimSpace s = trimRightSpace (trimLeftSpace s)"

section \<open>Lemmas\<close>

lemma trimRightSpace_ends:
  "trimRightSpace s = [] \<or> \<not> isSpace (fst (decodeLastRune (trimRightSpace s)))"
  by (induction s rule: trimRightSpace.induct) (metis trimRightSpace.simps)

lemma trimRightSpace_prefix: "\<exists>b. s = trimRightSpace s @ b"
proof (induction s rule: trimRightSpace.induct)
  case (1 s)
  show ?case
  proof (cases "s \<noteq> [] \<and> isSpace (fst (decodeLastRune s))")
    case True
    then have eq: "trimRightSpace s = trimRightSpace (take (length s - snd (decodeLastRune s)) s)"
      by (subst trimRightSpace.simps) simp
    from 1 True show ?thesis unfolding eq by (metis append.assoc append_take_drop_id)
  next
    case False
    then have "trimRightSpace s = s" by (subst trimRightSpace.simps) auto
    then show ?thesis by simp
  qed
qed

lemma trimLeftSpace_suffix: "\<exists>a. s = a @ trimLeftSpace s"
proof (induction s rule: trimLeftSpace.induct)
  case (1 s)
  show ?case
  proof (cases "s \<noteq> [] \<and> isSpace (fst (decodeRune s))")
    case True
    then have eq: "trimLeftSpace s = trimLeftSpace (drop (snd (decodeRune s)) s)"
      by (subst trimLeftSpace.simps) simp
    from 1 True show ?thesis unfolding eq by (metis append.assoc append_take_drop_id)
  next
    case False
    then have "trimLeftSpace s = s" by (subst trimLeftSpace.simps) auto
    then show ?thesis by simp
  qed
qed

lemma trimSpace_infix: "\<exists>a b. s = a @ trimSpace s @ b"
  by (metis trimSpace_def trimLeftSpace_suffix trimRightSpace_prefix)

lemma trimSpace_length: "length (trimSpace s) \<le> length s"
proof -
  obtain a b where "s = a @ trimSpace s @ b" using trimSpace_infix by blast
  then have "length s = length a + length (trimSpace s) + length b" by (metis add.assoc length_append)
  then show ?thesis by simp
qed

lemma runeCount_Nil [simp]: "runeCount [] = 0"
  by (simp add: runeCount.simps)

lemma runeCount_le: "runeCount s \<le> length s"
proof (induction s rule: runeCount.induct)
  case (1 s)
  show ?case
  proof (cases "s = []")
    case False
    with 1 have "runeCount (drop (snd (decodeRune s)) s) \<le> length s - snd (decodeRune s)" by simp
    with False decodeRune_width [OF False] show ?thesis by (subst runeCount.simps) (simp, linarith)
  qed simp
qed

lemma decodeRune_ascii: "byte_of c < 128 \<Longrightarrow> decodeRune (c # s) = (byte_of c, 1)"
  by (simp add: decodeRune_def)

lemma runeCount_ascii: "\<forall>c\<in>set s. byte_of c < 128 \<Longrightarrow> runeCount s = length s"
proof (induction s)
  case (Cons c s)
  then show ?case by (subst runeCount.simps) (simp add: decodeRune_ascii)
qed simp

lemma validString_ascii: "\<forall>c\<in>set s. byte_of c < 128 \<Longrightarrow> validString s"
proof (induction s)
  case (Cons c s)
  then show ?case by (subst validString.simps) (simp add: decodeRune_ascii runeError_def)
qed (simp add: validString.simps)

end
