(* ===== verification/Chat_Ws.thy ===== *)
theory Chat_Ws
  imports Chat_Manager Utf8
begin

text \<open>
  \<open>internal/chat/ws.go\<close> and \<open>internal/chat/errors.go\<close>: the life of one WebSocket connection.
  A connection is two goroutines, the reader (\<open>readLoop\<close>) and the writer (the rest of
  \<open>ServeWS\<close>), which talk to the room over its three buffered channels.  The record \<open>chatsvc\<close>
  holds the manager's world, the channels of every room and the connections; one event is one
  atomic move of one goroutine, so an event list is an interleaving.  What a frame decodes to
  (\<open>unmarshal\<close>, the \<open>Body\<close> field that \<open>json.Unmarshal\<close> finds) and whether the socket reads and
  writes succeed are choices of the environment.
\<close>

section \<open>Errors\<close>

datatype chat_error =
    ErrLoginRequired
  | ErrRateLimited
  | ErrMessageTooLong
  | ErrEmptyMessage
  | BadJson

fun error_text :: "chat_error \<Rightarrow> string" where
  "error_text ErrLoginRequired = ''must be logged in to chat''"
| "error_text ErrRateLimited = ''rate limited''"
| "error_text ErrMessageTooLong = ''message too long''"
| "error_text ErrEmptyMessage = ''empty message''"
| "error_text BadJson = ''bad json''"

definition maxMessageBytes :: nat where
  "maxMessageBytes = 4 * 1024"

definition maxMessageChars :: nat where
  "maxMessageChars = 500"

section \<open>One inbound frame\<close>

datatype verdict = Refuse chat_error | Forward inbound

text \<open>
  The body of the loop of \<open>readLoop\<close> after a successful read; the last test takes a token of
  the user's bucket.
\<close>

definition readLoop_frame ::
  "(bytes \<Rightarrow> string option) \<Rightarrow> client \<Rightarrow> bytes \<Rightarrow> time \<Rightarrow> time \<Rightarrow> world \<Rightarrow> verdict \<times> world" where
  "readLoop_frame unmarshal c data t0 t1 w =
     (if userID c = 0 then (Refuse ErrLoginRequired, w)
      else case unmarshal data of
        None \<Rightarrow> (Refuse BadJson, w)
      | Some inBody \<Rightarrow>
          (let body = trimSpace inBody in
           if body = '''' then (Refuse ErrEmptyMessage, w)
           else if maxMessageChars < runeCount body then (Refuse ErrMessageTooLong, w)
           else
             (let (ok, w1) = allowUser (userID c) t0 t1 w in
              if ok then (Forward \<lparr>in_user = username c, in_body = body\<rparr>, w1)
              else (Refuse ErrRateLimited, w1))))"

definition sendErr :: "chat_error \<Rightarrow> time \<Rightarrow> Message" where
  "sendErr e now =
     \<lparr>ID = '''', Type = KindError, User = '''', Body = error_text e, At = Some now, Count = 0\<rparr>"

section \<open>Connections\<close>

record chans =
  joinCh :: "cid list"
  leaveCh :: "cid list"
  sendCh :: "inbound list"

definition joinCap :: nat where "joinCap = 4"
definition leaveCap :: nat where "leaveCap = 4"
definition sendCap :: nat where "sendCap = 64"

datatype reader = NoReader | Reading | Sending inbound | ReaderDone
datatype writer = Joining | Writing | WriterDone
datatype closeStatus = StatusGoingAway | StatusNormalClosure | ClosedNow

record conn =
  conn_room :: rid
  reader_at :: reader
  writer_at :: writer
  errFrames :: "Message list"
  closeSent :: "closeStatus option"

record chatsvc =
  world_of :: world
  chans_of :: "rid \<Rightarrow> chans"
  conns :: "(cid, conn) fmap"

definition newChat :: "Options \<Rightarrow> chatsvc" where
  "newChat opts =
     \<lparr>world_of = NewService opts, chans_of = (\<lambda>_. \<lparr>joinCh = [], leaveCh = [], sendCh = []\<rparr>),
      conns = fmempty\<rparr>"

definition setConn :: "cid \<Rightarrow> conn \<Rightarrow> chatsvc \<Rightarrow> chatsvc" where
  "setConn k c s = s\<lparr>conns := fmupd k c (conns s)\<rparr>"

definition setChans :: "rid \<Rightarrow> chans \<Rightarrow> chatsvc \<Rightarrow> chatsvc" where
  "setChans i ch s = s\<lparr>chans_of := (chans_of s)(i := ch)\<rparr>"

definition heap_at :: "chatsvc \<Rightarrow> rid \<Rightarrow> cid \<Rightarrow> client" where
  "heap_at s i k = heap (roomObj (world_of s) i) k"

text \<open>The \<open>select\<close> with a default arm on \<open>room.leave\<close>: a full channel drops the request.\<close>

definition tryLeave :: "rid \<Rightarrow> cid \<Rightarrow> chatsvc \<Rightarrow> chatsvc" where
  "tryLeave i k s =
     (let ch = chans_of s i in
      if length (leaveCh ch) < leaveCap then setChans i (ch\<lparr>leaveCh := leaveCh ch @ [k]\<rparr>) s else s)"

section \<open>The moves of the goroutines\<close>

text \<open>\<open>ServeWS\<close> up to the registration: accept, room lookup, client object.\<close>

definition serve_open :: "iteration \<Rightarrow> cid \<Rightarrow> string \<Rightarrow> string \<Rightarrow> int \<Rightarrow> string \<Rightarrow> bool \<Rightarrow> chatsvc \<Rightarrow> panic + chatsvc" where
  "serve_open iter k channelName uname uid ak accepted s =
     (if \<not> accepted then Inr s
      else case getOrCreate channelName (world_of s) of
        (None, w) \<Rightarrow>
          Inr (setConn k \<lparr>conn_room = 0, reader_at = NoReader, writer_at = WriterDone, errFrames = [],
                          closeSent = Some StatusGoingAway\<rparr> (s\<lparr>world_of := w\<rparr>))
      | (Some i, w) \<Rightarrow>
          bindE (room_arm iter i (Connect k uname uid ak) w) (\<lambda>w1.
            Inr (setConn k \<lparr>conn_room = i, reader_at = NoReader, writer_at = Joining, errFrames = [],
                            closeSent = None\<rparr> (s\<lparr>world_of := w1\<rparr>))))"

text \<open>The registration \<open>select\<close>: it blocks while the channel is full.\<close>

definition serve_join :: "cid \<Rightarrow> conn \<Rightarrow> chatsvc \<Rightarrow> chatsvc" where
  "serve_join k c s =
     (let ch = chans_of s (conn_room c) in
      if writer_at c = Joining \<and> length (joinCh ch) < joinCap then
        setConn k (c\<lparr>reader_at := Reading, writer_at := Writing\<rparr>)
          (setChans (conn_room c) (ch\<lparr>joinCh := joinCh ch @ [k]\<rparr>) s)
      else s)"

definition serve_ctxDone :: "cid \<Rightarrow> conn \<Rightarrow> chatsvc \<Rightarrow> chatsvc" where
  "serve_ctxDone k c s =
     (if writer_at c = Joining then setConn k (c\<lparr>writer_at := WriterDone, closeSent := Some ClosedNow\<rparr>) s else s)"

text \<open>The end of \<open>ServeWS\<close>: leave without blocking, close the socket.\<close>

definition serve_finish :: "cid \<Rightarrow> conn \<Rightarrow> chatsvc \<Rightarrow> chatsvc" where
  "serve_finish k c s =
     setConn k (c\<lparr>writer_at := WriterDone, closeSent := Some StatusNormalClosure\<rparr>) (tryLeave (conn_room c) k s)"

text \<open>One round of the writer loop: take a message and write it, or finish.\<close>

definition serve_write :: "iteration \<Rightarrow> cid \<Rightarrow> conn \<Rightarrow> bool \<Rightarrow> chatsvc \<Rightarrow> panic + chatsvc" where
  "serve_write iter k c ok s =
     (if writer_at c \<noteq> Writing then Inr s
      else
        (let cl = heap_at s (conn_room c) k in
         if out cl \<noteq> [] then
           bindE (room_arm iter (conn_room c) (Recv k 1) (world_of s)) (\<lambda>w1.
             let s1 = s\<lparr>world_of := w1\<rparr> in Inr (if ok then s1 else serve_finish k c s1))
         else if out_closed cl then Inr (serve_finish k c s)
         else Inr s))"

definition read_error :: "cid \<Rightarrow> conn \<Rightarrow> chatsvc \<Rightarrow> chatsvc" where
  "read_error k c s =
     (if reader_at c \<noteq> Reading then s
      else setConn k (c\<lparr>reader_at := ReaderDone\<rparr>) (tryLeave (conn_room c) k s))"

text \<open>A frame over the read limit fails the read.\<close>

definition read_frame ::
  "(bytes \<Rightarrow> string option) \<Rightarrow> cid \<Rightarrow> conn \<Rightarrow> bytes \<Rightarrow> time \<Rightarrow> time \<Rightarrow> chatsvc \<Rightarrow> chatsvc" where
  "read_frame unmarshal k c data t0 t1 s =
     (if reader_at c \<noteq> Reading then s
      else if maxMessageBytes < length data then read_error k c s
      else
        (case readLoop_frame unmarshal (heap_at s (conn_room c) k) data t0 t1 (world_of s) of
           (Refuse e, w) \<Rightarrow> setConn k (c\<lparr>errFrames := errFrames c @ [sendErr e t1]\<rparr>) (s\<lparr>world_of := w\<rparr>)
         | (Forward m, w) \<Rightarrow> setConn k (c\<lparr>reader_at := Sending m\<rparr>) (s\<lparr>world_of := w\<rparr>)))"

definition read_send :: "cid \<Rightarrow> conn \<Rightarrow> chatsvc \<Rightarrow> chatsvc" where
  "read_send k c s =
     (case reader_at c of
        Sending m \<Rightarrow>
          (let ch = chans_of s (conn_room c) in
           if length (sendCh ch) < sendCap then
             setConn k (c\<lparr>reader_at := Reading\<rparr>) (setChans (conn_room c) (ch\<lparr>sendCh := sendCh ch @ [m]\<rparr>) s)
           else s)
      | _ \<Rightarrow> s)"

text \<open>The context of the reader ends when \<open>ServeWS\<close> returns or the request does; it ends a blocked send.\<close>

definition read_cancel :: "cid \<Rightarrow> conn \<Rightarrow> chatsvc \<Rightarrow> chatsvc" where
  "read_cancel k c s =
     (case reader_at c of Sending m \<Rightarrow> setConn k (c\<lparr>reader_at := ReaderDone\<rparr>) s | _ \<Rightarrow> s)"

text \<open>The room's \<open>select\<close>: take the head of one of the channels and run the arm.\<close>

definition pick_join :: "iteration \<Rightarrow> rid \<Rightarrow> nat list \<Rightarrow> time \<Rightarrow> chatsvc \<Rightarrow> panic + chatsvc" where
  "pick_join iter i ds now s =
     (case joinCh (chans_of s i) of
        [] \<Rightarrow> Inr s
      | k # ks \<Rightarrow>
          if running (roomObj (world_of s) i) then
            bindE (room_arm iter i (Join k ds now) (world_of s)) (\<lambda>w1.
              Inr (setChans i ((chans_of s i)\<lparr>joinCh := ks\<rparr>) (s\<lparr>world_of := w1\<rparr>)))
          else Inr s)"

definition pick_leave :: "iteration \<Rightarrow> rid \<Rightarrow> time \<Rightarrow> chatsvc \<Rightarrow> panic + chatsvc" where
  "pick_leave iter i now s =
     (case leaveCh (chans_of s i) of
        [] \<Rightarrow> Inr s
      | k # ks \<Rightarrow>
          if running (roomObj (world_of s) i) then
            bindE (room_arm iter i (Leave k now) (world_of s)) (\<lambda>w1.
              Inr (setChans i ((chans_of s i)\<lparr>leaveCh := ks\<rparr>) (s\<lparr>world_of := w1\<rparr>)))
          else Inr s)"

definition pick_send :: "iteration \<Rightarrow> rid \<Rightarrow> string \<Rightarrow> time \<Rightarrow> chatsvc \<Rightarrow> panic + chatsvc" where
  "pick_send iter i uid now s =
     (case sendCh (chans_of s i) of
        [] \<Rightarrow> Inr s
      | m # ms \<Rightarrow>
          if running (roomObj (world_of s) i) then
            bindE (room_arm iter i (Send m uid now) (world_of s)) (\<lambda>w1.
              Inr (setChans i ((chans_of s i)\<lparr>sendCh := ms\<rparr>) (s\<lparr>world_of := w1\<rparr>)))
          else Inr s)"

definition pick_stop :: "iteration \<Rightarrow> rid \<Rightarrow> chatsvc \<Rightarrow> panic + chatsvc" where
  "pick_stop iter i s =
     (if i \<in> set (stopClosed (world_of s)) then
        bindE (room_arm iter i Stop (world_of s)) (\<lambda>w1. Inr (s\<lparr>world_of := w1\<rparr>))
      else Inr s)"

datatype ws_event =
    WsOpen cid string string int string bool
  | WsJoin cid
  | WsCtxDone cid
  | WsWrite cid bool
  | WsFrame cid bytes time time
  | WsReadErr cid
  | WsSend cid
  | WsReadCancel cid
  | PickJoin rid "nat list" time
  | PickLeave rid time
  | PickSend rid string time
  | PickStop rid
  | TimerExpire tid
  | RunReap string
  | RunClose rid
  | RunShutdown "string list"

definition mgr_move :: "iteration \<Rightarrow> mgr_event \<Rightarrow> chatsvc \<Rightarrow> panic + chatsvc" where
  "mgr_move iter e s = bindE (mgr_step iter e (world_of s)) (\<lambda>w. Inr (s\<lparr>world_of := w\<rparr>))"

definition with_conn :: "(cid \<Rightarrow> conn \<Rightarrow> chatsvc \<Rightarrow> panic + chatsvc) \<Rightarrow> cid \<Rightarrow> chatsvc \<Rightarrow> panic + chatsvc" where
  "with_conn f k s = (case fmlookup (conns s) k of None \<Rightarrow> Inr s | Some c \<Rightarrow> f k c s)"

fun ws_step :: "(bytes \<Rightarrow> string option) \<Rightarrow> iteration \<Rightarrow> ws_event \<Rightarrow> chatsvc \<Rightarrow> panic + chatsvc" where
  "ws_step um iter (WsOpen k ch u uid ak ok) s =
     (if fmlookup (conns s) k = None then serve_open iter k ch u uid ak ok s else Inr s)"
| "ws_step um iter (WsJoin k) s = with_conn (\<lambda>k c s. Inr (serve_join k c s)) k s"
| "ws_step um iter (WsCtxDone k) s = with_conn (\<lambda>k c s. Inr (serve_ctxDone k c s)) k s"
| "ws_step um iter (WsWrite k ok) s = with_conn (\<lambda>k c s. serve_write iter k c ok s) k s"
| "ws_step um iter (WsFrame k data t0 t1) s = with_conn (\<lambda>k c s. Inr (read_frame um k c data t0 t1 s)) k s"
| "ws_step um iter (WsReadErr k) s = with_conn (\<lambda>k c s. Inr (read_error k c s)) k s"
| "ws_step um iter (WsSend k) s = with_conn (\<lambda>k c s. Inr (read_send k c s)) k s"
| "ws_step um iter (WsReadCancel k) s = with_conn (\<lambda>k c s. Inr (read_cancel k c s)) k s"
| "ws_step um iter (PickJoin i ds now) s = pick_join iter i ds now s"
| "ws_step um iter (PickLeave i now) s = pick_leave iter i now s"
| "ws_step um iter (PickSend i uid now) s = pick_send iter i uid now s"
| "ws_step um iter (PickStop i) s = pick_stop iter i s"
| "ws_step um iter (TimerExpire t) s = mgr_move iter (Expire t) s"
| "ws_step um iter (RunReap nm) s = mgr_move iter (Reap nm) s"
| "ws_step um iter (RunClose i) s = mgr_move iter (CloseStop i) s"
| "ws_step um iter (RunShutdown nms) s = mgr_move iter (ShutdownAll nms) s"

section \<open>Messages of a room\<close>

text \<open>A predicate on every message a room stores, queues or has handed to a writer.\<close>

definition client_msgs :: "client \<Rightarrow> Message set" where
  "client_msgs c = set (out c) \<union> set (rcvd c)"

definition room_msgs :: "room \<Rightarrow> Message set" where
  "room_msgs r = set (history r) \<union> (\<Union>k. client_msgs (heap r k))"

lemma room_msgs_upd: "room_msgs (r\<lparr>heap := (heap r)(k := c)\<rparr>) \<subseteq> room_msgs r \<union> client_msgs c"
  by (auto simp: room_msgs_def split: if_splits)

lemma client_in_room: "client_msgs (heap r k) \<subseteq> room_msgs r"
  by (auto simp: room_msgs_def)

lemma room_msgs_frame [simp]:
  "room_msgs (r\<lparr>clients := A\<rparr>) = room_msgs r" "room_msgs (r\<lparr>viewerCounts := v\<rparr>) = room_msgs r"
  "room_msgs (r\<lparr>userPresence := u\<rparr>) = room_msgs r" "room_msgs (r\<lparr>viewerCount := n\<rparr>) = room_msgs r"
  "room_msgs (r\<lparr>onEmptyCalls := k\<rparr>) = room_msgs r" "room_msgs (r\<lparr>running := b\<rparr>) = room_msgs r"
  "room_msgs (publishCount r) = room_msgs r"
  by (simp_all add: room_msgs_def publishCount_def)

lemma trySend_msgs: "trySend m c = Inr (b, c') \<Longrightarrow> client_msgs c' \<subseteq> insert m (client_msgs c)"
  by (auto simp: trySend_def client_msgs_def split: if_splits)

lemma closeOut_msgs: "closeOut c = Inr c' \<Longrightarrow> client_msgs c' = client_msgs c"
  by (auto simp: closeOut_def client_msgs_def split: if_splits)

lemma client_msgs_frame [simp]:
  "client_msgs (c\<lparr>closed := b\<rparr>) = client_msgs c" "client_msgs (writerRecv n c) = client_msgs c"
  "client_msgs (newClient u uid ak) = {}"
proof -
  have "set (take n (out c)) \<union> set (drop n (out c)) = set (out c)" by (metis append_take_drop_id set_append)
  then show "client_msgs (writerRecv n c) = client_msgs c" by (auto simp: client_msgs_def writerRecv_def)
qed (simp_all add: client_msgs_def newClient_def)

lemma removeClient_msgs:
  assumes "removeClient c r = Inr (x, r')"
  shows "room_msgs r' \<subseteq> room_msgs r"
proof (cases "client.closed (heap r c)")
  case False
  then obtain cl' where cl: "closeOut ((heap r c)\<lparr>closed := True\<rparr>) = Inr cl'"
    using assms by (cases "closeOut ((heap r c)\<lparr>closed := True\<rparr>)") (auto simp: removeClient_def Let_def)
  then have "room_msgs r' = room_msgs (r\<lparr>heap := (heap r)(c := cl')\<rparr>)"
    using assms False by (auto simp: removeClient_def Let_def split_beta room_msgs_def)
  also have "\<dots> \<subseteq> room_msgs r"
    using room_msgs_upd [of r c cl'] closeOut_msgs [OF cl] client_in_room [of r c] by auto
  finally show ?thesis .
qed (use assms in \<open>simp add: removeClient_def\<close>)

lemma dispatch_loop_msgs: "dispatch_loop m cs r = Inr r' \<Longrightarrow> room_msgs r' \<subseteq> insert m (room_msgs r)"
proof (induction cs arbitrary: r)
  case (Cons c cs)
  then obtain sent cl where t: "trySend m (heap r c) = Inr (sent, cl)" by auto
  show ?case
  proof (cases sent)
    case True
    then have "room_msgs r' \<subseteq> insert m (room_msgs (r\<lparr>heap := (heap r)(c := cl)\<rparr>))" using Cons t by simp
    then show ?thesis using room_msgs_upd [of r c cl] trySend_msgs [OF t] client_in_room [of r c] by blast
  next
    case False
    then obtain x r1 where "removeClient c r = Inr (x, r1)" "dispatch_loop m cs r1 = Inr r'"
      using Cons.prems t by auto
    then show ?thesis using Cons.IH removeClient_msgs by blast
  qed
qed auto

lemma dispatch_msgs: "dispatch iter m r = Inr r' \<Longrightarrow> room_msgs r' \<subseteq> insert m (room_msgs r)"
  unfolding dispatch_def by (rule dispatch_loop_msgs)

lemma stop_loop_msgs: "stop_loop cs r = Inr r' \<Longrightarrow> room_msgs r' \<subseteq> room_msgs r"
  by (induction cs r rule: stop_loop.induct) (auto dest!: removeClient_msgs)

lemma deliverHistory_msgs:
  "deliverHistory ms ds c = Inr (b, c') \<Longrightarrow> client_msgs c' \<subseteq> set ms \<union> client_msgs c"
proof (induction ms ds c rule: deliverHistory.induct)
  case (2 m ms ds c)
  define c1 where "c1 = writerRecv (case ds of [] \<Rightarrow> 0 | d # _ \<Rightarrow> d) c"
  obtain sent c2 where t: "trySend m c1 = Inr (sent, c2)"
    using 2(2) by (cases "trySend m c1") (auto simp: Let_def c1_def deliverHistory.simps)
  have c2: "client_msgs c2 \<subseteq> insert m (client_msgs c)" using trySend_msgs [OF t] by (simp add: c1_def)
  show ?case
  proof (cases sent)
    case True
    then have "deliverHistory ms (tl ds) c2 = Inr (b, c')" using 2(2) t by (auto simp: Let_def c1_def deliverHistory.simps)
    from 2(1) [OF c1_def True this] c2 show ?thesis by auto
  next
    case False
    then show ?thesis using 2(2) t c2 by (auto simp: Let_def c1_def deliverHistory.simps)
  qed
qed auto

text \<open>The user messages among them; only the send arm adds any.\<close>

definition user_msgs :: "room \<Rightarrow> Message set" where
  "user_msgs r = {m \<in> room_msgs r. Type m = KindMessage}"

fun sent_by :: "room_event \<Rightarrow> Message set" where
  "sent_by (Send msg uid now) = {chatMessage msg uid now}"
| "sent_by _ = {}"

lemma user_msgs_cong: "room_msgs r' \<subseteq> insert m (room_msgs r) \<Longrightarrow> Type m \<noteq> KindMessage \<Longrightarrow> user_msgs r' \<subseteq> user_msgs r"
  by (auto simp: user_msgs_def)

lemma user_msgs_mono: "room_msgs r' \<subseteq> room_msgs r \<Longrightarrow> user_msgs r' \<subseteq> user_msgs r"
  by (auto simp: user_msgs_def)

lemma dispatch_user_msgs:
  "dispatch iter m r = Inr r' \<Longrightarrow> Type m \<noteq> KindMessage \<Longrightarrow> user_msgs r' \<subseteq> user_msgs r"
  using dispatch_msgs user_msgs_cong by blast

lemma user_msgs_publish [simp]: "user_msgs (publishCount r) = user_msgs r" "user_msgs (r\<lparr>onEmptyCalls := n\<rparr>) = user_msgs r"
  by (simp_all add: user_msgs_def)

lemma maybe_dispatch_user_msgs:
  "(if b then dispatch iter m r else Inr r) = Inr r' \<Longrightarrow> Type m \<noteq> KindMessage \<Longrightarrow> user_msgs r' \<subseteq> user_msgs r"
  using dispatch_user_msgs [of iter m r r'] by (auto split: if_splits)

lemma leave_user_msgs: "room_leave iter c now r = Inr r' \<Longrightarrow> user_msgs r' \<subseteq> user_msgs r"
proof (erule room_leave_cases)
  fix wl vc r1 r2 r3
  assume r1: "removeClient c r = Inr ((wl, vc), r1)"
    and r2: "(if wl then dispatch iter (systemMessage (username (heap r1 c) @ '' left'') now) r1 else Inr r1) = Inr r2"
    and r3: "(if vc then dispatch iter (viewerMessage (publishCount r2)) (publishCount r2) else Inr r2) = Inr r3"
    and r': "r' = (if clients r3 = {||} \<and> hasOnEmpty r3 then r3\<lparr>onEmptyCalls := onEmptyCalls r3 + 1\<rparr> else r3)"
  have "user_msgs r1 \<subseteq> user_msgs r" using removeClient_msgs [OF r1] by (rule user_msgs_mono)
  moreover have "user_msgs r2 \<subseteq> user_msgs r1"
    using r2 by (rule maybe_dispatch_user_msgs) (simp add: systemMessage_def)
  moreover have "user_msgs r3 \<subseteq> user_msgs r2"
    using r3 dispatch_user_msgs [of iter _ "publishCount r2" r3] by (auto simp: viewerMessage_def split: if_splits)
  ultimately show "user_msgs r' \<subseteq> user_msgs r" using r' by auto
qed

lemma join_user_msgs: "room_join iter c ds now r = Inr r' \<Longrightarrow> user_msgs r' \<subseteq> user_msgs r"
proof (erule room_join_cases)
  fix cl cl'
  assume d: "deliverHistory (history r) ds (heap r c) = Inr (True, cl)" "closeOut cl = Inr cl'"
    and r': "r' = r\<lparr>heap := (heap r)(c := cl')\<rparr>"
  have "client_msgs cl' \<subseteq> room_msgs r"
    using deliverHistory_msgs [OF d(1)] closeOut_msgs [OF d(2)] by (auto simp: room_msgs_def)
  then show "user_msgs r' \<subseteq> user_msgs r" using room_msgs_upd [of r c cl'] r' by (intro user_msgs_mono) auto
next
  fix cl v u fp vc r1 r2
  assume d: "deliverHistory (history r) ds (heap r c) = Inr (False, cl)"
    and r1: "r1 = r\<lparr>heap := (heap r)(c := cl), clients := finsert c (clients r), viewerCounts := v, userPresence := u\<rparr>"
    and r2: "(if fp then dispatch iter (systemMessage (username cl @ '' joined'') now) r1 else Inr r1) = Inr r2"
    and r3: "(if vc then dispatch iter (viewerMessage (publishCount r2)) (publishCount r2)
        else bindE (trySend (viewerMessage r2) (heap r2 c)) (\<lambda>(_, cl2). Inr (r2\<lparr>heap := (heap r2)(c := cl2)\<rparr>)))
       = Inr r'"
  have "client_msgs cl \<subseteq> room_msgs r" using deliverHistory_msgs [OF d] by (auto simp: room_msgs_def)
  then have "user_msgs r1 \<subseteq> user_msgs r" using room_msgs_upd [of r c cl] r1 by (intro user_msgs_mono) auto
  moreover have "user_msgs r2 \<subseteq> user_msgs r1"
    using r2 by (rule maybe_dispatch_user_msgs) (simp add: systemMessage_def)
  moreover have "user_msgs r' \<subseteq> user_msgs r2"
  proof (cases vc)
    case True
    then show ?thesis using r3 dispatch_user_msgs [of iter _ "publishCount r2" r'] by (simp add: viewerMessage_def)
  next
    case False
    then obtain b cl2 where t: "trySend (viewerMessage r2) (heap r2 c) = Inr (b, cl2)"
      and r': "r' = r2\<lparr>heap := (heap r2)(c := cl2)\<rparr>" using r3 by auto
    have "room_msgs r' \<subseteq> insert (viewerMessage r2) (room_msgs r2)"
      using trySend_msgs [OF t] room_msgs_upd [of r2 c cl2] client_in_room [of r2 c] r' by blast
    then show ?thesis by (rule user_msgs_cong) (simp add: viewerMessage_def)
  qed
  ultimately show "user_msgs r' \<subseteq> user_msgs r" by blast
qed

lemma room_msgs_heap_le: "client_msgs c \<subseteq> room_msgs r \<Longrightarrow> user_msgs (r\<lparr>heap := (heap r)(k := c)\<rparr>) \<subseteq> user_msgs r"
  using room_msgs_upd [of r k c] by (intro user_msgs_mono) auto

lemma step_user_msgs: "room_step iter ev r = Inr r' \<Longrightarrow> user_msgs r' \<subseteq> user_msgs r \<union> sent_by ev"
proof (cases ev)
  case (Send msg uid now)
  define m where "m = chatMessage msg uid now"
  have "room_msgs (appendHistory m r) \<subseteq> insert m (room_msgs r)"
    using set_drop_subset [of 1 "history r"] by (auto simp: room_msgs_def appendHistory_def Let_def drop_Suc)
  moreover assume "room_step iter ev r = Inr r'"
  ultimately have "room_msgs r' \<subseteq> insert m (room_msgs r)"
    using dispatch_msgs [of iter m "appendHistory m r" r'] by (auto simp: Send room_send_def m_def Let_def split: if_splits)
  then show ?thesis by (auto simp: user_msgs_def Send m_def)
next
  case Stop
  moreover assume "room_step iter ev r = Inr r'"
  ultimately show ?thesis
    using stop_loop_msgs by (fastforce simp: room_stop_def user_msgs_def split: if_splits)
next
  case (Leave c now)
  moreover assume "room_step iter ev r = Inr r'"
  ultimately show ?thesis using leave_user_msgs by (auto split: if_splits)
next
  case (Join c ds now)
  moreover assume "room_step iter ev r = Inr r'"
  ultimately show ?thesis using join_user_msgs by (auto split: if_splits)
next
  case (Connect c u uid ak)
  moreover assume "room_step iter ev r = Inr r'"
  ultimately show ?thesis using room_msgs_heap_le [of "newClient u uid ak" r c] by auto
next
  case (Recv c n)
  moreover assume "room_step iter ev r = Inr r'"
  ultimately show ?thesis using room_msgs_heap_le [of "writerRecv n (heap r c)" r c] client_in_room [of r c] by auto
qed

section \<open>Identity of clients\<close>

definition who :: "room \<Rightarrow> cid \<Rightarrow> string \<times> int" where
  "who r k = (username (heap r k), userID (heap r k))"

abbreviation ident :: "client \<Rightarrow> string \<times> int" where
  "ident c \<equiv> (username c, userID c)"

lemma who_upd [simp]: "ident c = who r k \<Longrightarrow> who (r\<lparr>heap := (heap r)(k := c)\<rparr>) = who r"
  by (auto simp: who_def fun_eq_iff)

lemma who_frame [simp]:
  "who (r\<lparr>clients := A\<rparr>) = who r" "who (r\<lparr>viewerCounts := v\<rparr>) = who r"
  "who (r\<lparr>userPresence := u\<rparr>) = who r" "who (r\<lparr>viewerCount := n\<rparr>) = who r"
  "who (r\<lparr>onEmptyCalls := k\<rparr>) = who r" "who (r\<lparr>running := b\<rparr>) = who r"
  "who (publishCount r) = who r" "who (appendHistory m r) = who r"
  by (simp_all add: who_def publishCount_def appendHistory_def Let_def fun_eq_iff)

lemma trySend_ident: "trySend m c = Inr (b, c') \<Longrightarrow> ident c' = ident c"
  by (auto simp: trySend_def split: if_splits)

lemma closeOut_ident: "closeOut c = Inr c' \<Longrightarrow> ident c' = ident c"
  by (auto simp: closeOut_def split: if_splits)

lemma removeClient_who: "removeClient c r = Inr (x, r') \<Longrightarrow> who r' = who r"
proof (cases "client.closed (heap r c)")
  case False
  moreover assume a: "removeClient c r = Inr (x, r')"
  ultimately obtain cl' where cl: "closeOut ((heap r c)\<lparr>closed := True\<rparr>) = Inr cl'"
    by (cases "closeOut ((heap r c)\<lparr>closed := True\<rparr>)") (auto simp: removeClient_def Let_def)
  then have "who r' = who (r\<lparr>heap := (heap r)(c := cl')\<rparr>)"
    using a False by (auto simp: removeClient_def Let_def split_beta who_def fun_eq_iff)
  then show ?thesis using closeOut_ident [OF cl] by (simp add: who_def fun_eq_iff)
qed (simp add: removeClient_def)

lemma dispatch_loop_who: "dispatch_loop m cs r = Inr r' \<Longrightarrow> who r' = who r"
proof (induction cs arbitrary: r)
  case (Cons c cs)
  then obtain sent cl where t: "trySend m (heap r c) = Inr (sent, cl)" by auto
  show ?case
  proof (cases sent)
    case True
    then have "who r' = who (r\<lparr>heap := (heap r)(c := cl)\<rparr>)" using Cons t by simp
    then show ?thesis using trySend_ident [OF t] by (simp add: who_def fun_eq_iff)
  next
    case False
    then obtain x r1 where "removeClient c r = Inr (x, r1)" "dispatch_loop m cs r1 = Inr r'"
      using Cons.prems t by auto
    then show ?thesis using Cons.IH removeClient_who by simp
  qed
qed simp

lemma dispatch_who: "dispatch iter m r = Inr r' \<Longrightarrow> who r' = who r"
  unfolding dispatch_def by (rule dispatch_loop_who)

lemma stop_loop_who: "stop_loop cs r = Inr r' \<Longrightarrow> who r' = who r"
  by (induction cs r rule: stop_loop.induct) (auto dest!: removeClient_who)

lemma deliverHistory_ident: "deliverHistory ms ds c = Inr (b, c') \<Longrightarrow> ident c' = ident c"
proof (induction ms ds c rule: deliverHistory.induct)
  case (2 m ms ds c)
  define c1 where "c1 = writerRecv (case ds of [] \<Rightarrow> 0 | d # _ \<Rightarrow> d) c"
  obtain sent c2 where t: "trySend m c1 = Inr (sent, c2)"
    using 2(2) by (cases "trySend m c1") (auto simp: Let_def c1_def deliverHistory.simps)
  have c2: "ident c2 = ident c" using trySend_ident [OF t] by (simp add: c1_def writerRecv_def)
  show ?case
  proof (cases sent)
    case True
    then have "deliverHistory ms (tl ds) c2 = Inr (b, c')" using 2(2) t by (auto simp: Let_def c1_def deliverHistory.simps)
    from 2(1) [OF c1_def True this] c2 show ?thesis by auto
  next
    case False
    then show ?thesis using 2(2) t c2 by (auto simp: Let_def c1_def deliverHistory.simps)
  qed
qed simp

lemma maybe_dispatch_who: "(if b then dispatch iter m r else Inr r) = Inr r' \<Longrightarrow> who r' = who r"
  by (auto dest: dispatch_who split: if_splits)

lemma leave_who: "room_leave iter c now r = Inr r' \<Longrightarrow> who r' = who r"
  by (erule room_leave_cases) (auto dest!: removeClient_who dispatch_who split: if_splits)

lemma who_heap: "who (r\<lparr>heap := H\<rparr>) k = ident (H k)"
  by (simp add: who_def)

lemma join_who: "room_join iter c ds now r = Inr r' \<Longrightarrow> who r' = who r"
proof (erule room_join_cases)
  fix cl cl'
  assume "deliverHistory (history r) ds (heap r c) = Inr (True, cl)" "closeOut cl = Inr cl'"
    and "r' = r\<lparr>heap := (heap r)(c := cl')\<rparr>"
  then show "who r' = who r" using deliverHistory_ident closeOut_ident by (fastforce simp: who_def)
next
  fix cl v u fp vc r1 r2
  assume d: "deliverHistory (history r) ds (heap r c) = Inr (False, cl)"
    and r1: "r1 = r\<lparr>heap := (heap r)(c := cl), clients := finsert c (clients r), viewerCounts := v, userPresence := u\<rparr>"
    and r2: "(if fp then dispatch iter (systemMessage (username cl @ '' joined'') now) r1 else Inr r1) = Inr r2"
    and r3: "(if vc then dispatch iter (viewerMessage (publishCount r2)) (publishCount r2)
        else bindE (trySend (viewerMessage r2) (heap r2 c)) (\<lambda>(_, cl2). Inr (r2\<lparr>heap := (heap r2)(c := cl2)\<rparr>)))
       = Inr r'"
  have "who r1 = who r" using deliverHistory_ident [OF d] r1 by (simp add: who_def fun_eq_iff)
  moreover have "who r2 = who r1" using r2 by (rule maybe_dispatch_who)
  moreover have "who r' = who r2"
  proof (cases vc)
    case True
    then show ?thesis using r3 dispatch_who [of iter _ "publishCount r2" r'] by simp
  next
    case False
    then show ?thesis using r3 trySend_ident by (fastforce simp: who_def)
  qed
  ultimately show "who r' = who r" by simp
qed

lemma step_who:
  assumes "room_step iter ev r = Inr r'"
  shows "who r' k = who r k \<or> (\<exists>u uid ak. ev = Connect k u uid ak \<and> who r' k = (u, uid))"
proof (cases ev)
  case (Connect c u uid ak)
  then show ?thesis using assms by (auto simp: who_def newClient_def)
next
  case (Recv c n)
  then show ?thesis using assms by (auto simp: who_def writerRecv_def)
next
  case (Join c ds now)
  then show ?thesis using assms join_who by (auto split: if_splits)
next
  case (Leave c now)
  then show ?thesis using assms leave_who by (auto split: if_splits)
next
  case (Send msg uid now)
  then show ?thesis using assms dispatch_who [of iter _ "appendHistory (chatMessage msg uid now) r" r']
    by (auto simp: room_send_def Let_def split: if_splits)
next
  case Stop
  then show ?thesis using assms stop_loop_who by (fastforce simp: room_stop_def split: if_splits)
qed

end
