(* ===== verification/Chat_Messages.thy ===== *)
theory Chat_Messages
  imports Chat_Ws
begin

text \<open>
  Properties of the whole chat service over every interleaving of its goroutines: what can
  ever reach a viewer as a chat message, and what a connection gets when its room goes away.
\<close>

section \<open>Valid messages\<close>

definition good_body :: "string \<Rightarrow> bool" where
  "good_body b \<longleftrightarrow> b \<noteq> '''' \<and> runeCount b \<le> 500 \<and> (\<exists>raw. b = trimSpace raw)"

definition good_inbound :: "(string \<Rightarrow> bool) \<Rightarrow> inbound \<Rightarrow> bool" where
  "good_inbound P m \<longleftrightarrow> P (in_user m) \<and> good_body (in_body m)"

definition good_msg :: "(string \<Rightarrow> bool) \<Rightarrow> Message \<Rightarrow> bool" where
  "good_msg P m \<longleftrightarrow> P (User m) \<and> good_body (Body m)"

definition good_room :: "(string \<Rightarrow> bool) \<Rightarrow> room \<Rightarrow> bool" where
  "good_room P r \<longleftrightarrow>
     (\<forall>m\<in>user_msgs r. good_msg P m) \<and> (\<forall>k. snd (who r k) \<noteq> 0 \<longrightarrow> P (fst (who r k)))"

definition good_world :: "(string \<Rightarrow> bool) \<Rightarrow> world \<Rightarrow> bool" where
  "good_world P w \<longleftrightarrow> (\<forall>i. good_room P (roomObj w i))"

definition good_chat :: "(string \<Rightarrow> bool) \<Rightarrow> chatsvc \<Rightarrow> bool" where
  "good_chat P s \<longleftrightarrow>
     good_world P (world_of s) \<and>
     (\<forall>i. \<forall>m\<in>set (sendCh (chans_of s i)). good_inbound P m) \<and>
     (\<forall>k c m. fmlookup (conns s) k = Some c \<longrightarrow> reader_at c = Sending m \<longrightarrow> good_inbound P m)"

fun open_ok :: "(string \<Rightarrow> bool) \<Rightarrow> ws_event \<Rightarrow> bool" where
  "open_ok P (WsOpen k ch u uid ak ok) = (uid \<noteq> 0 \<longrightarrow> P u)"
| "open_ok P _ = True"

section \<open>Rooms and the manager\<close>

lemma good_room_new [inv_intros]: "good_room P (newRoom nm b)"
  by (auto simp: good_room_def user_msgs_def room_msgs_def client_msgs_def newRoom_def newClient_def who_def)

lemma good_room_step:
  assumes "good_room P r" "room_step iter ev r = Inr r'"
    and "\<And>m. m \<in> sent_by ev \<Longrightarrow> good_msg P m"
    and "\<And>k u uid ak. ev = Connect k u uid ak \<Longrightarrow> uid \<noteq> 0 \<Longrightarrow> P u"
  shows "good_room P r'"
proof -
  have "good_msg P m" if "m \<in> user_msgs r'" for m
    using that step_user_msgs [OF assms(2)] assms(1,3) by (auto simp: good_room_def)
  moreover have "P (fst (who r' k))" if "snd (who r' k) \<noteq> 0" for k
    using step_who [OF assms(2), of k] that assms(1,4) by (auto simp: good_room_def)
  ultimately show ?thesis by (simp add: good_room_def)
qed

lemma roomObj_frame [simp]:
  "roomObj (setEntry nm e w) = roomObj w" "roomObj (scheduleReap nm w) = roomObj w"
  "roomObj (takeEntry nm e w) = roomObj w" "roomObj (reap nm w) = roomObj w"
  "roomObj (snd (allowUser u t0 t1 w)) = roomObj w" "roomObj (shutdownAll nms w) = roomObj w"
  by (simp_all add: setEntry_def scheduleReap_def takeEntry_def reap_def allowUser_def Let_def split_beta
      shutdownAll_eq setStopped_def shutdown_frame split: option.split)

lemma good_world_get [inv_intros]: "good_world P w \<Longrightarrow> good_world P (snd (getOrCreate nm w))"
  by (auto simp: good_world_def getOrCreate_def Let_def inv_intros split: option.split)

lemma good_world_arm:
  assumes "good_world P w" "room_arm iter i ev w = Inr w'"
    and "\<And>m. m \<in> sent_by ev \<Longrightarrow> good_msg P m"
    and "\<And>k u uid ak. ev = Connect k u uid ak \<Longrightarrow> uid \<noteq> 0 \<Longrightarrow> P u"
  shows "good_world P w'"
proof -
  obtain r where r: "room_step iter ev (roomObj w i) = Inr r" "roomObj w' = (roomObj w)(i := r)"
    using assms(2) by (auto simp: room_arm_def Let_def split: if_splits)
  have "good_room P r" by (rule good_room_step [OF _ r(1) assms(3,4)]) (use assms(1) in \<open>simp add: good_world_def\<close>)
  then show ?thesis using assms(1) by (simp add: good_world_def r(2))
qed

lemma good_world_mgr:
  assumes "good_world P w" "mgr_step iter e w = Inr w'" "\<forall>i ev. e \<noteq> InRoom i ev"
  shows "good_world P w'"
  using assms by (cases e) (auto simp: good_world_def closeStop_def inv_intros getOrCreate_def Let_def
      split: option.splits if_splits)

section \<open>The moves\<close>

lemma good_chat_frame:
  "good_chat P s \<Longrightarrow> good_world P w \<Longrightarrow> good_chat P (s\<lparr>world_of := w\<rparr>)"
  by (simp add: good_chat_def)

lemma good_chat_setConn:
  "good_chat P s \<Longrightarrow> (\<And>m. reader_at c = Sending m \<Longrightarrow> good_inbound P m) \<Longrightarrow> good_chat P (setConn k c s)"
  by (auto simp: good_chat_def setConn_def)

lemma good_chat_setChans:
  "good_chat P s \<Longrightarrow> (\<And>m. m \<in> set (sendCh ch) \<Longrightarrow> good_inbound P m) \<Longrightarrow> good_chat P (setChans i ch s)"
  by (auto simp: good_chat_def setChans_def)

lemma good_chat_tryLeave [inv_intros]: "good_chat P s \<Longrightarrow> good_chat P (tryLeave i k s)"
  by (auto simp: tryLeave_def Let_def good_chat_def setChans_def)

lemma good_chat_sending: "good_chat P s \<Longrightarrow> fmlookup (conns s) k = Some c \<Longrightarrow> reader_at c = Sending m \<Longrightarrow> good_inbound P m"
  by (auto simp: good_chat_def)

lemma good_chat_queue: "good_chat P s \<Longrightarrow> m \<in> set (sendCh (chans_of s i)) \<Longrightarrow> good_inbound P m"
  by (auto simp: good_chat_def)

lemma frame_world: "roomObj (snd (readLoop_frame um c data t0 t1 w)) = roomObj w"
  by (auto simp: readLoop_frame_def Let_def split_beta split: option.split)

lemma frame_forward:
  assumes "fst (readLoop_frame um c data t0 t1 w) = Forward m" "userID c \<noteq> 0 \<longrightarrow> P (username c)"
  shows "good_inbound P m"
  using assms by (auto simp: readLoop_frame_def Let_def split_beta good_inbound_def good_body_def
      maxMessageChars_def split: option.splits if_splits)

lemma good_chat_frame_move:
  assumes "good_chat P s" "fmlookup (conns s) k = Some c"
  shows "good_chat P (read_frame um k c data t0 t1 s)"
proof -
  obtain v w where vw: "readLoop_frame um (heap_at s (conn_room c) k) data t0 t1 (world_of s) = (v, w)" by fastforce
  then have w: "good_world P w"
    using frame_world [of um "heap_at s (conn_room c) k" data t0 t1 "world_of s"] assms(1)
    by (simp add: good_chat_def good_world_def)
  have "good_inbound P m" if "v = Forward m" for m
  proof (rule frame_forward)
    show "fst (readLoop_frame um (heap_at s (conn_room c) k) data t0 t1 (world_of s)) = Forward m"
      using vw that by simp
    show "userID (heap_at s (conn_room c) k) \<noteq> 0 \<longrightarrow> P (username (heap_at s (conn_room c) k))"
      using assms(1) by (auto simp: good_chat_def good_world_def good_room_def who_def heap_at_def)
  qed
  with w vw assms show ?thesis
    by (auto simp: read_frame_def read_error_def inv_intros split: verdict.split
        intro!: good_chat_setConn good_chat_frame dest: good_chat_sending)
qed

lemma good_chat_room_arm:
  assumes "good_chat P s" "room_arm iter i ev (world_of s) = Inr w"
    and "\<And>m. m \<in> sent_by ev \<Longrightarrow> good_msg P m"
    and "\<And>k u uid ak. ev = Connect k u uid ak \<Longrightarrow> uid \<noteq> 0 \<Longrightarrow> P u"
  shows "good_chat P (s\<lparr>world_of := w\<rparr>)"
proof (rule good_chat_frame [OF assms(1)])
  show "good_world P w"
    by (rule good_world_arm [OF _ assms(2-4)]) (use assms(1) in \<open>simp_all add: good_chat_def\<close>)
qed

lemma good_chat_open:
  assumes "good_chat P s" "serve_open iter k ch u uid ak ok s = Inr s'" "uid \<noteq> 0 \<longrightarrow> P u"
  shows "good_chat P s'"
proof (cases ok)
  case True
  obtain ri w where g: "getOrCreate ch (world_of s) = (ri, w)" by fastforce
  have w: "good_chat P (s\<lparr>world_of := w\<rparr>)"
    using assms(1) good_world_get [of P "world_of s" ch] g by (simp add: good_chat_def)
  show ?thesis
  proof (cases ri)
    case None
    then show ?thesis using assms(2) True g w by (auto simp: serve_open_def intro!: good_chat_setConn)
  next
    case (Some i)
    then obtain w1 where w1: "room_arm iter i (Connect k u uid ak) w = Inr w1"
      and s': "s' = setConn k \<lparr>conn_room = i, reader_at = NoReader, writer_at = Joining, errFrames = [],
                            closeSent = None\<rparr> (s\<lparr>world_of := w1\<rparr>)"
      using assms(2) True g by (auto simp: serve_open_def)
    have "good_chat P ((s\<lparr>world_of := w\<rparr>)\<lparr>world_of := w1\<rparr>)"
      by (rule good_chat_room_arm [OF w]) (use w1 assms(3) in auto)
    then show ?thesis unfolding s' by (intro good_chat_setConn) simp_all
  qed
qed (use assms in \<open>simp add: serve_open_def\<close>)

lemma good_chat_finish:
  "good_chat P s \<Longrightarrow> fmlookup (conns s) k = Some c \<Longrightarrow> good_chat P (serve_finish k c s)"
  unfolding serve_finish_def
  by (rule good_chat_setConn) (auto intro: inv_intros dest: good_chat_sending)

lemma good_chat_write:
  assumes "good_chat P s" "fmlookup (conns s) k = Some c" "serve_write iter k c ok s = Inr s'"
  shows "good_chat P s'"
proof (cases "writer_at c = Writing \<and> out (heap_at s (conn_room c) k) \<noteq> []")
  case True
  then obtain w where w: "room_arm iter (conn_room c) (Recv k 1) (world_of s) = Inr w"
    and s': "s' = (if ok then s\<lparr>world_of := w\<rparr> else serve_finish k c (s\<lparr>world_of := w\<rparr>))"
    using assms(3) by (auto simp: serve_write_def Let_def)
  have "good_chat P (s\<lparr>world_of := w\<rparr>)" by (rule good_chat_room_arm [OF assms(1) w]) auto
  then show ?thesis using s' assms(2) by (auto intro: good_chat_finish)
next
  case False
  then show ?thesis using assms by (auto simp: serve_write_def Let_def split: if_splits intro: good_chat_finish)
qed

lemma good_chat_pick:
  assumes "good_chat P s" "room_arm iter i ev (world_of s) = Inr w"
    and "\<And>m. m \<in> sent_by ev \<Longrightarrow> good_msg P m" "\<forall>k u uid ak. ev \<noteq> Connect k u uid ak"
    and "set (sendCh ch) \<subseteq> set (sendCh (chans_of s i))"
  shows "good_chat P (setChans i ch (s\<lparr>world_of := w\<rparr>))"
proof (rule good_chat_setChans)
  show "good_chat P (s\<lparr>world_of := w\<rparr>)" by (rule good_chat_room_arm [OF assms(1-3)]) (use assms(4) in auto)
  show "good_inbound P m" if "m \<in> set (sendCh ch)" for m
    using that assms(5) good_chat_queue [OF assms(1)] by blast
qed

lemma good_chat_pick_send:
  assumes "good_chat P s" "pick_send iter i uid now s = Inr s'"
  shows "good_chat P s'"
proof (cases "sendCh (chans_of s i)")
  case (Cons m ms)
  then have "good_inbound P m" using good_chat_queue [OF assms(1), of m i] by simp
  then have "good_msg P (chatMessage m uid now)" by (simp add: good_inbound_def good_msg_def chatMessage_def)
  then show ?thesis using assms Cons
    by (auto simp: pick_send_def split: if_splits intro!: good_chat_pick)
qed (use assms in \<open>simp add: pick_send_def\<close>)

lemma good_chat_mgr:
  assumes "good_chat P s" "mgr_move iter e s = Inr s'" "\<forall>i ev. e \<noteq> InRoom i ev"
  shows "good_chat P s'"
proof -
  obtain w where w: "mgr_step iter e (world_of s) = Inr w" "s' = s\<lparr>world_of := w\<rparr>"
    using assms(2) by (auto simp: mgr_move_def)
  have "good_world P w" by (rule good_world_mgr [OF _ w(1) assms(3)]) (use assms(1) in \<open>simp add: good_chat_def\<close>)
  then show ?thesis unfolding w(2) by (rule good_chat_frame [OF assms(1)])
qed

lemma good_chat_step:
  assumes "good_chat P s" "open_ok P e" "ws_step um iter e s = Inr s'"
  shows "good_chat P s'"
proof (cases e)
  case (WsOpen k ch u uid ak ok)
  then show ?thesis using assms good_chat_open by (auto split: if_splits)
next
  case (WsJoin k)
  then show ?thesis using assms
    by (auto simp: with_conn_def serve_join_def Let_def split: option.splits if_splits
        intro!: good_chat_setConn good_chat_setChans dest: good_chat_queue)
next
  case (WsCtxDone k)
  then show ?thesis using assms
    by (auto simp: with_conn_def serve_ctxDone_def split: option.splits if_splits
        intro!: good_chat_setConn dest: good_chat_sending)
next
  case (WsWrite k ok)
  then show ?thesis using assms good_chat_write by (auto simp: with_conn_def split: option.splits)
next
  case (WsFrame k data t0 t1)
  then show ?thesis using assms good_chat_frame_move by (auto simp: with_conn_def split: option.splits)
next
  case (WsReadErr k)
  then show ?thesis using assms
    by (auto simp: with_conn_def read_error_def split: option.splits if_splits
        intro!: good_chat_setConn inv_intros)
next
  case (WsSend k)
  then show ?thesis using assms
    by (auto simp: with_conn_def read_send_def Let_def split: option.splits if_splits reader.splits
        intro!: good_chat_setConn good_chat_setChans dest: good_chat_sending good_chat_queue)
next
  case (WsReadCancel k)
  then show ?thesis using assms
    by (auto simp: with_conn_def read_cancel_def split: option.splits reader.splits intro!: good_chat_setConn)
next
  case (PickJoin i ds now)
  then show ?thesis using assms
    by (auto simp: pick_join_def split: list.splits if_splits intro!: good_chat_pick)
next
  case (PickLeave i now)
  then show ?thesis using assms
    by (auto simp: pick_leave_def split: list.splits if_splits intro!: good_chat_pick)
next
  case (PickSend i uid now)
  then show ?thesis using assms good_chat_pick_send by simp
next
  case (PickStop i)
  then show ?thesis using assms
    by (auto simp: pick_stop_def split: if_splits intro!: good_chat_room_arm)
next
  case (TimerExpire t)
  then show ?thesis using assms good_chat_mgr [OF assms(1), of iter "Expire t"] by simp
next
  case (RunReap nm)
  then show ?thesis using assms good_chat_mgr [OF assms(1), of iter "Reap nm"] by simp
next
  case (RunClose i)
  then show ?thesis using assms good_chat_mgr [OF assms(1), of iter "CloseStop i"] by simp
next
  case (RunShutdown nms)
  then show ?thesis using assms good_chat_mgr [OF assms(1), of iter "ShutdownAll nms"] by simp
qed

text \<open>
  C6: nothing but valid messages of authenticated users ever reaches a chat.  Whatever the
  interleaving of connections, rooms, timers and shutdown and whatever clients send, every
  chat message a room stores, queues or delivers is attributed to a user that opened a
  connection with a non-zero user id, is not empty, is trimmed, and has at most 500 runes.
\<close>

theorem chat_messages_valid:
  assumes "\<forall>e\<in>set es. open_ok P e" "runE (ws_step um iter) es (newChat opts) = Inr s"
    and "m \<in> room_msgs (roomObj (world_of s) i)" "Type m = KindMessage"
  shows "P (User m) \<and> Body m \<noteq> '''' \<and> runeCount (Body m) \<le> 500 \<and> (\<exists>raw. Body m = trimSpace raw)"
proof -
  have run: "good_chat P s'" if "good_chat P s0" "\<forall>e\<in>set es'. open_ok P e" "runE (ws_step um iter) es' s0 = Inr s'"
    for es' s0 s' using that by (induction es' arbitrary: s0) (auto dest: good_chat_step)
  have "good_chat P (newChat opts)"
    by (simp add: good_chat_def newChat_def good_world_def NewService_def newWorld_def Let_def inv_intros)
  from run [OF this assms(1,2)] have "good_msg P m"
    using assms(3,4) by (auto simp: good_chat_def good_world_def good_room_def user_msgs_def)
  then show ?thesis by (simp add: good_msg_def good_body_def)
qed

lemmas ws_eval = newChat_def with_conn_def serve_open_def serve_join_def serve_write_def read_frame_def
  read_send_def pick_join_def pick_leave_def pick_send_def pick_stop_def setConn_def setChans_def heap_at_def
  readLoop_frame_def joinCap_def leaveCap_def sendCap_def maxMessageBytes_def mgr_move_def

lemma trim_hi: "trimSpace '' hi'' = ''hi''" "runeCount ''hi'' = 2"
proof -
  have "trimLeftSpace '' hi'' = ''hi''"
    using trimLeftSpace.simps [of "'' hi''"] trimLeftSpace.simps [of "''hi''"]
    by (simp add: decodeRune_def isSpace_def)
  moreover have "trimRightSpace ''hi'' = ''hi''"
    using trimRightSpace.simps [of "''hi''"] by (simp add: decodeLastRune_def isSpace_def)
  ultimately show "trimSpace '' hi'' = ''hi''" by (simp add: trimSpace_def)
  show "runeCount ''hi'' = 2" by (simp add: runeCount_ascii)
qed

definition hello_run :: "ws_event list" where
  "hello_run =
     [WsOpen 1 ''ch'' ''al'' 7 '''' True, WsJoin 1, PickJoin 0 [] 0, WsFrame 1 '' hi'' 0 0, WsSend 1,
      PickSend 0 ''id'' 5]"

lemma hello_result:
  "\<exists>s. runE (ws_step Some ascending) hello_run (newChat \<lparr>RateBurst = 5, RatePerSecond = 1\<rparr>) = Inr s \<and>
       history (roomObj (world_of s) 0) = [chatMessage \<lparr>in_user = ''al'', in_body = ''hi''\<rparr> ''id'' 5]"
  by (simp add: hello_run_def ws_eval mgr_eval room_eval trim_hi maxMessageChars_def allowUser_def
      limiterMap_allow_def newLimiter_def limiter_allow_def f64_int [of 5, simplified]
      time_Sub_def minDuration_def maxDuration_def
      iter_single [OF enumerates_ascending] iter_empty [OF enumerates_ascending])

theorem chat_messages_valid_witness:
  "\<exists>s m. runE (ws_step Some ascending) hello_run (newChat \<lparr>RateBurst = 5, RatePerSecond = 1\<rparr>) = Inr s \<and>
     m \<in> room_msgs (roomObj (world_of s) 0) \<and> Type m = KindMessage \<and>
     User m = ''al'' \<and> Body m \<noteq> '''' \<and> runeCount (Body m) \<le> 500 \<and> (\<exists>raw. Body m = trimSpace raw)"
proof -
  obtain s where s: "runE (ws_step Some ascending) hello_run (newChat \<lparr>RateBurst = 5, RatePerSecond = 1\<rparr>) = Inr s"
    "history (roomObj (world_of s) 0) = [chatMessage \<lparr>in_user = ''al'', in_body = ''hi''\<rparr> ''id'' 5]"
    using hello_result by blast
  define m where "m = chatMessage \<lparr>in_user = ''al'', in_body = ''hi''\<rparr> ''id'' 5"
  have m: "m \<in> room_msgs (roomObj (world_of s) 0)" "Type m = KindMessage"
    using s(2) by (simp_all add: m_def room_msgs_def chatMessage_def)
  have "\<forall>e\<in>set hello_run. open_ok (\<lambda>u. u = ''al'') e" by (simp add: hello_run_def)
  from chat_messages_valid [OF this s(1) m] m s(1) show ?thesis by blast
qed

section \<open>A stopped room strands its joiners\<close>

text \<open>The writer of connection \<open>k\<close> waits on a channel of a room whose actor has returned.\<close>

definition stranded_in :: "rid \<Rightarrow> cid \<Rightarrow> world \<Rightarrow> bool" where
  "stranded_in i k w \<longleftrightarrow>
     i < nextRoom w \<and> \<not> running (roomObj w i) \<and>
     out (heap (roomObj w i) k) = [] \<and> \<not> out_closed (heap (roomObj w i) k)"

definition waits_in :: "rid \<Rightarrow> cid \<Rightarrow> (cid, conn) fmap \<Rightarrow> bool" where
  "waits_in i k cs \<longleftrightarrow> (\<exists>c. fmlookup cs k = Some c \<and> conn_room c = i \<and> writer_at c = Writing)"

definition stranded :: "rid \<Rightarrow> cid \<Rightarrow> chatsvc \<Rightarrow> bool" where
  "stranded i k s \<longleftrightarrow> stranded_in i k (world_of s) \<and> waits_in i k (conns s)"

lemma nextRoom_frame [simp]:
  "nextRoom (setEntry nm e w) = nextRoom w" "nextRoom (scheduleReap nm w) = nextRoom w"
  "nextRoom (takeEntry nm e w) = nextRoom w" "nextRoom (reap nm w) = nextRoom w"
  "nextRoom (snd (allowUser u t0 t1 w)) = nextRoom w" "nextRoom (shutdownAll nms w) = nextRoom w"
  by (simp_all add: setEntry_def scheduleReap_def takeEntry_def reap_def allowUser_def Let_def split_beta
      shutdownAll_eq setStopped_def shutdown_frame split: option.split)

lemma stranded_arm:
  assumes "stranded_in i k w" "room_arm iter j ev w = Inr w'" "\<forall>u uid ak. ev \<noteq> Connect k u uid ak"
  shows "stranded_in i k w'"
proof -
  obtain r where r: "room_step iter ev (roomObj w j) = Inr r" "roomObj w' = (roomObj w)(j := r)" "nextRoom w' = nextRoom w"
    using assms(2) by (auto simp: room_arm_def Let_def split: if_splits)
  have "\<not> running r \<and> out (heap r k) = [] \<and> \<not> out_closed (heap r k)" if "j = i"
    using assms(1,3) r(1) that by (cases ev) (auto simp: stranded_in_def writerRecv_def split: if_splits)
  then show ?thesis using assms(1) by (auto simp: stranded_in_def r(2,3))
qed

lemma stranded_get: "stranded_in i k w \<Longrightarrow> stranded_in i k (snd (getOrCreate nm w))"
  by (auto simp: stranded_in_def getOrCreate_def Let_def split: option.split)

lemma stranded_frame_world:
  "roomObj w' = roomObj w \<Longrightarrow> nextRoom w' = nextRoom w \<Longrightarrow> stranded_in i k w' = stranded_in i k w"
  by (simp add: stranded_in_def)

lemma stranded_mgr: "stranded_in i k w \<Longrightarrow> mgr_step iter e w = Inr w' \<Longrightarrow> \<forall>i ev. e \<noteq> InRoom i ev \<Longrightarrow> stranded_in i k w'"
  by (cases e) (auto simp: closeStop_def stranded_get stranded_in_def getOrCreate_def Let_def split: option.splits if_splits)

lemma frame_nextRoom: "nextRoom (snd (readLoop_frame um c data t0 t1 w)) = nextRoom w"
  by (auto simp: readLoop_frame_def Let_def split_beta split: option.split)

lemma conns_frame [simp]:
  "conns (setChans i ch s) = conns s" "world_of (setChans i ch s) = world_of s"
  "conns (tryLeave i k s) = conns s" "world_of (tryLeave i k s) = world_of s"
  "conns (setConn k c s) = fmupd k c (conns s)" "world_of (setConn k c s) = world_of s"
  by (simp_all add: setChans_def setConn_def tryLeave_def Let_def)

lemma waits_upd:
  "waits_in i k cs \<Longrightarrow> (k' = k \<Longrightarrow> conn_room c = i \<and> writer_at c = Writing) \<Longrightarrow> waits_in i k (fmupd k' c cs)"
  by (auto simp: waits_in_def)

lemma stranded_frame_move:
  assumes "stranded i k s" "fmlookup (conns s) k' = Some c"
  shows "stranded i k (read_frame um k' c data t0 t1 s)"
proof -
  obtain v w where vw: "readLoop_frame um (heap_at s (conn_room c) k') data t0 t1 (world_of s) = (v, w)" by fastforce
  then have "stranded_in i k w"
    using frame_world [of um "heap_at s (conn_room c) k'" data t0 t1 "world_of s"]
      frame_nextRoom [of um "heap_at s (conn_room c) k'" data t0 t1 "world_of s"] assms(1)
    by (simp add: stranded_def stranded_in_def)
  with vw assms show ?thesis
    by (auto simp: read_frame_def read_error_def stranded_def waits_in_def split: verdict.split)
qed

lemma stranded_write:
  assumes "stranded i k s" "fmlookup (conns s) k' = Some c" "serve_write iter k' c ok s = Inr s'"
  shows "stranded i k s'"
proof (cases "writer_at c = Writing \<and> out (heap_at s (conn_room c) k') \<noteq> []")
  case True
  then obtain w where w: "room_arm iter (conn_room c) (Recv k' 1) (world_of s) = Inr w"
    and s': "s' = (if ok then s\<lparr>world_of := w\<rparr> else serve_finish k' c (s\<lparr>world_of := w\<rparr>))"
    using assms(3) by (auto simp: serve_write_def Let_def)
  have "k' \<noteq> k" using True assms(1,2) by (auto simp: stranded_def stranded_in_def waits_in_def heap_at_def)
  moreover have "stranded_in i k w" by (rule stranded_arm [OF _ w]) (use assms(1) in \<open>auto simp: stranded_def\<close>)
  ultimately show ?thesis using s' assms(1) by (auto simp: stranded_def serve_finish_def intro!: waits_upd)
next
  case False
  moreover have "k' \<noteq> k" if "out_closed (heap_at s (conn_room c) k')"
    using that assms(1,2) by (auto simp: stranded_def stranded_in_def waits_in_def heap_at_def)
  ultimately show ?thesis using assms
    by (auto simp: serve_write_def Let_def stranded_def serve_finish_def split: if_splits intro!: waits_upd)
qed

lemma stranded_open:
  assumes "stranded i k s" "serve_open iter k' ch u uid ak ok s = Inr s'" "fmlookup (conns s) k' = None"
  shows "stranded i k s'"
proof (cases ok)
  case True
  have ne: "k' \<noteq> k" using assms(1,3) by (auto simp: stranded_def waits_in_def)
  obtain ri w where g: "getOrCreate ch (world_of s) = (ri, w)" by fastforce
  have w: "stranded_in i k w" using stranded_get [of i k "world_of s" ch] g assms(1) by (simp add: stranded_def)
  show ?thesis
  proof (cases ri)
    case None
    then show ?thesis using assms(1,2) True g w ne by (auto simp: serve_open_def stranded_def intro!: waits_upd)
  next
    case (Some j)
    then obtain w1 where w1: "room_arm iter j (Connect k' u uid ak) w = Inr w1"
      and s': "s' = setConn k' \<lparr>conn_room = j, reader_at = NoReader, writer_at = Joining, errFrames = [],
                            closeSent = None\<rparr> (s\<lparr>world_of := w1\<rparr>)"
      using assms(2) True g by (auto simp: serve_open_def)
    have "stranded_in i k w1" by (rule stranded_arm [OF w w1]) (use ne in auto)
    then show ?thesis using s' ne assms(1) by (auto simp: stranded_def intro!: waits_upd)
  qed
qed (use assms in \<open>simp add: serve_open_def\<close>)

lemma stranded_arm_move:
  assumes "stranded i k s" "room_arm iter j ev (world_of s) = Inr w" "\<forall>k u uid ak. ev \<noteq> Connect k u uid ak"
  shows "stranded_in i k w" "waits_in i k (conns s)"
  using assms stranded_arm [OF _ assms(2)] by (auto simp: stranded_def)

lemma stranded_step:
  assumes "stranded i k s" "ws_step um iter e s = Inr s'"
  shows "stranded i k s'"
proof (cases e)
  case (WsOpen k' ch u uid ak ok)
  then show ?thesis using assms stranded_open by (auto split: if_splits)
next
  case (WsJoin k')
  then show ?thesis using assms
    by (auto simp: with_conn_def serve_join_def Let_def stranded_def waits_in_def split: option.splits if_splits)
next
  case (WsCtxDone k')
  then show ?thesis using assms
    by (auto simp: with_conn_def serve_ctxDone_def stranded_def waits_in_def split: option.splits if_splits)
next
  case (WsWrite k' ok)
  then show ?thesis using assms stranded_write by (auto simp: with_conn_def split: option.splits)
next
  case (WsFrame k' data t0 t1)
  then show ?thesis using assms stranded_frame_move by (auto simp: with_conn_def split: option.splits)
next
  case (WsReadErr k')
  then show ?thesis using assms
    by (auto simp: with_conn_def read_error_def stranded_def waits_in_def split: option.splits if_splits)
next
  case (WsSend k')
  then show ?thesis using assms
    by (auto simp: with_conn_def read_send_def Let_def stranded_def waits_in_def split: option.splits if_splits reader.splits)
next
  case (WsReadCancel k')
  then show ?thesis using assms
    by (auto simp: with_conn_def read_cancel_def stranded_def waits_in_def split: option.splits reader.splits)
next
  case (PickJoin j ds now)
  then show ?thesis using assms
    by (auto simp: pick_join_def stranded_def split: list.splits if_splits dest: stranded_arm)
next
  case (PickLeave j now)
  then show ?thesis using assms
    by (auto simp: pick_leave_def stranded_def split: list.splits if_splits dest: stranded_arm)
next
  case (PickSend j uid now)
  then show ?thesis using assms
    by (auto simp: pick_send_def stranded_def split: list.splits if_splits dest: stranded_arm)
next
  case (PickStop j)
  then show ?thesis using assms
    by (auto simp: pick_stop_def stranded_def split: if_splits dest: stranded_arm)
next
  case (TimerExpire t)
  then show ?thesis using assms stranded_mgr [of i k "world_of s" iter "Expire t"] by (auto simp: mgr_move_def stranded_def)
next
  case (RunReap nm)
  then show ?thesis using assms stranded_mgr [of i k "world_of s" iter "Reap nm"] by (auto simp: mgr_move_def stranded_def)
next
  case (RunClose j)
  then show ?thesis using assms stranded_mgr [of i k "world_of s" iter "CloseStop j"] by (auto simp: mgr_move_def stranded_def)
next
  case (RunShutdown nms)
  then show ?thesis using assms stranded_mgr [of i k "world_of s" iter "ShutdownAll nms"] by (auto simp: mgr_move_def stranded_def)
qed

text \<open>
  C31: a join request that a room never handles strands its connection for ever.  Once a room's
  actor has returned (reaped or shut down) while the request of connection \<open>k\<close> was still in its
  join channel, no sequence of events lets the connection's writer finish: its channel is never
  closed and its leave request is never read.
\<close>

theorem stopped_room_strands_joiner:
  assumes "i < nextRoom (world_of s)" "\<not> running (roomObj (world_of s) i)"
    and "fmlookup (conns s) k = Some c" "conn_room c = i" "writer_at c = Writing"
    and "out (heap_at s i k) = []" "\<not> out_closed (heap_at s i k)"
    and "runE (ws_step um iter) es s = Inr s'"
  shows "\<exists>c'. fmlookup (conns s') k = Some c' \<and> writer_at c' = Writing \<and> \<not> out_closed (heap_at s' i k)"
proof -
  have "stranded i k s" using assms(1-7) by (auto simp: stranded_def stranded_in_def waits_in_def heap_at_def)
  then have "stranded i k s'" using assms(8)
    by (induction es arbitrary: s) (auto dest: stranded_step)
  then show ?thesis by (auto simp: stranded_def stranded_in_def waits_in_def heap_at_def)
qed

definition late_join :: "ws_event list" where
  "late_join =
     [WsOpen 1 ''ch'' '''' 0 ''g'' True, WsJoin 1, RunShutdown [''ch''], RunClose 0, PickStop 0]"

lemma late_join_state:
  "\<exists>s c. runE (ws_step Some ascending) late_join (newChat \<lparr>RateBurst = 5, RatePerSecond = 1\<rparr>) = Inr s \<and>
     0 < nextRoom (world_of s) \<and> \<not> running (roomObj (world_of s) 0) \<and>
     fmlookup (conns s) 1 = Some c \<and> conn_room c = 0 \<and> writer_at c = Writing \<and> reader_at c = Reading \<and>
     out (heap_at s 0 1) = [] \<and> \<not> out_closed (heap_at s 0 1)"
  by (simp add: late_join_def ws_eval mgr_eval room_eval room_stop_def shutdownAll_def
      iter_single [OF enumerates_ascending] iter_empty [OF enumerates_ascending])

theorem stopped_room_strands_joiner_witness:
  "\<exists>s. runE (ws_step Some ascending) late_join (newChat \<lparr>RateBurst = 5, RatePerSecond = 1\<rparr>) = Inr s \<and>
     (\<forall>es s'. runE (ws_step Some ascending) es s = Inr s' \<longrightarrow>
        (\<exists>c'. fmlookup (conns s') 1 = Some c' \<and> writer_at c' = Writing \<and> \<not> out_closed (heap_at s' 0 1)))"
  using late_join_state stopped_room_strands_joiner by blast

end
