(* ===== verification/Filepath.thy ===== *)
theory Filepath
  imports Prelude
begin

text \<open>
  The part of Go's \<open>path/filepath\<close>, \<open>fmt\<close> and \<open>strings\<close> the stream package builds its file
  names with: \<open>filepath.Join\<close> (which drops empty elements and cleans the result lexically),
  and the decimal rendering of \<open>fmt.Sprint\<close>.  The lemmas show that joining a root with a
  plain name always gives a direct child of the root, which is why deleting such a path
  cannot leave the state directory.
\<close>

section \<open>Paths\<close>

fun split_slash :: "string \<Rightarrow> string list" where
  "split_slash [] = [[]]"
| "split_slash (c # cs) =
     (if c = CHR ''/'' then [] # split_slash cs
      else case split_slash cs of [] \<Rightarrow> [[c]] | w # ws \<Rightarrow> (c # w) # ws)"

fun join_slash :: "string list \<Rightarrow> string" where
  "join_slash [] = []"
| "join_slash [w] = w"
| "join_slash (w # ws) = w @ CHR ''/'' # join_slash ws"

text \<open>
  One component of \<open>filepath.Clean\<close>: the stack of kept components is reversed; \<open>..\<close> removes
  the last kept one, is dropped at the root, and is kept at the front of a relative path.
\<close>

definition clean_step :: "bool \<Rightarrow> string \<Rightarrow> string list \<Rightarrow> string list" where
  "clean_step rooted w st =
     (if w = [] \<or> w = ''.'' then st
      else if w = ''..'' then
        (case st of
           [] \<Rightarrow> if rooted then [] else [w]
         | v # vs \<Rightarrow> if v = ''..'' then w # st else vs)
      else w # st)"

definition is_rooted :: "string \<Rightarrow> bool" where
  "is_rooted p = (case p of [] \<Rightarrow> False | c # _ \<Rightarrow> c = CHR ''/'')"

definition clean_parts :: "string \<Rightarrow> string list" where
  "clean_parts p = rev (fold (clean_step (is_rooted p)) (split_slash p) [])"

definition filepath_Clean :: "string \<Rightarrow> string" where
  "filepath_Clean p =
     (if p = [] then ''.''
      else if is_rooted p then CHR ''/'' # join_slash (clean_parts p)
      else if clean_parts p = [] then ''.''
      else join_slash (clean_parts p))"

definition filepath_Join :: "string list \<Rightarrow> string" where
  "filepath_Join elems =
     (let es = filter (\<lambda>e. e \<noteq> []) elems
      in if es = [] then [] else filepath_Clean (join_slash es))"

text \<open>A plain name: a non-empty path component that \<open>Clean\<close> keeps as it is.\<close>

definition plain_name :: "string \<Rightarrow> bool" where
  "plain_name w \<longleftrightarrow> w \<noteq> [] \<and> CHR ''/'' \<notin> set w \<and> w \<noteq> ''.'' \<and> w \<noteq> ''..''"

section \<open>Decimal rendering\<close>

fun show_nat :: "nat \<Rightarrow> string" where
  "show_nat n =
     (if n < 10 then [char_of (48 + n)] else show_nat (n div 10) @ [char_of (48 + n mod 10)])"

declare show_nat.simps [simp del]

section \<open>Lemmas\<close>

lemma split_slash_not_Nil [simp]: "split_slash p \<noteq> []"
  by (induction p) (auto split: list.splits)

lemma split_slash_plain: "CHR ''/'' \<notin> set w \<Longrightarrow> split_slash w = [w]"
  by (induction w) auto

lemma split_slash_append:
  "CHR ''/'' \<notin> set w \<Longrightarrow> split_slash (p @ CHR ''/'' # w) = split_slash p @ [w]"
  by (induction p) (auto simp: split_slash_plain split: list.splits)

lemma is_rooted_append: "p \<noteq> [] \<Longrightarrow> is_rooted (p @ q) = is_rooted p"
  by (cases p) (auto simp: is_rooted_def)

lemma clean_parts_child:
  "p \<noteq> [] \<Longrightarrow> plain_name w \<Longrightarrow> clean_parts (p @ CHR ''/'' # w) = clean_parts p @ [w]"
  by (simp add: clean_parts_def clean_step_def plain_name_def split_slash_append is_rooted_append)

lemma Join_child:
  assumes "p \<noteq> []" and "plain_name w"
  shows "filepath_Join [p, w] =
    (if is_rooted p then CHR ''/'' # join_slash (clean_parts p @ [w])
     else join_slash (clean_parts p @ [w]))"
  using assms
  by (auto simp: filepath_Join_def filepath_Clean_def clean_parts_child is_rooted_append
      plain_name_def)

lemma join_slash_snoc:
  "join_slash (ws @ [w]) = (if ws = [] then w else join_slash ws @ CHR ''/'' # w)"
  by (induction ws rule: join_slash.induct) auto

lemma join_slash_snoc_inj:
  assumes "CHR ''/'' \<notin> set v" "CHR ''/'' \<notin> set w" "join_slash (ws @ [v]) = join_slash (ws @ [w])"
  shows "v = w"
  using assms by (auto simp: join_slash_snoc split: if_splits)

lemma Join_child_inj:
  assumes "p \<noteq> []" "plain_name v" "plain_name w" "filepath_Join [p, v] = filepath_Join [p, w]"
  shows "v = w"
  using assms join_slash_snoc_inj [of v w "clean_parts p"]
  by (auto simp: Join_child plain_name_def split: if_splits)

section \<open>Cleaning is idempotent on components\<close>

text \<open>The component stacks \<open>Clean\<close> can produce (the last component first).\<close>

fun ok_stack :: "bool \<Rightarrow> string list \<Rightarrow> bool" where
  "ok_stack rooted [] = True"
| "ok_stack rooted (w # st) =
     (w \<noteq> [] \<and> CHR ''/'' \<notin> set w \<and> w \<noteq> ''.'' \<and>
      (w = ''..'' \<longrightarrow> \<not> rooted \<and> list_all (\<lambda>v. v = ''..'') st) \<and> ok_stack rooted st)"

lemma clean_step_ok:
  "ok_stack rooted st \<Longrightarrow> CHR ''/'' \<notin> set w \<Longrightarrow> ok_stack rooted (clean_step rooted w st)"
  by (cases st) (auto simp: clean_step_def)

lemma clean_fold_ok:
  "ok_stack rooted st \<Longrightarrow> (\<forall>w \<in> set ws. CHR ''/'' \<notin> set w) \<Longrightarrow>
   ok_stack rooted (fold (clean_step rooted) ws st)"
  by (induction ws arbitrary: st) (simp_all add: clean_step_ok)

lemma clean_step_push: "ok_stack rooted (w # st) \<Longrightarrow> clean_step rooted w st = w # st"
proof (cases st)
  case (Cons v vs)
  moreover assume "ok_stack rooted (w # st)"
  ultimately have "w = ''..'' \<Longrightarrow> v = ''..''" "w \<noteq> [] \<and> w \<noteq> ''.''" by simp_all
  with Cons show ?thesis by (auto simp: clean_step_def)
qed (simp add: clean_step_def)

lemma clean_fold_id: "ok_stack rooted st \<Longrightarrow> fold (clean_step rooted) (rev st) [] = st"
proof (induction st)
  case (Cons w st)
  then have "fold (clean_step rooted) (rev st) [] = st" by simp
  with clean_step_push [OF Cons.prems] show ?case by simp
qed simp

lemma split_slash_no_slash: "w \<in> set (split_slash p) \<Longrightarrow> CHR ''/'' \<notin> set w"
  by (induction p arbitrary: w) (fastforce split: if_splits list.splits)+

lemma clean_parts_ok: "ok_stack (is_rooted p) (rev (clean_parts p))"
  using split_slash_no_slash by (auto simp: clean_parts_def intro!: clean_fold_ok)

lemma ok_stack_no_slash: "ok_stack b st \<Longrightarrow> \<forall>w \<in> set st. CHR ''/'' \<notin> set w \<and> w \<noteq> []"
  by (induction st) auto

lemma split_join: "ws \<noteq> [] \<Longrightarrow> \<forall>w \<in> set ws. CHR ''/'' \<notin> set w \<Longrightarrow> split_slash (join_slash ws) = ws"
proof (induction ws rule: rev_induct)
  case (snoc w ws)
  then show ?case
    by (cases "ws = []") (simp_all add: join_slash_snoc split_slash_append split_slash_plain)
qed simp

lemma not_rooted_join:
  "ws \<noteq> [] \<Longrightarrow> \<forall>w \<in> set ws. CHR ''/'' \<notin> set w \<and> w \<noteq> [] \<Longrightarrow> \<not> is_rooted (join_slash ws)"
proof (induction ws rule: join_slash.induct)
  case (2 w)
  then show ?case by (cases w) (auto simp: is_rooted_def)
next
  case (3 w v ws)
  then show ?case by (cases w) (auto simp: is_rooted_def)
qed simp

lemma clean_parts_Clean: "clean_parts (filepath_Clean p) = clean_parts p"
proof -
  define ws where "ws = clean_parts p"
  have "ok_stack (is_rooted p) (rev ws)" using clean_parts_ok [of p] by (simp add: ws_def)
  then have id: "fold (clean_step (is_rooted p)) ws [] = rev ws" and ns: "\<forall>w \<in> set ws. CHR ''/'' \<notin> set w \<and> w \<noteq> []"
    using clean_fold_id [of "is_rooted p" "rev ws"] ok_stack_no_slash [of "is_rooted p" "rev ws"] by auto
  show ?thesis
  proof (cases "ws = []")
    case True
    then show ?thesis
      by (simp add: filepath_Clean_def ws_def [symmetric]) (simp add: ws_def clean_parts_def clean_step_def is_rooted_def)
  next
    case False
    note sj = split_join [OF False] not_rooted_join [OF False ns]
    have "p \<noteq> []" using False by (auto simp: ws_def clean_parts_def clean_step_def)
    then show ?thesis
    proof (cases "is_rooted p")
      case True
      then have "filepath_Clean p = CHR ''/'' # join_slash ws" using \<open>p \<noteq> []\<close> by (simp add: filepath_Clean_def ws_def)
      then show ?thesis using True id sj ns by (simp add: clean_parts_def is_rooted_def clean_step_def [of _ "[]"] flip: ws_def)
         (simp add: ws_def clean_parts_def is_rooted_def)
    next
      case nr: False
      then have "filepath_Clean p = join_slash ws" using \<open>p \<noteq> []\<close> False by (simp add: filepath_Clean_def ws_def)
      then show ?thesis using nr id sj ns ws_def by (simp add: clean_parts_def)
    qed
  qed
qed

lemma clean_parts_Join:
  assumes "p \<noteq> []" "plain_name w"
  shows "clean_parts (filepath_Join [p, w]) = clean_parts p @ [w]"
proof -
  have "filepath_Join [p, w] = filepath_Clean (p @ CHR ''/'' # w)"
    using assms by (simp add: filepath_Join_def plain_name_def)
  then show ?thesis using assms by (simp add: clean_parts_Clean clean_parts_child)
qed

text \<open>Joining a cleaned rooted path to a root stays below the root.\<close>

lemma rooted_parts_plain: "list_all plain_name (clean_parts (CHR ''/'' # q))"
proof -
  have "ok_stack True st \<Longrightarrow> list_all plain_name (rev st)" for st
    by (induction st) (auto simp: plain_name_def)
  moreover have "ok_stack True (rev (clean_parts (CHR ''/'' # q)))"
    using clean_parts_ok [of "CHR ''/'' # q"] by (simp add: is_rooted_def)
  ultimately show ?thesis by (metis rev_rev_ident)
qed

lemma clean_parts_below:
  assumes "p \<noteq> []" "list_all plain_name ws"
  shows "clean_parts (join_slash (p # ws)) = clean_parts p @ ws"
  using assms(2)
proof (induction ws rule: rev_induct)
  case (snoc w ws)
  have "join_slash (p # ws @ [w]) = join_slash (p # ws) @ CHR ''/'' # w"
    using join_slash_snoc [of "p # ws" w] by simp
  moreover have "join_slash (p # ws) \<noteq> []" using assms(1) by (cases ws) simp_all
  ultimately show ?case using snoc by (simp add: clean_parts_child)
qed simp

lemma Join_not_Nil: "p \<noteq> [] \<Longrightarrow> plain_name w \<Longrightarrow> filepath_Join [p, w] \<noteq> []"
  by (auto simp: Join_child join_slash_snoc plain_name_def)

end
