(* ===== verification/Config.thy ===== *)
theory Config
  imports Filepath Float64
begin

text \<open>
  \<open>internal/config/config.go\<close>: the configuration read from the environment.  The environment is
  the function \<open>os.Getenv\<close>, which is empty for an unset variable.  \<open>strconv.ParseBool\<close> and
  \<open>time.ParseDuration\<close> decide what a malformed value means, so both are written out, the latter
  with its overflow checks on \<open>uint64\<close> and its \<open>float64\<close> fractions.
\<close>

type_synonym getenv = "string \<Rightarrow> string"

section \<open>\<open>time.ParseDuration\<close>\<close>

datatype duration_error = InvalidDuration | MissingUnit | UnknownUnit string

definition is_digit :: "char \<Rightarrow> bool" where
  "is_digit c \<longleftrightarrow> 48 \<le> (of_char c :: nat) \<and> (of_char c :: nat) \<le> 57"

definition digit_val :: "char \<Rightarrow> nat" where
  "digit_val c = of_char c - 48"

text \<open>\<open>leadingInt\<close>: the digits at the front, or \<open>None\<close> when the value passes \<open>1<<63\<close>.\<close>

fun leadingInt :: "nat \<Rightarrow> string \<Rightarrow> (nat \<times> string) option" where
  "leadingInt x [] = Some (x, [])"
| "leadingInt x (c # s) =
     (if \<not> is_digit c then Some (x, c # s)
      else if 2 ^ 63 div 10 < x then None
      else (let y = x * 10 + digit_val c in if 2 ^ 63 < y then None else leadingInt y s))"

text \<open>
  \<open>leadingFraction\<close>: digits past the precision are skipped.  A scale beyond the largest \<open>float64\<close>
  (more than 308 digits) stays finite here and infinite in Go; the fraction is zero in both.
\<close>

fun leadingFraction :: "nat \<Rightarrow> rat \<Rightarrow> bool \<Rightarrow> string \<Rightarrow> nat \<times> rat \<times> string" where
  "leadingFraction x scale overflow [] = (x, scale, [])"
| "leadingFraction x scale overflow (c # s) =
     (if \<not> is_digit c then (x, scale, c # s)
      else if overflow then leadingFraction x scale overflow s
      else if (2 ^ 63 - 1) div 10 < x then leadingFraction x scale True s
      else (let y = x * 10 + digit_val c in
            if 2 ^ 63 < y then leadingFraction x scale True s
            else leadingFraction y (f64 (scale * 10)) False s))"

definition unitMap :: "(string \<times> nat) list" where
  "unitMap =
     [(''ns'', 1), (''us'', 10 ^ 3), ([CHR 0xC2, CHR 0xB5, CHR ''s''], 10 ^ 3),
      ([CHR 0xCE, CHR 0xBC, CHR ''s''], 10 ^ 3), (''ms'', 10 ^ 6), (''s'', 10 ^ 9),
      (''m'', 60 * 10 ^ 9), (''h'', 3600 * 10 ^ 9)]"

definition in_unit :: "char \<Rightarrow> bool" where
  "in_unit c \<longleftrightarrow> c \<noteq> CHR ''.'' \<and> \<not> is_digit c"

text \<open>One round of the loop: a number with an optional fraction, then its unit.\<close>

definition read_fraction :: "string \<Rightarrow> nat \<times> rat \<times> bool \<times> string" where
  "read_fraction s =
     (case s of
        [] \<Rightarrow> (0, 1, False, s)
      | c # t \<Rightarrow>
          if c = CHR ''.'' then (let (f, scale, u) = leadingFraction 0 1 False t in (f, scale, length u \<noteq> length t, u))
          else (0, 1, False, s))"

definition scaled :: "nat \<Rightarrow> nat \<Rightarrow> rat \<Rightarrow> nat \<Rightarrow> duration_error + nat" where
  "scaled v f scale unit =
     (if 2 ^ 63 div unit < v then Inl InvalidDuration
      else (let v1 = v * unit in
            if 0 < f
            then (let v2 = v1 + nat \<lfloor>f64 (f64 (of_nat f) * f64 (of_nat unit / scale))\<rfloor>
                  in if 2 ^ 63 < v2 then Inl InvalidDuration else Inr v2)
            else Inr v1))"

definition duration_segment :: "string \<Rightarrow> duration_error + nat \<times> string" where
  "duration_segment s =
     (if s = [] \<or> \<not> (hd s = CHR ''.'' \<or> is_digit (hd s)) then Inl InvalidDuration
      else case leadingInt 0 s of
        None \<Rightarrow> Inl InvalidDuration
      | Some (v, s1) \<Rightarrow>
          (let (f, scale, post, s2) = read_fraction s1 in
           if length s1 = length s \<and> \<not> post then Inl InvalidDuration
           else (let u = takeWhile in_unit s2 in
                 if u = [] then Inl MissingUnit
                 else case map_of unitMap u of
                   None \<Rightarrow> Inl (UnknownUnit u)
                 | Some unit \<Rightarrow>
                     bindE (scaled v f scale unit) (\<lambda>w. Inr (w, dropWhile in_unit s2)))))"

lemma leadingInt_length: "leadingInt x s = Some (y, t) \<Longrightarrow> length t \<le> length s"
  by (induction x s rule: leadingInt.induct) (auto simp: Let_def split: if_splits)

lemma leadingFraction_length: "leadingFraction x sc ov s = (y, sc', t) \<Longrightarrow> length t \<le> length s"
  by (induction x sc ov s rule: leadingFraction.induct) (auto simp: Let_def split: if_splits)

lemma read_fraction_length: "read_fraction s = (f, scale, post, t) \<Longrightarrow> length t \<le> length s"
  by (auto simp: read_fraction_def split: list.splits if_splits prod.splits dest: leadingFraction_length)

lemma dropWhile_shorter: "takeWhile P s \<noteq> [] \<Longrightarrow> length (dropWhile P s) < length s"
  by (cases s) (auto simp: length_dropWhile_le less_Suc_eq_le split: if_splits)

lemma duration_segment_length: "duration_segment s = Inr (w, t) \<Longrightarrow> length t < length s"
  by (auto simp: duration_segment_def Let_def split: if_splits option.splits prod.splits
      dest!: leadingInt_length read_fraction_length intro: less_le_trans [OF dropWhile_shorter])

text \<open>The loop: the sum is a \<open>uint64\<close>, so it wraps before it is compared.\<close>

function duration_loop :: "nat \<Rightarrow> string \<Rightarrow> duration_error + nat" where
  "duration_loop d s =
     (if s = [] then Inr d
      else case duration_segment s of
        Inl e \<Rightarrow> Inl e
      | Inr (v, t) \<Rightarrow>
          (let d1 = (d + v) mod 2 ^ 64 in if 2 ^ 63 < d1 then Inl InvalidDuration else duration_loop d1 t))"
  by pat_completeness auto
termination
  by (relation "measure (\<lambda>(d, s). length s)") (auto simp: duration_segment_length)

declare duration_loop.simps [simp del]

definition ParseDuration :: "string \<Rightarrow> duration_error + duration" where
  "ParseDuration s =
     (let neg = (s \<noteq> [] \<and> hd s = CHR ''-'');
          t = (if s \<noteq> [] \<and> (hd s = CHR ''-'' \<or> hd s = CHR ''+'') then tl s else s)
      in if t = ''0'' then Inr 0
         else if t = '''' then Inl InvalidDuration
         else bindE (duration_loop 0 t) (\<lambda>d.
           if neg then Inr (- int d) else if 2 ^ 63 - 1 < d then Inl InvalidDuration else Inr (int d)))"

section \<open>\<open>strconv.ParseBool\<close>\<close>

definition true_words :: "string list" where
  "true_words = [''1'', ''t'', ''T'', ''TRUE'', ''true'', ''True'']"

definition false_words :: "string list" where
  "false_words = [''0'', ''f'', ''F'', ''FALSE'', ''false'', ''False'']"

definition ParseBool :: "string \<Rightarrow> bool option" where
  "ParseBool s = (if s \<in> set true_words then Some True else if s \<in> set false_words then Some False else None)"

section \<open>The configuration\<close>

record Config =
  DatabaseURL :: string
  HTTPAddr :: string
  RTMPAddr :: string
  StateDir :: string
  FFmpegPath :: string
  PublicRTMPURL :: string
  SecureCookies :: bool
  SessionTTL :: duration

definition envOr :: "getenv \<Rightarrow> string \<Rightarrow> string \<Rightarrow> string" where
  "envOr getenv key def = (if getenv key \<noteq> '''' then getenv key else def)"

definition envBool :: "getenv \<Rightarrow> string \<Rightarrow> bool \<Rightarrow> bool" where
  "envBool getenv key def =
     (let v = getenv key in
      if v = '''' then def else case ParseBool v of None \<Rightarrow> def | Some b \<Rightarrow> b)"

definition envDuration :: "getenv \<Rightarrow> string \<Rightarrow> duration \<Rightarrow> duration" where
  "envDuration getenv key def =
     (let v = getenv key in
      if v = '''' then def else case ParseDuration v of Inl _ \<Rightarrow> def | Inr d \<Rightarrow> d)"

datatype config_error = DatabaseURLRequired

definition hour :: duration where
  "hour = 3600 * 10 ^ 9"

definition Load :: "getenv \<Rightarrow> config_error + Config" where
  "Load getenv =
     (let cfg = \<lparr>DatabaseURL = getenv ''DATABASE_URL'',
                 HTTPAddr = envOr getenv ''HTTP_ADDR'' '':8080'',
                 RTMPAddr = envOr getenv ''RTMP_ADDR'' '':1935'',
                 StateDir = envOr getenv ''STATE_DIR'' ''./state'',
                 FFmpegPath = envOr getenv ''FFMPEG_PATH'' ''ffmpeg'',
                 PublicRTMPURL = envOr getenv ''PUBLIC_RTMP_URL'' ''rtmp://localhost:1935/live'',
                 SecureCookies = envBool getenv ''SECURE_COOKIES'' False,
                 SessionTTL = envDuration getenv ''SESSION_TTL'' (30 * 24 * hour)\<rparr>
      in if DatabaseURL cfg = '''' then Inl DatabaseURLRequired else Inr cfg)"


section \<open>Reading decimal numbers\<close>

definition decimal :: "nat \<Rightarrow> string \<Rightarrow> nat" where
  "decimal = foldl (\<lambda>x c. x * 10 + digit_val c)"

lemma show_nat_digit [simp]: "n < 10 \<Longrightarrow> is_digit (char_of (48 + n))" "n < 10 \<Longrightarrow> digit_val (char_of (48 + n)) = n"
  by (simp_all add: is_digit_def digit_val_def)

lemma show_nat_digits: "list_all is_digit (show_nat n)"
  by (induction n rule: show_nat.induct) (subst show_nat.simps, simp)

lemma show_nat_not_Nil [simp]: "show_nat n \<noteq> []"
  by (subst show_nat.simps) simp

lemma decimal_show_nat: "decimal 0 (show_nat n) = n"
  by (induction n rule: show_nat.induct) (subst show_nat.simps, simp add: decimal_def)

lemma decimal_ge: "x \<le> decimal x s"
proof (induction s arbitrary: x)
  case (Cons c s)
  have "x \<le> x * 10 + digit_val c" by simp
  also have "\<dots> \<le> decimal (x * 10 + digit_val c) s" by (rule Cons)
  finally show ?case by (simp add: decimal_def)
qed (simp add: decimal_def)

lemma leadingInt_decimal:
  "list_all is_digit s \<Longrightarrow> decimal x s \<le> 2 ^ 63 \<Longrightarrow> t = [] \<or> \<not> is_digit (hd t) \<Longrightarrow>
   leadingInt x (s @ t) = Some (decimal x s, t)"
proof (induction s arbitrary: x)
  case Nil
  then show ?case by (cases t) (auto simp: decimal_def)
next
  case (Cons c s)
  let ?y = "x * 10 + digit_val c"
  have d: "decimal x (c # s) = decimal ?y s" by (simp add: decimal_def)
  have "?y \<le> 2 ^ 63" using decimal_ge [of ?y s] Cons.prems(2) d by linarith
  with Cons d show ?case by (simp add: Let_def)
qed

section \<open>Reading a printed duration\<close>

text \<open>A list of numbers with units and its value; \<open>1h30m\<close> is \<open>[(1, ''h''), (30, ''m'')]\<close>.\<close>

definition print_duration :: "(nat \<times> string) list \<Rightarrow> string" where
  "print_duration segs = concat (map (\<lambda>(n, u). show_nat n @ u) segs)"

fun nanoseconds :: "(nat \<times> string) list \<Rightarrow> nat" where
  "nanoseconds [] = 0"
| "nanoseconds ((n, u) # segs) = n * the (map_of unitMap u) + nanoseconds segs"

definition known_units :: "(nat \<times> string) list \<Rightarrow> bool" where
  "known_units segs \<longleftrightarrow> list_all (\<lambda>(n, u). u \<in> fst ` set unitMap) segs"

lemma unitMap_units:
  assumes "u \<in> fst ` set unitMap"
  shows "u \<noteq> []" "list_all in_unit u" "hd u \<noteq> CHR ''.''" "\<not> is_digit (hd u)"
    "\<exists>k > 0. map_of unitMap u = Some k"
  using assms by (auto simp: unitMap_def in_unit_def is_digit_def)

lemma show_nat_start [simp]: "is_digit (hd (show_nat n))"
  using show_nat_digits [of n] by (cases "show_nat n") auto

lemma print_duration_start: "print_duration segs = [] \<or> is_digit (hd (print_duration segs))"
proof (cases segs)
  case (Cons s segs')
  then show ?thesis by (cases s) (simp add: print_duration_def)
qed (simp add: print_duration_def)

lemma takeWhile_unit:
  assumes "list_all in_unit u" "t = [] \<or> is_digit (hd t)"
  shows "takeWhile in_unit (u @ t) = u" "dropWhile in_unit (u @ t) = t"
proof -
  have "takeWhile in_unit t = [] \<and> dropWhile in_unit t = t"
    using assms(2) by (cases t) (auto simp: in_unit_def)
  with assms(1) show "takeWhile in_unit (u @ t) = u" "dropWhile in_unit (u @ t) = t"
    by (simp_all add: list_all_iff takeWhile_append dropWhile_append)
qed

lemma duration_segment_print:
  assumes u: "u \<in> fst ` set unitMap" and t: "t = [] \<or> is_digit (hd t)"
    and n: "n * the (map_of unitMap u) \<le> 2 ^ 63"
  shows "duration_segment (show_nat n @ u @ t) = Inr (n * the (map_of unitMap u), t)"
proof -
  note uu = unitMap_units [OF u]
  obtain k where k: "map_of unitMap u = Some k" "0 < k" using uu(5) by auto
  have "n \<le> n * k" using k by simp
  also have "\<dots> \<le> 2 ^ 63" using n k by simp
  finally have n63: "n \<le> 2 ^ 63" .
  have lead: "leadingInt 0 (show_nat n @ u @ t) = Some (n, u @ t)"
    using leadingInt_decimal [OF show_nat_digits, of 0 n "u @ t"] n63 uu by (simp add: decimal_show_nat)
  have frac: "read_fraction (u @ t) = (0, 1, False, u @ t)"
    using uu by (cases u) (auto simp: read_fraction_def)
  have "\<not> 2 ^ 63 div k < n" using n k by (simp add: not_less less_eq_div_iff_mult_less_eq)
  then show ?thesis
    using lead frac uu(1,2) k takeWhile_unit [OF uu(2) t]
    by (simp add: duration_segment_def scaled_def)
qed

lemma duration_loop_print:
  "known_units segs \<Longrightarrow> d + nanoseconds segs < 2 ^ 63 \<Longrightarrow>
   duration_loop d (print_duration segs) = Inr (d + nanoseconds segs)"
proof (induction segs arbitrary: d)
  case Nil
  then show ?case by (simp add: print_duration_def duration_loop.simps)
next
  case (Cons s segs)
  obtain n u where s: "s = (n, u)" by fastforce
  let ?v = "n * the (map_of unitMap u)"
  have split: "print_duration (s # segs) = show_nat n @ u @ print_duration segs"
    by (simp add: s print_duration_def)
  have "duration_segment (show_nat n @ u @ print_duration segs) = Inr (?v, print_duration segs)"
    using Cons.prems by (intro duration_segment_print print_duration_start) (auto simp: s known_units_def)
  moreover have "duration_loop (d + ?v) (print_duration segs) = Inr (d + ?v + nanoseconds segs)"
    using Cons.prems by (intro Cons.IH) (auto simp: s known_units_def)
  ultimately show ?case
    using Cons.prems(2) unfolding split by (subst duration_loop.simps) (simp add: s Let_def)
qed

lemma ParseDuration_print:
  assumes "segs \<noteq> []" "known_units segs" "nanoseconds segs < 2 ^ 63"
  shows "ParseDuration (print_duration segs) = Inr (int (nanoseconds segs))"
    and "ParseDuration (CHR ''+'' # print_duration segs) = Inr (int (nanoseconds segs))"
    and "ParseDuration (CHR ''-'' # print_duration segs) = Inr (- int (nanoseconds segs))"
proof -
  let ?p = "print_duration segs"
  have loop: "duration_loop 0 ?p = Inr (nanoseconds segs)"
    using duration_loop_print [of segs 0] assms by simp
  obtain n u rest where s: "segs = (n, u) # rest" using assms(1) by (cases segs) auto
  have p: "?p = show_nat n @ u @ print_duration rest" by (simp add: s print_duration_def)
  have "u \<noteq> []" using assms(2) s unitMap_units(1) by (auto simp: known_units_def)
  then have long: "?p \<noteq> ''0''" "?p \<noteq> []" unfolding p by (cases "show_nat n"; auto)+
  have "is_digit (hd ?p)" using print_duration_start [of segs] long by simp
  then have "hd ?p \<noteq> CHR ''-''" "hd ?p \<noteq> CHR ''+''" by (auto simp: is_digit_def)
  with long loop assms(3) show "ParseDuration ?p = Inr (int (nanoseconds segs))"
    "ParseDuration (CHR ''+'' # ?p) = Inr (int (nanoseconds segs))"
    "ParseDuration (CHR ''-'' # ?p) = Inr (- int (nanoseconds segs))"
    by (simp_all add: ParseDuration_def Let_def)
qed

section \<open>Range\<close>

lemma scaled_range:
  assumes "scaled v f sc unit = Inr w"
  shows "w \<le> 2 ^ 63"
proof -
  have "v \<le> 2 ^ 63 div unit \<Longrightarrow> v * unit \<le> 2 ^ 63"
    by (rule order_trans [OF mult_le_mono1 div_times_less_eq_dividend])
  with assms show ?thesis by (auto simp: scaled_def Let_def not_less split: if_splits)
qed

lemma duration_loop_range: "d \<le> 2 ^ 63 \<Longrightarrow> duration_loop d s = Inr r \<Longrightarrow> r \<le> 2 ^ 63"
proof (induction d s rule: duration_loop.induct)
  case (1 d s)
  then show ?case
    by (subst (asm) duration_loop.simps [of d s]) (auto simp: Let_def split: if_splits sum.splits)
qed

lemma ParseDuration_range: "ParseDuration s = Inr d \<Longrightarrow> minDuration \<le> d \<and> d \<le> maxDuration"
  by (auto simp: ParseDuration_def Let_def minDuration_def maxDuration_def split: if_splits
      dest!: duration_loop_range [OF zero_le])

section \<open>What \<open>Load\<close> promises\<close>

lemma Load_eq_Inr:
  "Load getenv = Inr cfg \<longleftrightarrow> getenv ''DATABASE_URL'' \<noteq> '''' \<and> cfg =
     \<lparr>DatabaseURL = getenv ''DATABASE_URL'', HTTPAddr = envOr getenv ''HTTP_ADDR'' '':8080'',
      RTMPAddr = envOr getenv ''RTMP_ADDR'' '':1935'', StateDir = envOr getenv ''STATE_DIR'' ''./state'',
      FFmpegPath = envOr getenv ''FFMPEG_PATH'' ''ffmpeg'',
      PublicRTMPURL = envOr getenv ''PUBLIC_RTMP_URL'' ''rtmp://localhost:1935/live'',
      SecureCookies = envBool getenv ''SECURE_COOKIES'' False,
      SessionTTL = envDuration getenv ''SESSION_TTL'' (30 * 24 * hour)\<rparr>"
  by (auto simp: Load_def Let_def)

lemma envOr_not_Nil: "def \<noteq> '''' \<Longrightarrow> envOr getenv key def \<noteq> ''''"
  by (simp add: envOr_def)

lemma envBool_False: "envBool getenv key False \<longleftrightarrow> getenv key \<in> set true_words"
  by (auto simp: envBool_def ParseBool_def true_words_def false_words_def Let_def)

lemma envDuration_range:
  "minDuration \<le> def \<Longrightarrow> def \<le> maxDuration \<Longrightarrow>
   minDuration \<le> envDuration getenv key def \<and> envDuration getenv key def \<le> maxDuration"
  by (auto simp: envDuration_def Let_def split: sum.split dest: ParseDuration_range)

text \<open>
  Every environment yields either a complete configuration or the one error, and the
  error exactly when \<open>DATABASE_URL\<close> is empty: addresses, directory and program are never empty,
  cookies are marked secure exactly for the six spellings of true that \<open>strconv\<close> knows (so not
  for \<open>yes\<close> or \<open>on\<close>), and the session lifetime is a valid \<open>int64\<close> of nanoseconds, whatever
  digits the variables hold.
\<close>

theorem config_total:
  "case Load getenv of
     Inl e \<Rightarrow> getenv ''DATABASE_URL'' = ''''
   | Inr cfg \<Rightarrow>
       DatabaseURL cfg = getenv ''DATABASE_URL'' \<and> list_all (\<lambda>v. v \<noteq> '''')
         [DatabaseURL cfg, HTTPAddr cfg, RTMPAddr cfg, StateDir cfg, FFmpegPath cfg, PublicRTMPURL cfg] \<and>
       (SecureCookies cfg \<longleftrightarrow>
          getenv ''SECURE_COOKIES'' \<in> {''1'', ''t'', ''T'', ''TRUE'', ''true'', ''True''}) \<and>
       - (2 ^ 63) \<le> SessionTTL cfg \<and> SessionTTL cfg < 2 ^ 63"
proof (cases "Load getenv")
  case (Inr cfg)
  have "minDuration \<le> SessionTTL cfg \<and> SessionTTL cfg \<le> maxDuration"
    using Inr envDuration_range [of "30 * 24 * hour"]
    by (auto simp: Load_eq_Inr hour_def minDuration_def maxDuration_def)
  with Inr [unfolded Load_eq_Inr] show ?thesis unfolding Inr sum.case
    by (simp add: envBool_False true_words_def minDuration_def maxDuration_def envOr_not_Nil)
qed (simp add: Load_def Let_def split: if_splits)

text \<open>
  C40: a session lifetime written as whole numbers with units (\<open>720h\<close>, \<open>1h30m\<close>, also with a
  sign in front) is read as exactly its value, for every value a \<open>time.Duration\<close> can hold: the
  overflow checks of the parser reject nothing that fits.  Nothing asks for a positive value, so
  a lifetime with a minus sign is accepted as well.
\<close>

theorem session_ttl_exact:
  assumes "getenv ''DATABASE_URL'' \<noteq> ''''"
    and "segs \<noteq> []" "known_units segs" "nanoseconds segs < 2 ^ 63"
    and "sign \<in> {'''', ''+'', ''-''}" "getenv ''SESSION_TTL'' = sign @ print_duration segs"
  shows "\<exists>cfg. Load getenv = Inr cfg \<and>
           SessionTTL cfg = (if sign = ''-'' then - int (nanoseconds segs) else int (nanoseconds segs))"
proof -
  obtain n u rest where "segs = (n, u) # rest" using assms(2) by (cases segs) auto
  then have "print_duration segs \<noteq> []" by (simp add: print_duration_def)
  with assms ParseDuration_print [OF assms(2-4)] show ?thesis
    by (auto simp: Load_eq_Inr envDuration_def Let_def)
qed

definition demo_getenv :: getenv where
  "demo_getenv key =
     (if key = ''DATABASE_URL'' then ''postgres://localhost/chtiwt''
      else if key = ''SESSION_TTL'' then ''-1h30m'' else '''')"

lemma print_demo: "print_duration [(1, ''h''), (30, ''m'')] = ''1h30m''"
  by code_simp

theorem session_ttl_exact_witness:
  "\<exists>cfg. Load demo_getenv = Inr cfg \<and> SessionTTL cfg = - 5400 * 10 ^ 9"
  using session_ttl_exact [of demo_getenv "[(1, ''h''), (30, ''m'')]" "''-''"]
  by (simp add: demo_getenv_def print_demo known_units_def unitMap_def del: One_nat_def)

end
