(* ===== verification/Http.thy ===== *)
theory Http
  imports Filepath
begin

text \<open>
  What the handlers use of \<open>net/http\<close>: requests, the response writer (the first \<open>WriteHeader\<close> fixes
  the status and the headers sent), cookies on both sides, \<open>Error\<close>, \<open>Redirect\<close>, \<open>NotFound\<close>, and the
  routing of \<open>ServeMux\<close> (methods, wildcards, most specific pattern, redirects to the canonical
  path).  A path is the list of its decoded segments, a trailing slash being an empty last
  segment; percent-escapes inside the literal part of a pattern are not represented.
\<close>

section \<open>Requests\<close>

record 'u request =
  rq_method :: string
  rq_segs :: "string list"
  rq_cookies :: "(string \<times> string) list"
  rq_form :: "(string \<times> string) list option"
  rq_user :: "'u option"

text \<open>\<open>r.Cookie\<close>: the first cookie of that name.\<close>

definition r_Cookie :: "string \<Rightarrow> 'u request \<Rightarrow> string option" where
  "r_Cookie nm r = map_of (rq_cookies r) nm"

definition form_Get :: "(string \<times> string) list \<Rightarrow> string \<Rightarrow> string" where
  "form_Get f k = (case map_of f k of None \<Rightarrow> '''' | Some v \<Rightarrow> v)"

section \<open>Responses\<close>

record Cookie =
  ck_name :: string
  ck_value :: string
  ck_path :: string
  ck_maxAge :: int
  ck_httpOnly :: bool
  ck_lax :: bool
  ck_secure :: bool

datatype header =
    SetCookie Cookie
  | Location string
  | ContentType string
  | CacheControl string
  | Allow "string list"

record 'b response =
  hdr :: "header list"
  sent :: "(nat \<times> header list) option"
  body :: "'b list"

definition newWriter :: "'b response" where
  "newWriter = \<lparr>hdr = [], sent = None, body = []\<rparr>"

definition addHeader :: "header \<Rightarrow> 'b response \<Rightarrow> 'b response" where
  "addHeader h w = w\<lparr>hdr := hdr w @ [h]\<rparr>"

text \<open>\<open>Header().Set\<close> replaces the field; cookies are added.\<close>

fun field :: "header \<Rightarrow> string" where
  "field (SetCookie _) = ''Set-Cookie''"
| "field (Location _) = ''Location''"
| "field (ContentType _) = ''Content-Type''"
| "field (CacheControl _) = ''Cache-Control''"
| "field (Allow _) = ''Allow''"

definition setHeader :: "header \<Rightarrow> 'b response \<Rightarrow> 'b response" where
  "setHeader h w = w\<lparr>hdr := filter (\<lambda>x. field x \<noteq> field h) (hdr w) @ [h]\<rparr>"

definition WriteHeader :: "nat \<Rightarrow> 'b response \<Rightarrow> 'b response" where
  "WriteHeader code w = (case sent w of None \<Rightarrow> w\<lparr>sent := Some (code, hdr w)\<rparr> | Some _ \<Rightarrow> w)"

definition w_Write :: "'b \<Rightarrow> 'b response \<Rightarrow> 'b response" where
  "w_Write b w = (let w1 = WriteHeader 200 w in w1\<lparr>body := body w1 @ [b]\<rparr>)"

text \<open>What the client receives when the handler returns.\<close>

definition status :: "'b response \<Rightarrow> nat" where
  "status w = fst (the (sent (WriteHeader 200 w)))"

definition headers :: "'b response \<Rightarrow> header list" where
  "headers w = snd (the (sent (WriteHeader 200 w)))"

definition http_Error :: "(string \<Rightarrow> 'b) \<Rightarrow> string \<Rightarrow> nat \<Rightarrow> 'b response \<Rightarrow> 'b response" where
  "http_Error txt msg code w =
     w_Write (txt msg) (WriteHeader code (setHeader (ContentType ''text/plain; charset=utf-8'') w))"

definition http_NotFound :: "(string \<Rightarrow> 'b) \<Rightarrow> 'b response \<Rightarrow> 'b response" where
  "http_NotFound txt w = http_Error txt ''404 page not found'' 404 w"

text \<open>\<open>Redirect\<close> adds a short page for \<open>GET\<close> and \<open>HEAD\<close> unless a content type is set already.\<close>

definition http_Redirect :: "(string \<Rightarrow> 'b) \<Rightarrow> 'u request \<Rightarrow> string \<Rightarrow> nat \<Rightarrow> 'b response \<Rightarrow> 'b response" where
  "http_Redirect txt r url code w =
     (let page = list_all (\<lambda>h. field h \<noteq> ''Content-Type'') (hdr w) \<and> (rq_method r = ''GET'' \<or> rq_method r = ''HEAD'');
          w1 = setHeader (Location url) w;
          w2 = (if page then setHeader (ContentType ''text/html; charset=utf-8'') w1 else w1);
          w3 = WriteHeader code w2
      in if page \<and> rq_method r = ''GET'' then w_Write (txt url) w3 else w3)"

section \<open>The browser's cookies\<close>

text \<open>A negative age deletes the cookie; cookies are applied in the order of the headers.\<close>

fun jar_apply :: "header \<Rightarrow> (string \<rightharpoonup> string) \<Rightarrow> (string \<rightharpoonup> string)" where
  "jar_apply (SetCookie c) j =
     (if ck_maxAge c < 0 then j(ck_name c := None) else j(ck_name c \<mapsto> ck_value c))"
| "jar_apply _ j = j"

definition jar_update :: "'b response \<Rightarrow> (string \<rightharpoonup> string) \<Rightarrow> (string \<rightharpoonup> string)" where
  "jar_update w j = fold jar_apply (headers w) j"

section \<open>Routing\<close>

datatype seg = Lit string | Wild

text \<open>A pattern: method, segments, and whether it ends in a slash (then it matches every path below).\<close>

record pattern =
  pt_method :: string
  pt_segs :: "seg list"
  pt_tree :: bool

fun segs_match :: "seg list \<Rightarrow> bool \<Rightarrow> string list \<Rightarrow> bool" where
  "segs_match [] tree xs = (if tree then xs \<noteq> [] else xs = [])"
| "segs_match (Lit a # ps) tree (x # xs) = (a = x \<and> segs_match ps tree xs)"
| "segs_match (Wild # ps) tree (x # xs) = (x \<noteq> '''' \<and> segs_match ps tree xs)"
| "segs_match (_ # _) tree [] = False"

definition method_match :: "string \<Rightarrow> string \<Rightarrow> bool" where
  "method_match pm rm \<longleftrightarrow> pm = rm \<or> (pm = ''GET'' \<and> rm = ''HEAD'')"

definition pat_match :: "string \<Rightarrow> string list \<Rightarrow> pattern \<Rightarrow> bool" where
  "pat_match mth path p \<longleftrightarrow> method_match (pt_method p) mth \<and> segs_match (pt_segs p) (pt_tree p) path"

text \<open>The paths of one pattern are among those of another.\<close>

fun segs_within :: "seg list \<Rightarrow> bool \<Rightarrow> seg list \<Rightarrow> bool \<Rightarrow> bool" where
  "segs_within ps t [] u = (if u then ps \<noteq> [] \<or> t else ps = [] \<and> \<not> t)"
| "segs_within (Lit a # ps) t (Lit b # qs) u = (a = b \<and> segs_within ps t qs u)"
| "segs_within (Lit a # ps) t (Wild # qs) u = (a \<noteq> '''' \<and> segs_within ps t qs u)"
| "segs_within (Wild # ps) t (Wild # qs) u = segs_within ps t qs u"
| "segs_within (Wild # ps) t (Lit b # qs) u = False"
| "segs_within [] t (_ # _) u = False"

definition more_specific :: "pattern \<Rightarrow> pattern \<Rightarrow> bool" where
  "more_specific p q \<longleftrightarrow> segs_within (pt_segs p) (pt_tree p) (pt_segs q) (pt_tree q)"

definition mux_match :: "(pattern \<times> 'h) list \<Rightarrow> string \<Rightarrow> string list \<Rightarrow> (pattern \<times> 'h) option" where
  "mux_match routes mth path =
     (let hits = filter (\<lambda>(p, h). pat_match mth path p) routes
      in find (\<lambda>(p, h). list_all (\<lambda>(q, h'). more_specific p q) hits) hits)"

text \<open>\<open>exactMatch\<close>: a pattern ending in a slash matches exactly only the path that ends there.\<close>

definition exactMatch :: "pattern \<Rightarrow> string list \<Rightarrow> bool" where
  "exactMatch p path \<longleftrightarrow> \<not> pt_tree p \<or> length path = length (pt_segs p) + 1 \<and> last path = ''''"

text \<open>
  A canonical path has no empty inner segment and no dot segments; the others are redirected.
\<close>

definition canonical :: "string list \<Rightarrow> bool" where
  "canonical path \<longleftrightarrow> path \<noteq> [] \<and> list_all (\<lambda>x. x \<noteq> '''') (butlast path) \<and> list_all (\<lambda>x. x \<noteq> ''.'' \<and> x \<noteq> ''..'') path"

datatype 'h muxResult = Handler 'h "string list" | MovedPermanently | MethodNotAllowed "string list" | NoRoute

fun wild_values :: "seg list \<Rightarrow> string list \<Rightarrow> string list" where
  "wild_values (Wild # ps) (x # xs) = x # wild_values ps xs"
| "wild_values (Lit a # ps) (x # xs) = wild_values ps xs"
| "wild_values _ _ = []"

definition mux_dispatch :: "(pattern \<times> 'h) list \<Rightarrow> 'u request \<Rightarrow> 'h muxResult" where
  "mux_dispatch routes r =
     (let mth = rq_method r; path = rq_segs r;
          hit = mux_match routes mth path;
          exact = (case hit of None \<Rightarrow> False | Some (p, h) \<Rightarrow> exactMatch p path)
      in if \<not> canonical path then MovedPermanently
         else if \<not> exact \<and> last path \<noteq> '''' \<and>
                 (case mux_match routes mth (path @ ['''']) of None \<Rightarrow> False | Some (p, h) \<Rightarrow> exactMatch p (path @ ['''']))
              then MovedPermanently
         else case hit of
           Some (p, h) \<Rightarrow> Handler h (wild_values (pt_segs p) path)
         | None \<Rightarrow>
             (case map (pt_method \<circ> fst) (filter (\<lambda>(p, h). segs_match (pt_segs p) (pt_tree p) path) routes) of
                [] \<Rightarrow> NoRoute
              | ms \<Rightarrow> MethodNotAllowed ms))"

section \<open>Lemmas\<close>

lemma segs_match_nonempty: "segs_match ps t xs \<Longrightarrow> ps \<noteq> [] \<or> t \<Longrightarrow> xs \<noteq> []"
  by (cases ps; cases xs) auto

lemma segs_within_match: "segs_within ps t qs u \<Longrightarrow> segs_match ps t xs \<Longrightarrow> segs_match qs u xs"
proof (induction ps t qs u arbitrary: xs rule: segs_within.induct)
  case (1 ps t u)
  then show ?case using segs_match_nonempty [of ps t xs] by (auto split: if_splits)
next
  case (2 a ps t b qs u)
  then show ?case by (cases xs) auto
next
  case (3 a ps t qs u)
  then show ?case by (cases xs) auto
next
  case (4 ps t qs u)
  then show ?case by (cases xs) auto
qed simp_all

lemma sent_once [simp]: "sent w = Some x \<Longrightarrow> WriteHeader code w = w"
  by (simp add: WriteHeader_def)

lemma find_mem: "find P xs = Some x \<Longrightarrow> x \<in> set xs"
  by (auto simp: find_Some_iff)

lemma mux_match_sound:
  assumes "mux_match routes mth path = Some (p, h)"
  shows "(p, h) \<in> set routes" "pat_match mth path p"
  using find_mem [OF assms [unfolded mux_match_def Let_def]] by auto

end
