(* ===== verification/Store.thy ===== *)
theory Store
  imports Utf8
begin

text \<open>
  \<open>internal/store\<close>: the database schema of \<open>migrations/0001_init.up.sql\<close> as a record of tables,
  and one function per query of \<open>queries/*.sql.go\<close> with the meaning of its SQL text: unique,
  foreign-key and check constraints, text encoding, sequences that are not rolled back, and
  microsecond timestamps.  A query returns its result and the new database; \<open>now\<close> is the
  server's transaction time.  Whether the connection holds is an argument of every call
  (\<open>net\<close>): a lost connection reports an error either before or after the statement took effect.
\<close>

section \<open>Rows (\<open>queries/models.go\<close>)\<close>

record User =
  u_id :: int
  u_username :: string
  u_email :: string
  u_password_hash :: string
  u_created :: time

record Channel =
  c_id :: int
  c_user_id :: int
  c_name :: string
  c_title :: string
  c_key_hash :: string
  c_created :: time

record Session =
  s_id :: string
  s_user_id :: int
  s_expires :: time
  s_created :: time

record StreamSession =
  ss_id :: int
  ss_channel_id :: int
  ss_started :: time
  ss_ended :: "time option"
  ss_reason :: "string option"

record db =
  users :: "User list"
  channels :: "Channel list"
  sessions :: "Session list"
  stream_sessions :: "StreamSession list"
  seq_users :: int
  seq_channels :: int
  seq_stream :: int

definition emptyDB :: db where
  "emptyDB = \<lparr>users = [], channels = [], sessions = [], stream_sessions = [],
     seq_users = 1, seq_channels = 1, seq_stream = 1\<rparr>"

section \<open>Outcomes\<close>

datatype db_error =
    ErrNoRows
  | UniqueViolation string
  | ForeignKeyViolation string
  | CheckViolation
  | BadEncoding
  | ConnError

datatype net = NetOk | LostBefore | LostAfter

type_synonym 'a query = "db \<Rightarrow> (db_error + 'a) \<times> db"

definition stmt :: "net \<Rightarrow> 'a query \<Rightarrow> 'a query" where
  "stmt n f d =
     (case n of NetOk \<Rightarrow> f d | LostBefore \<Rightarrow> (Inl ConnError, d) | LostAfter \<Rightarrow> (Inl ConnError, snd (f d)))"

text \<open>A \<open>text\<close> value must be valid UTF-8 without the zero byte; \<open>timestamptz\<close> keeps microseconds.\<close>

definition text_ok :: "string \<Rightarrow> bool" where
  "text_ok s \<longleftrightarrow> validString s \<and> CHR 0x00 \<notin> set s"

definition to_ts :: "time \<Rightarrow> time" where
  "to_ts t = t div 1000 * 1000"

definition one_row :: "'a option \<Rightarrow> db_error + 'a" where
  "one_row r = (case r of None \<Rightarrow> Inl ErrNoRows | Some x \<Rightarrow> Inr x)"

section \<open>Users (\<open>users.sql.go\<close>)\<close>

definition q_createUser :: "string \<Rightarrow> string \<Rightarrow> string \<Rightarrow> time \<Rightarrow> User query" where
  "q_createUser uname email ph now d =
     (if \<not> (text_ok uname \<and> text_ok email \<and> text_ok ph) then (Inl BadEncoding, d)
      else
        (let u = \<lparr>u_id = seq_users d, u_username = uname, u_email = email, u_password_hash = ph,
                  u_created = to_ts now\<rparr>;
             d1 = d\<lparr>seq_users := seq_users d + 1\<rparr>
         in if u_id u \<in> u_id ` set (users d) then (Inl (UniqueViolation ''users_pkey''), d1)
            else if uname \<in> u_username ` set (users d) then (Inl (UniqueViolation ''users_username_key''), d1)
            else if email \<in> u_email ` set (users d) then (Inl (UniqueViolation ''users_email_key''), d1)
            else (Inr u, d1\<lparr>users := users d @ [u]\<rparr>)))"

definition q_getUserByID :: "int \<Rightarrow> User query" where
  "q_getUserByID i d = (one_row (find (\<lambda>u. u_id u = i) (users d)), d)"

definition q_getUserByUsername :: "string \<Rightarrow> User query" where
  "q_getUserByUsername uname d =
     (if \<not> text_ok uname then (Inl BadEncoding, d)
      else (one_row (find (\<lambda>u. u_username u = uname) (users d)), d))"

section \<open>Channels (\<open>channels.sql.go\<close>)\<close>

definition q_createChannel :: "int \<Rightarrow> string \<Rightarrow> string \<Rightarrow> time \<Rightarrow> Channel query" where
  "q_createChannel uid nm kh now d =
     (if \<not> (text_ok nm \<and> text_ok kh) then (Inl BadEncoding, d)
      else
        (let c = \<lparr>c_id = seq_channels d, c_user_id = uid, c_name = nm, c_title = '''', c_key_hash = kh,
                  c_created = to_ts now\<rparr>;
             d1 = d\<lparr>seq_channels := seq_channels d + 1\<rparr>
         in if c_id c \<in> c_id ` set (channels d) then (Inl (UniqueViolation ''channels_pkey''), d1)
            else if uid \<in> c_user_id ` set (channels d) then (Inl (UniqueViolation ''channels_user_id_key''), d1)
            else if nm \<in> c_name ` set (channels d) then (Inl (UniqueViolation ''channels_name_key''), d1)
            else if uid \<notin> u_id ` set (users d) then (Inl (ForeignKeyViolation ''channels_user_id_fkey''), d1)
            else (Inr c, d1\<lparr>channels := channels d @ [c]\<rparr>)))"

definition q_getChannelByName :: "string \<Rightarrow> Channel query" where
  "q_getChannelByName nm d =
     (if \<not> text_ok nm then (Inl BadEncoding, d)
      else (one_row (find (\<lambda>c. c_name c = nm) (channels d)), d))"

definition q_getChannelByStreamKeyHash :: "string \<Rightarrow> Channel query" where
  "q_getChannelByStreamKeyHash kh d =
     (if \<not> text_ok kh then (Inl BadEncoding, d)
      else (one_row (find (\<lambda>c. c_key_hash c = kh) (channels d)), d))"

definition q_getChannelByUserID :: "int \<Rightarrow> Channel query" where
  "q_getChannelByUserID uid d = (one_row (find (\<lambda>c. c_user_id c = uid) (channels d)), d)"

definition q_updateChannelStreamKey :: "int \<Rightarrow> string \<Rightarrow> unit query" where
  "q_updateChannelStreamKey i kh d =
     (if \<not> text_ok kh then (Inl BadEncoding, d)
      else (Inr (), d\<lparr>channels := map (\<lambda>c. if c_id c = i then c\<lparr>c_key_hash := kh\<rparr> else c) (channels d)\<rparr>))"

definition q_updateChannelTitle :: "int \<Rightarrow> string \<Rightarrow> unit query" where
  "q_updateChannelTitle i t d =
     (if \<not> text_ok t then (Inl BadEncoding, d)
      else (Inr (), d\<lparr>channels := map (\<lambda>c. if c_id c = i then c\<lparr>c_title := t\<rparr> else c) (channels d)\<rparr>))"

section \<open>Login sessions (\<open>sessions.sql.go\<close>)\<close>

definition q_createSession :: "string \<Rightarrow> int \<Rightarrow> time \<Rightarrow> time \<Rightarrow> Session query" where
  "q_createSession i uid expires now d =
     (if \<not> text_ok i then (Inl BadEncoding, d)
      else if i \<in> s_id ` set (sessions d) then (Inl (UniqueViolation ''sessions_pkey''), d)
      else if uid \<notin> u_id ` set (users d) then (Inl (ForeignKeyViolation ''sessions_user_id_fkey''), d)
      else
        (let s = \<lparr>s_id = i, s_user_id = uid, s_expires = to_ts expires, s_created = to_ts now\<rparr>
         in (Inr s, d\<lparr>sessions := sessions d @ [s]\<rparr>)))"

definition q_deleteExpiredSessions :: "time \<Rightarrow> unit query" where
  "q_deleteExpiredSessions now d =
     (Inr (), d\<lparr>sessions := filter (\<lambda>s. \<not> s_expires s \<le> to_ts now) (sessions d)\<rparr>)"

definition q_deleteSession :: "string \<Rightarrow> unit query" where
  "q_deleteSession i d =
     (if \<not> text_ok i then (Inl BadEncoding, d)
      else (Inr (), d\<lparr>sessions := filter (\<lambda>s. s_id s \<noteq> i) (sessions d)\<rparr>))"

record GetSessionWithUserRow =
  row_session :: Session
  row_user :: User

fun join_rows :: "Session list \<Rightarrow> User list \<Rightarrow> GetSessionWithUserRow list" where
  "join_rows [] us = []"
| "join_rows (s # ss) us =
     map (\<lambda>u. \<lparr>row_session = s, row_user = u\<rparr>) (filter (\<lambda>u. u_id u = s_user_id s) us) @ join_rows ss us"

definition q_getSessionWithUser :: "string \<Rightarrow> time \<Rightarrow> GetSessionWithUserRow query" where
  "q_getSessionWithUser i now d =
     (if \<not> text_ok i then (Inl BadEncoding, d)
      else (one_row (find (\<lambda>r. s_id (row_session r) = i \<and> to_ts now < s_expires (row_session r))
                      (join_rows (sessions d) (users d))), d))"

section \<open>Stream sessions (\<open>stream_sessions.sql.go\<close>)\<close>

definition end_reasons :: "string list" where
  "end_reasons = [''normal'', ''crashed'', ''orphan_swept'']"

definition q_createStreamSession :: "int \<Rightarrow> time \<Rightarrow> StreamSession query" where
  "q_createStreamSession cid started d =
     (let s = \<lparr>ss_id = seq_stream d, ss_channel_id = cid, ss_started = to_ts started, ss_ended = None,
               ss_reason = None\<rparr>;
          d1 = d\<lparr>seq_stream := seq_stream d + 1\<rparr>
      in if ss_id s \<in> ss_id ` set (stream_sessions d) then (Inl (UniqueViolation ''stream_sessions_pkey''), d1)
         else if cid \<notin> c_id ` set (channels d) then (Inl (ForeignKeyViolation ''stream_sessions_channel_id_fkey''), d1)
         else (Inr s, d1\<lparr>stream_sessions := stream_sessions d @ [s]\<rparr>))"

definition q_endStreamSession :: "int \<Rightarrow> time \<Rightarrow> string \<Rightarrow> unit query" where
  "q_endStreamSession i ended reason d =
     (if \<not> text_ok reason then (Inl BadEncoding, d)
      else
        (let hit = (\<lambda>s. ss_id s = i \<and> ss_ended s = None)
         in if reason \<notin> set end_reasons \<and> (\<exists>s\<in>set (stream_sessions d). hit s) then (Inl CheckViolation, d)
            else (Inr (), d\<lparr>stream_sessions :=
                    map (\<lambda>s. if hit s then s\<lparr>ss_ended := Some (to_ts ended), ss_reason := Some reason\<rparr> else s)
                      (stream_sessions d)\<rparr>)))"

definition q_markOpenStreamSessionsOrphaned :: "time \<Rightarrow> unit query" where
  "q_markOpenStreamSessionsOrphaned now d =
     (Inr (), d\<lparr>stream_sessions :=
        map (\<lambda>s. if ss_ended s = None then s\<lparr>ss_ended := Some (to_ts now), ss_reason := Some ''orphan_swept''\<rparr> else s)
          (stream_sessions d)\<rparr>)"

section \<open>Transactions\<close>

text \<open>
  A transaction works on its own copy; a rollback restores the tables and keeps the sequences.
  A commit can fail with the transaction undone, or be applied although its acknowledgement
  is lost.
\<close>

datatype commit = CommitOk | CommitFailed | CommitAckLost

definition rollback :: "db \<Rightarrow> db \<Rightarrow> db" where
  "rollback d0 d1 = d0\<lparr>seq_users := seq_users d1, seq_channels := seq_channels d1, seq_stream := seq_stream d1\<rparr>"

section \<open>Connection (\<open>store.go\<close>, \<open>migrate.go\<close>)\<close>

fun trimPrefix_loop :: "string list \<Rightarrow> string \<Rightarrow> string" where
  "trimPrefix_loop [] dsn = dsn"
| "trimPrefix_loop (p # ps) dsn =
     (if length p \<le> length dsn \<and> take (length p) dsn = p then drop (length p) dsn
      else trimPrefix_loop ps dsn)"

definition trimPrefix :: "string \<Rightarrow> string" where
  "trimPrefix dsn = trimPrefix_loop [''postgres://'', ''postgresql://''] dsn"

datatype migrate_error = MigrateSource | MigrateNew | MigrateUp

text \<open>
  \<open>Migrate\<close>: \<open>srcOk\<close>, \<open>newOk\<close> and \<open>up\<close> are the outcomes of the migration library; the result
  carries the URL it is given.
\<close>

datatype up_result = UpDone | UpNoChange | UpFailed

definition Migrate :: "bool \<Rightarrow> (string \<Rightarrow> bool) \<Rightarrow> up_result \<Rightarrow> string \<Rightarrow> migrate_error + string" where
  "Migrate srcOk newOk up dsn =
     (if \<not> srcOk then Inl MigrateSource
      else
        (let url = ''pgx5://'' @ trimPrefix dsn in
         if \<not> newOk url then Inl MigrateNew
         else if up = UpFailed then Inl MigrateUp
         else Inr url))"

text \<open>
  \<open>Open\<close>: the flag of the result says whether a connection pool is left open behind it; a
  failed ping closes the pool again.
\<close>

datatype open_error = PoolNew | PingFailed

definition store_Open :: "bool \<Rightarrow> bool \<Rightarrow> (open_error + unit) \<times> bool" where
  "store_Open newOk pingOk =
     (if \<not> newOk then (Inl PoolNew, False)
      else if \<not> pingOk then (Inl PingFailed, False)
      else (Inr (), True))"

text \<open>\<open>Close\<close> closes the pool.\<close>

definition store_Close :: "bool \<Rightarrow> bool" where
  "store_Close pool = False"

section \<open>Integrity\<close>

definition db_inv :: "db \<Rightarrow> bool" where
  "db_inv d \<longleftrightarrow>
     distinct (map u_id (users d)) \<and> distinct (map u_username (users d)) \<and> distinct (map u_email (users d)) \<and>
     (\<forall>u\<in>set (users d). u_id u < seq_users d) \<and>
     distinct (map c_id (channels d)) \<and> distinct (map c_user_id (channels d)) \<and> distinct (map c_name (channels d)) \<and>
     (\<forall>c\<in>set (channels d). c_id c < seq_channels d \<and> c_user_id c \<in> u_id ` set (users d)) \<and>
     distinct (map s_id (sessions d)) \<and> (\<forall>s\<in>set (sessions d). s_user_id s \<in> u_id ` set (users d)) \<and>
     distinct (map ss_id (stream_sessions d)) \<and>
     (\<forall>s\<in>set (stream_sessions d). ss_id s < seq_stream d \<and> ss_channel_id s \<in> c_id ` set (channels d) \<and>
        (case ss_reason s of None \<Rightarrow> ss_ended s = None | Some r \<Rightarrow> ss_ended s \<noteq> None \<and> r \<in> set end_reasons))"

named_theorems query_inv \<open>the queries keep the integrity of the database\<close>

lemma db_inv_empty [simp]: "db_inv emptyDB"
  by (simp add: db_inv_def emptyDB_def)

lemma stmt_inv [query_inv]: "db_inv d \<Longrightarrow> (db_inv d \<Longrightarrow> db_inv (snd (f d))) \<Longrightarrow> db_inv (snd (stmt n f d))"
  by (cases n) (simp_all add: stmt_def)

lemma seq_mono_inv:
  "db_inv d \<Longrightarrow> seq_users d \<le> a \<Longrightarrow> seq_channels d \<le> b \<Longrightarrow> seq_stream d \<le> c \<Longrightarrow>
   db_inv (d\<lparr>seq_users := a, seq_channels := b, seq_stream := c\<rparr>)"
  by (fastforce simp: db_inv_def)

lemma seq_step_inv:
  "db_inv d \<Longrightarrow> db_inv (d\<lparr>seq_users := seq_users d + 1\<rparr>)"
  "db_inv d \<Longrightarrow> db_inv (d\<lparr>seq_channels := seq_channels d + 1\<rparr>)"
  "db_inv d \<Longrightarrow> db_inv (d\<lparr>seq_stream := seq_stream d + 1\<rparr>)"
  by (fastforce simp: db_inv_def)+

lemma createUser_inv [query_inv]: "db_inv d \<Longrightarrow> db_inv (snd (q_createUser un em ph now d))"
  using seq_step_inv(1) [of d] by (auto simp: q_createUser_def Let_def) (auto simp: db_inv_def)

lemma createChannel_inv [query_inv]: "db_inv d \<Longrightarrow> db_inv (snd (q_createChannel uid nm kh now d))"
  using seq_step_inv(2) [of d] by (auto simp: q_createChannel_def Let_def) (auto simp: db_inv_def split: option.splits)

lemma channels_update_inv:
  assumes "db_inv d" "\<And>c. c_id (g c) = c_id c" "\<And>c. c_user_id (g c) = c_user_id c" "\<And>c. c_name (g c) = c_name c"
  shows "db_inv (d\<lparr>channels := map g (channels d)\<rparr>)"
proof -
  have "c_id \<circ> g = c_id" "c_user_id \<circ> g = c_user_id" "c_name \<circ> g = c_name" using assms by (simp_all add: fun_eq_iff)
  then show ?thesis using assms by (auto simp: db_inv_def image_comp)
qed

lemma updateChannel_inv [query_inv]:
  "db_inv d \<Longrightarrow> db_inv (snd (q_updateChannelStreamKey i kh d))"
  "db_inv d \<Longrightarrow> db_inv (snd (q_updateChannelTitle i t d))"
  by (auto simp: q_updateChannelStreamKey_def q_updateChannelTitle_def intro!: channels_update_inv)

lemma createSession_inv [query_inv]: "db_inv d \<Longrightarrow> db_inv (snd (q_createSession i uid ex now d))"
  by (auto simp: q_createSession_def db_inv_def Let_def)

lemma sessions_filter_inv: "db_inv d \<Longrightarrow> db_inv (d\<lparr>sessions := filter P (sessions d)\<rparr>)"
  by (auto simp: db_inv_def distinct_map_filter)

lemma deleteSession_inv [query_inv]:
  "db_inv d \<Longrightarrow> db_inv (snd (q_deleteSession i d))"
  "db_inv d \<Longrightarrow> db_inv (snd (q_deleteExpiredSessions now d))"
  by (auto simp: q_deleteSession_def q_deleteExpiredSessions_def sessions_filter_inv)

lemma createStreamSession_inv [query_inv]: "db_inv d \<Longrightarrow> db_inv (snd (q_createStreamSession cid st d))"
  using seq_step_inv(3) [of d] by (auto simp: q_createStreamSession_def Let_def) (auto simp: db_inv_def split: option.splits)

lemma streams_update_inv:
  assumes "db_inv d" "\<And>s. ss_id (g s) = ss_id s" "\<And>s. ss_channel_id (g s) = ss_channel_id s"
    and "\<And>s. g s = s \<or> (\<exists>t r. ss_ended (g s) = Some t \<and> ss_reason (g s) = Some r \<and> r \<in> set end_reasons)"
  shows "db_inv (d\<lparr>stream_sessions := map g (stream_sessions d)\<rparr>)"
proof -
  have "ss_id \<circ> g = ss_id" using assms by (simp add: fun_eq_iff)
  moreover have "case ss_reason (g s) of None \<Rightarrow> ss_ended (g s) = None | Some r \<Rightarrow> ss_ended (g s) \<noteq> None \<and> r \<in> set end_reasons"
    if "s \<in> set (stream_sessions d)" for s
    using assms(4) [of s] assms(1) that by (auto simp: db_inv_def split: option.splits)
  ultimately show ?thesis using assms(1-3) by (simp add: db_inv_def)
qed

lemma endStreamSession_inv [query_inv]: "db_inv d \<Longrightarrow> db_inv (snd (q_endStreamSession i t r d))"
proof -
  assume d: "db_inv d"
  define g where "g = (\<lambda>s :: StreamSession. if ss_id s = i \<and> ss_ended s = None then s\<lparr>ss_ended := Some (to_ts t), ss_reason := Some r\<rparr> else s)"
  show ?thesis
  proof (cases "text_ok r \<and> r \<in> set end_reasons")
    case True
    then have "db_inv (d\<lparr>stream_sessions := map g (stream_sessions d)\<rparr>)"
      using d by (intro streams_update_inv) (simp_all add: g_def)
    then show ?thesis using True by (simp add: q_endStreamSession_def g_def)
  next
    case False
    have "map g (stream_sessions d) = stream_sessions d"
      if "\<not> (\<exists>s\<in>set (stream_sessions d). ss_id s = i \<and> ss_ended s = None)"
      using that by (intro map_idI) (auto simp: g_def)
    then show ?thesis using d False by (auto simp: q_endStreamSession_def Let_def simp flip: g_def)
  qed
qed

lemma markOrphaned_inv [query_inv]: "db_inv d \<Longrightarrow> db_inv (snd (q_markOpenStreamSessionsOrphaned now d))"
  by (auto simp: q_markOpenStreamSessionsOrphaned_def end_reasons_def intro!: streams_update_inv)

lemma rollback_inv [query_inv]:
  "db_inv d0 \<Longrightarrow> seq_users d0 \<le> seq_users d1 \<Longrightarrow> seq_channels d0 \<le> seq_channels d1 \<Longrightarrow>
   seq_stream d0 \<le> seq_stream d1 \<Longrightarrow> db_inv (rollback d0 d1)"
  unfolding rollback_def by (rule seq_mono_inv)

end
