(* ===== verification/Templates.thy ===== *)
theory Templates
  imports Http Store
begin

text \<open>
  \<open>internal/web/templates.go\<close>: the pages with the data each of them receives, loading, and
  rendering through the base layout.  A rendered page is represented by its name's data and the
  user of the request; the HTML text is not (nor the fixed lead sentence of the key page).
\<close>

section \<open>Pages\<close>

record signupFormData =
  sf_username :: string
  sf_email :: string
  sf_error :: string

record loginFormData =
  lf_username :: string
  lf_error :: string

record keyShown =
  ks_heading :: string
  ks_plain :: string
  ks_cta :: string
  ks_href :: string

record liveCard =
  lcd_name :: string
  lcd_title :: string
  lcd_viewers :: int

record watchData =
  wd_name :: string
  wd_title :: string
  wd_live :: bool

datatype page =
    PgHome "liveCard list"
  | PgSignup signupFormData
  | PgLogin loginFormData
  | PgDashboard Channel
  | PgKeyShown keyShown
  | PgWatch watchData

fun page_name :: "page \<Rightarrow> string" where
  "page_name (PgHome _) = ''home''"
| "page_name (PgSignup _) = ''signup''"
| "page_name (PgLogin _) = ''login''"
| "page_name (PgDashboard _) = ''dashboard''"
| "page_name (PgKeyShown _) = ''key_shown''"
| "page_name (PgWatch _) = ''watch''"

datatype body =
    BText string
  | BPage "User option" page
  | BUpgrade string string int string
  | BFile "string list"
  | BPanic

type_synonym web_request = "User request"
type_synonym web_response = "body response"

section \<open>Loading and rendering\<close>

definition pageNames :: "string list" where
  "pageNames = [''home'', ''signup'', ''login'', ''dashboard'', ''key_shown'', ''watch'']"

fun load_loop :: "(string \<Rightarrow> bool) \<Rightarrow> string list \<Rightarrow> string list \<Rightarrow> string + string list" where
  "load_loop parses [] pages = Inr pages"
| "load_loop parses (nm # nms) pages =
     (if \<not> parses nm then Inl nm else load_loop parses nms (pages @ [nm]))"

definition LoadTemplates :: "(string \<Rightarrow> bool) \<Rightarrow> string + string list" where
  "LoadTemplates parses = load_loop parses pageNames []"

text \<open>The flag of the result is the error \<open>unknown template\<close>, which every handler ignores.\<close>

definition Render :: "string list \<Rightarrow> web_request \<Rightarrow> page \<Rightarrow> web_response \<Rightarrow> bool \<times> web_response" where
  "Render pages r pg w =
     (if page_name pg \<notin> set pages then (True, w)
      else (False, w_Write (BPage (rq_user r) pg) (setHeader (ContentType ''text/html; charset=utf-8'') w)))"

lemma load_loop_all: "load_loop parses nms pages = Inr t \<Longrightarrow> t = pages @ nms"
proof (induction nms arbitrary: pages)
  case (Cons nm nms)
  then have "load_loop parses nms (pages @ [nm]) = Inr t" by (simp split: if_splits)
  from Cons.IH [OF this] show ?case by simp
qed simp

text \<open>Loaded templates render every page the handlers ask for.\<close>

lemma Render_known: "LoadTemplates parses = Inr t \<Longrightarrow> \<not> fst (Render t r pg w)"
  using load_loop_all [of parses pageNames "[]" t] by (cases pg) (auto simp: LoadTemplates_def Render_def pageNames_def)

end
