(* ===== verification/Encoding.thy ===== *)
theory Encoding
  imports Prelude "HOL-Library.Word"
begin

unbundle bit_operations_syntax

text \<open>
  The standard-library encodings the sources use: \<open>base64.RawURLEncoding\<close> (URL-safe alphabet, no
  padding) and \<open>crypto/sha256\<close>.  Both are executable definitions; base64 is proved injective and
  ASCII, so distinct random buffers give distinct tokens that are valid cookie and text values.
\<close>

section \<open>Base64, URL alphabet, no padding\<close>

definition b64_alphabet :: string where
  "b64_alphabet = ''ABCDEFGHIJKLMNOPQRSTUVWXYZabcdefghijklmnopqrstuvwxyz0123456789-_''"

definition b64_char :: "nat \<Rightarrow> char" where
  "b64_char i = b64_alphabet ! i"

fun b64url :: "bytes \<Rightarrow> string" where
  "b64url [] = []"
| "b64url [a] = [b64_char (of_char a div 4), b64_char ((of_char a mod 4) * 16)]"
| "b64url [a, b] =
     [b64_char (of_char a div 4), b64_char ((of_char a mod 4) * 16 + of_char b div 16),
      b64_char ((of_char b mod 16) * 4)]"
| "b64url (a # b # c # r) =
     [b64_char (of_char a div 4), b64_char ((of_char a mod 4) * 16 + of_char b div 16),
      b64_char ((of_char b mod 16) * 4 + of_char c div 64), b64_char (of_char c mod 64)] @ b64url r"

section \<open>SHA-256\<close>

text \<open>
  The constants are the first 32 fractional bits of the square roots (initial state) and cube
  roots (round constants) of the first primes; \<open>root_bits\<close> finds an integer root bit by bit.
\<close>

fun root_bits :: "nat \<Rightarrow> int \<Rightarrow> nat \<Rightarrow> int \<Rightarrow> int" where
  "root_bits k n 0 r = r"
| "root_bits k n (Suc b) r = root_bits k n b (if (r + 2 ^ b) ^ k \<le> n then r + 2 ^ b else r)"

definition root_fraction :: "nat \<Rightarrow> int \<Rightarrow> 32 word" where
  "root_fraction k p = of_int (root_bits k (p * 2 ^ (32 * k)) 37 0)"

definition sha_primes :: "int list" where
  "sha_primes =
     [2, 3, 5, 7, 11, 13, 17, 19, 23, 29, 31, 37, 41, 43, 47, 53, 59, 61, 67, 71, 73, 79, 83, 89, 97, 101, 103,
      107, 109, 113, 127, 131, 137, 139, 149, 151, 157, 163, 167, 173, 179, 181, 191, 193, 197, 199, 211, 223,
      227, 229, 233, 239, 241, 251, 257, 263, 269, 271, 277, 281, 283, 293, 307, 311]"

definition sha_K :: "32 word list" where
  "sha_K = map (root_fraction 3) sha_primes"

definition sha_H0 :: "32 word list" where
  "sha_H0 = map (root_fraction 2) (take 8 sha_primes)"

definition be_bytes :: "nat \<Rightarrow> nat \<Rightarrow> bytes" where
  "be_bytes k n = map (\<lambda>i. char_of (n div 256 ^ (k - 1 - i))) [0..<k]"

definition be_word :: "bytes \<Rightarrow> 32 word" where
  "be_word bs = of_nat (foldl (\<lambda>n b. n * 256 + of_char b) 0 bs)"

definition sha_pad :: "bytes \<Rightarrow> bytes" where
  "sha_pad m =
     m @ char_of (128 :: nat) # replicate ((119 - length m mod 64) mod 64) (char_of (0 :: nat))
       @ be_bytes 8 (8 * length m)"

fun chunks :: "nat \<Rightarrow> nat \<Rightarrow> 'a list \<Rightarrow> 'a list list" where
  "chunks k 0 xs = []"
| "chunks k (Suc n) xs = take k xs # chunks k n (drop k xs)"

definition sigma0 :: "32 word \<Rightarrow> 32 word" where
  "sigma0 x = xor (xor (word_rotr 7 x) (word_rotr 18 x)) (drop_bit 3 x)"

definition sigma1 :: "32 word \<Rightarrow> 32 word" where
  "sigma1 x = xor (xor (word_rotr 17 x) (word_rotr 19 x)) (drop_bit 10 x)"

definition Sigma0 :: "32 word \<Rightarrow> 32 word" where
  "Sigma0 x = xor (xor (word_rotr 2 x) (word_rotr 13 x)) (word_rotr 22 x)"

definition Sigma1 :: "32 word \<Rightarrow> 32 word" where
  "Sigma1 x = xor (xor (word_rotr 6 x) (word_rotr 11 x)) (word_rotr 25 x)"

fun sha_schedule :: "nat \<Rightarrow> 32 word list \<Rightarrow> 32 word list" where
  "sha_schedule 0 w = w"
| "sha_schedule (Suc n) w =
     (let t = length w
      in sha_schedule n (w @ [sigma1 (w ! (t - 2)) + w ! (t - 7) + sigma0 (w ! (t - 15)) + w ! (t - 16)]))"

fun sha_round :: "32 word list \<Rightarrow> 32 word \<times> 32 word \<Rightarrow> 32 word list" where
  "sha_round [a, b, c, d, e, f, g, h] (k, w) =
     (let t1 = h + Sigma1 e + xor (and e f) (and (not e) g) + k + w;
          t2 = Sigma0 a + xor (xor (and a b) (and a c)) (and b c)
      in [t1 + t2, a, b, c, d + t1, e, f, g])"
| "sha_round s _ = s"

definition sha_block :: "32 word list \<Rightarrow> bytes \<Rightarrow> 32 word list" where
  "sha_block hs blk =
     (let w = sha_schedule 48 (map be_word (chunks 4 16 blk))
      in map2 (+) hs (foldl sha_round hs (zip sha_K w)))"

definition sha256 :: "bytes \<Rightarrow> bytes" where
  "sha256 m =
     (let p = sha_pad m; hs = foldl sha_block sha_H0 (chunks 64 (length p div 64) p)
      in concat (map (\<lambda>h. be_bytes 4 (unat h)) hs))"

section \<open>Lemmas\<close>

lemma b64_alphabet_length: "length b64_alphabet = 64"
  by (simp add: b64_alphabet_def)

lemma b64_alphabet_distinct: "distinct b64_alphabet"
  by (simp add: b64_alphabet_def)

lemma b64_char_inj: "i < 64 \<Longrightarrow> j < 64 \<Longrightarrow> b64_char i = b64_char j \<longleftrightarrow> i = j"
  using b64_alphabet_distinct b64_alphabet_length by (simp add: b64_char_def nth_eq_iff_index_eq)

lemma of_char_less: "(of_char c :: nat) < 256"
  by (metis nat_of_char_less_256)

lemma six_bits [simp]:
  "of_char a div 4 < (64 :: nat)" "(of_char a mod 4) * 16 < (64 :: nat)"
  "(of_char a mod 4) * 16 + of_char b div 16 < (64 :: nat)" "(of_char b mod 16) * 4 < (64 :: nat)"
  "(of_char b mod 16) * 4 + of_char c div 64 < (64 :: nat)" "of_char c mod 64 < (64 :: nat)"
  using of_char_less [of a] of_char_less [of b] of_char_less [of c] by linarith+

lemma same_char: "(of_char a :: nat) = of_char b \<Longrightarrow> a = b"
  by simp

lemma b64url_length: "length (b64url s) = (4 * length s + 2) div 3"
  by (induction s rule: b64url.induct) simp_all

lemma b64url_alphabet: "set (b64url s) \<subseteq> set b64_alphabet"
  by (induction s rule: b64url.induct)
     (simp_all add: b64_char_def b64_alphabet_length)

lemma b64_alphabet_ascii: "c \<in> set b64_alphabet \<Longrightarrow> 33 \<le> (of_char c :: nat) \<and> (of_char c :: nat) < 127"
  by (auto simp: b64_alphabet_def)

lemma b64url_ascii: "c \<in> set (b64url s) \<Longrightarrow> 33 \<le> (of_char c :: nat) \<and> (of_char c :: nat) < 127"
  using b64url_alphabet b64_alphabet_ascii by blast

lemma digits_inj:
  assumes "a div 4 = a' div 4" "(a mod 4) * 16 + b div 16 = (a' mod 4) * 16 + b' div 16" "b < 256" "b' < (256 :: nat)"
  shows "a = a' \<and> b div 16 = b' div 16"
proof -
  have "b div 16 < 16" "b' div 16 < 16" using assms(3,4) by auto
  then have "a mod 4 = a' mod 4" using assms(2) by linarith
  moreover from this have "b div 16 = b' div 16" using assms(2) by simp
  ultimately show ?thesis using assms(1) by (metis div_mult_mod_eq)
qed

lemma digits_inj2:
  assumes "b div 16 = b' div 16" "(b mod 16) * 4 + c div 64 = (b' mod 16) * 4 + c' div 64" "c mod 64 = c' mod 64"
    "c < 256" "c' < (256 :: nat)"
  shows "b = b' \<and> c = c'"
proof -
  have "c div 64 < 4" "c' div 64 < 4" using assms(4,5) by auto
  then have "b mod 16 = b' mod 16" using assms(2) by linarith
  moreover from this have "c div 64 = c' div 64" using assms(2) by simp
  ultimately show ?thesis using assms(1,3) by (metis div_mult_mod_eq)
qed

lemma b64_group3:
  assumes "b64url (a # b # c # r) = b64url (a' # b' # c' # r')"
  shows "a = a' \<and> b = b' \<and> c = c' \<and> b64url r = b64url r'"
proof -
  have e: "of_char a div 4 = (of_char a' div 4 :: nat)"
    "(of_char a mod 4) * 16 + of_char b div 16 = ((of_char a' mod 4) * 16 + of_char b' div 16 :: nat)"
    "(of_char b mod 16) * 4 + of_char c div 64 = ((of_char b' mod 16) * 4 + of_char c' div 64 :: nat)"
    "of_char c mod 64 = (of_char c' mod 64 :: nat)"
    and r: "b64url r = b64url r'"
    using assms by (simp_all add: b64_char_inj)
  from digits_inj [OF e(1,2)] have ab: "(of_char a :: nat) = of_char a'" "of_char b div 16 = (of_char b' div 16 :: nat)" by simp_all
  from digits_inj2 [OF ab(2) e(3,4)] have "(of_char b :: nat) = of_char b'" "(of_char c :: nat) = of_char c'" by simp_all
  with ab(1) r show ?thesis by simp
qed

lemma b64url_inj: "length s = length t \<Longrightarrow> b64url s = b64url t \<Longrightarrow> s = t"
proof (induction s arbitrary: t rule: b64url.induct)
  case (2 a)
  then obtain a' where t: "t = [a']" by (cases t) auto
  have "of_char a div 4 = (of_char a' div 4 :: nat)" "(of_char a mod 4) * 16 = ((of_char a' mod 4) * 16 :: nat)"
    using 2 by (simp_all add: t b64_char_inj)
  then have "(of_char a :: nat) = of_char a'" by (metis div_mult_mod_eq mult_right_cancel zero_neq_numeral)
  then show ?case by (simp add: t)
next
  case (3 a b)
  then obtain a' b' where t: "t = [a', b']" by (cases t rule: b64url.cases) auto
  have e: "of_char a div 4 = (of_char a' div 4 :: nat)"
    "(of_char a mod 4) * 16 + of_char b div 16 = ((of_char a' mod 4) * 16 + of_char b' div 16 :: nat)"
    "(of_char b mod 16) * 4 = ((of_char b' mod 16) * 4 :: nat)"
    using 3 by (simp_all add: t b64_char_inj)
  from digits_inj [OF e(1,2)] have ab: "(of_char a :: nat) = of_char a'" "of_char b div 16 = (of_char b' div 16 :: nat)" by simp_all
  then have "(of_char b :: nat) = of_char b'" using e(3) by (metis div_mult_mod_eq mult_right_cancel zero_neq_numeral)
  with ab(1) show ?case by (simp add: t)
next
  case (4 a b c r)
  then obtain a' b' c' r' where t: "t = a' # b' # c' # r'" by (cases t rule: b64url.cases) auto
  from b64_group3 [OF 4(3) [unfolded t]] 4 show ?case by (simp add: t)
qed simp

lemma length_be_bytes [simp]: "length (be_bytes k n) = k"
  by (simp add: be_bytes_def)

lemma length_sha_round [simp]: "length (sha_round s x) = length s"
  by (induction s x rule: sha_round.induct) (simp_all add: Let_def)

lemma length_foldl_sha_round [simp]: "length (foldl sha_round s xs) = length s"
  by (induction xs arbitrary: s) simp_all

lemma length_sha_block [simp]: "length (sha_block hs blk) = length hs"
  by (simp add: sha_block_def Let_def)

lemma length_foldl_sha_block [simp]: "length (foldl sha_block hs bs) = length hs"
  by (induction bs arbitrary: hs) simp_all

lemma length_sha256: "length (sha256 m) = 32"
proof -
  have "length (concat (map (\<lambda>h. be_bytes 4 (unat h)) hs)) = 4 * length hs" for hs :: "32 word list"
    by (induction hs) simp_all
  then show ?thesis by (simp add: sha256_def Let_def sha_H0_def sha_primes_def)
qed

end
