(* ===== verification/Streamkey.thy ===== *)
theory Streamkey
  imports Encoding
begin

text \<open>
  \<open>internal/stream/streamkey.go\<close>: stream keys and their hashes.  The random bytes are an argument
  (\<open>None\<close> is a failure of the random source).
\<close>

definition streamKeyPrefix :: string where
  "streamKeyPrefix = ''live_''"

definition HashKey :: "string \<Rightarrow> string" where
  "HashKey plain = b64url (sha256 plain)"

definition GenerateKey :: "bytes option \<Rightarrow> (string \<times> string) option" where
  "GenerateKey rnd =
     (case rnd of
        None \<Rightarrow> None
      | Some buf \<Rightarrow> (let plain = streamKeyPrefix @ b64url buf in Some (plain, HashKey plain)))"

definition VerifyKey :: "string \<Rightarrow> string \<Rightarrow> bool" where
  "VerifyKey plain hash \<longleftrightarrow> HashKey plain = hash"

lemma HashKey_length: "length (HashKey plain) = 43"
  by (simp add: HashKey_def b64url_length length_sha256)

lemma HashKey_ascii: "c \<in> set (HashKey plain) \<Longrightarrow> 33 \<le> (of_char c :: nat) \<and> (of_char c :: nat) < 127"
  unfolding HashKey_def by (rule b64url_ascii)

lemma GenerateKey_length: "GenerateKey (Some buf) = Some (plain, h) \<Longrightarrow> length buf = 32 \<Longrightarrow> length plain = 48"
  by (auto simp: GenerateKey_def Let_def streamKeyPrefix_def b64url_length)

lemma GenerateKey_ascii:
  "GenerateKey (Some buf) = Some (plain, h) \<Longrightarrow> c \<in> set plain \<Longrightarrow> 33 \<le> (of_char c :: nat) \<and> (of_char c :: nat) < 127"
  using b64url_ascii [of c buf] by (auto simp: GenerateKey_def Let_def streamKeyPrefix_def)

text \<open>
  C32: a stream key identifies its randomness.  Two generated keys are equal only if their 32
  random bytes are, every generated key verifies against its own hash, and it is 48 printable
  ASCII characters long.
\<close>

theorem generated_keys_faithful:
  assumes "length a = 32" "length b = 32"
    and "GenerateKey (Some a) = Some (ka, ha)" "GenerateKey (Some b) = Some (kb, hb)"
  shows "(ka = kb \<longleftrightarrow> a = b) \<and> VerifyKey ka ha \<and> length ka = 48 \<and>
         (\<forall>c\<in>set ka. 33 \<le> (of_char c :: nat) \<and> (of_char c :: nat) < 127)"
proof -
  have "ka = kb \<longleftrightarrow> a = b"
    using assms b64url_inj [of a b] by (auto simp: GenerateKey_def Let_def)
  moreover have "VerifyKey ka ha" using assms(3) by (auto simp: GenerateKey_def VerifyKey_def Let_def)
  ultimately show ?thesis using assms GenerateKey_length GenerateKey_ascii by blast
qed

theorem generated_keys_faithful_witness:
  "(''live_'' @ b64url (replicate 32 CHR ''a'') = ''live_'' @ b64url (replicate 32 CHR ''b'')
      \<longleftrightarrow> replicate 32 CHR ''a'' = replicate 32 CHR ''b'')
   \<and> length (''live_'' @ b64url (replicate 32 CHR ''a'')) = 48"
  using generated_keys_faithful [of "replicate 32 CHR ''a''" "replicate 32 CHR ''b''"
      "''live_'' @ b64url (replicate 32 CHR ''a'')" _ "''live_'' @ b64url (replicate 32 CHR ''b'')"]
  by (simp add: GenerateKey_def Let_def streamKeyPrefix_def)

end
