(* ===== verification/Auth.thy ===== *)
theory Auth
  imports Store Streamkey Filepath
begin

text \<open>
  \<open>internal/auth\<close>: validation (\<open>validate.go\<close>), password hashing (\<open>password.go\<close>), session tokens
  (\<open>session.go\<close>) and the service operations (\<open>service.go\<close>) on the database of theory \<open>Store\<close>.
  bcrypt and \<open>net/mail.ParseAddress\<close> are parameters; random bytes, clock readings and the
  outcome of every database round trip are arguments.
\<close>

section \<open>Errors\<close>

datatype auth_error =
    ErrUsernameTaken
  | ErrEmailTaken
  | ErrInvalidUsername
  | ErrReservedUsername
  | ErrInvalidEmail
  | ErrInvalidPassword
  | ErrBadCredentials
  | ErrNoSession
  | ErrNoChannel
  | Wrapped string
  | WrappedDb string db_error

section \<open>Validation\<close>

definition username_char :: "char \<Rightarrow> bool" where
  "username_char c \<longleftrightarrow>
     c \<in> set ''abcdefghijklmnopqrstuvwxyzABCDEFGHIJKLMNOPQRSTUVWXYZ0123456789_''"

definition usernameRE :: "string \<Rightarrow> bool" where
  "usernameRE s \<longleftrightarrow> 3 \<le> length s \<and> length s \<le> 32 \<and> (\<forall>c\<in>set s. username_char c)"

definition reservedNames :: "string list" where
  "reservedNames =
     [''admin'', ''root'', ''api'', ''static'', ''ws'', ''signup'', ''login'', ''logout'', ''dashboard'',
      ''healthz'', ''favicon'', ''c'', ''streams'', ''chtiwt'', ''system'']"

definition validateUsername :: "string \<Rightarrow> auth_error option" where
  "validateUsername s =
     (if \<not> usernameRE s then Some ErrInvalidUsername
      else if s \<in> set reservedNames then Some ErrReservedUsername
      else None)"

definition validateEmail :: "(string \<Rightarrow> bool) \<Rightarrow> string \<Rightarrow> auth_error option" where
  "validateEmail parseAddress s = (if parseAddress s then None else Some ErrInvalidEmail)"

definition validatePassword :: "string \<Rightarrow> auth_error option" where
  "validatePassword s = (if length s < 8 \<or> 72 < length s then Some ErrInvalidPassword else None)"

section \<open>Passwords\<close>

text \<open>The bcrypt package: hash of a password with a cost and a salt, and comparison.\<close>

record bcrypt =
  bc_gen :: "bytes \<Rightarrow> nat \<Rightarrow> bytes \<Rightarrow> bytes option"
  bc_cmp :: "bytes \<Rightarrow> bytes \<Rightarrow> bool"

definition bcryptCost :: nat where
  "bcryptCost = 12"

definition hashPassword :: "bcrypt \<Rightarrow> string \<Rightarrow> bytes \<Rightarrow> auth_error + string" where
  "hashPassword bc plain salt =
     (case bc_gen bc plain bcryptCost salt of None \<Rightarrow> Inl (Wrapped ''bcrypt'') | Some h \<Rightarrow> Inr h)"

definition verifyPassword :: "bcrypt \<Rightarrow> string \<Rightarrow> string \<Rightarrow> bool" where
  "verifyPassword bc hash plain = bc_cmp bc hash plain"

section \<open>Session tokens\<close>

definition newSessionToken :: "bytes option \<Rightarrow> auth_error + string" where
  "newSessionToken rnd = (case rnd of None \<Rightarrow> Inl (Wrapped ''rand'') | Some buf \<Rightarrow> Inr (b64url buf))"

section \<open>Operations\<close>

definition mapUniqueViolation :: "db_error \<Rightarrow> auth_error" where
  "mapUniqueViolation e =
     (case e of
        UniqueViolation cn \<Rightarrow>
          (if cn = ''users_username_key'' then ErrUsernameTaken
           else if cn = ''users_email_key'' then ErrEmailTaken
           else WrappedDb ''create user'' e)
      | _ \<Rightarrow> WrappedDb ''create user'' e)"

record signup_env =
  se_salt :: bytes
  se_rnd :: "bytes option"
  se_begin :: bool
  se_netUser :: net
  se_netChannel :: net
  se_commit :: commit
  se_now :: time

definition Signup ::
  "bcrypt \<Rightarrow> (string \<Rightarrow> bool) \<Rightarrow> signup_env \<Rightarrow> string \<Rightarrow> string \<Rightarrow> string \<Rightarrow> db \<Rightarrow>
   (auth_error + (User \<times> string)) \<times> db" where
  "Signup bc pa env uname email password d =
     (case validateUsername uname of Some e \<Rightarrow> (Inl e, d) | None \<Rightarrow>
      (case validateEmail pa email of Some e \<Rightarrow> (Inl e, d) | None \<Rightarrow>
      (case validatePassword password of Some e \<Rightarrow> (Inl e, d) | None \<Rightarrow>
      (case hashPassword bc password (se_salt env) of Inl e \<Rightarrow> (Inl (Wrapped ''hash password''), d) | Inr ph \<Rightarrow>
      (case GenerateKey (se_rnd env) of None \<Rightarrow> (Inl (Wrapped ''generate stream key''), d) | Some (plainKey, keyHash) \<Rightarrow>
      (if \<not> se_begin env then (Inl (Wrapped ''begin tx''), d)
       else
         (case stmt (se_netUser env) (q_createUser uname email ph (se_now env)) d of
            (Inl e, d1) \<Rightarrow> (Inl (mapUniqueViolation e), rollback d d1)
          | (Inr user, d1) \<Rightarrow>
              (case stmt (se_netChannel env) (q_createChannel (u_id user) uname keyHash (se_now env)) d1 of
                 (Inl e, d2) \<Rightarrow> (Inl (WrappedDb ''create channel'' e), rollback d d2)
               | (Inr _, d2) \<Rightarrow>
                   (case se_commit env of
                      CommitFailed \<Rightarrow> (Inl (Wrapped ''commit''), rollback d d2)
                    | CommitAckLost \<Rightarrow> (Inl (Wrapped ''commit''), d2)
                    | CommitOk \<Rightarrow> (Inr (user, plainKey), d2))))))))))"

definition Login :: "bcrypt \<Rightarrow> net \<Rightarrow> string \<Rightarrow> string \<Rightarrow> db \<Rightarrow> auth_error + User" where
  "Login bc n uname password d =
     (case fst (stmt n (q_getUserByUsername uname) d) of
        Inl e \<Rightarrow> Inl (if e = ErrNoRows then ErrBadCredentials else WrappedDb ''lookup user'' e)
      | Inr user \<Rightarrow>
          if \<not> verifyPassword bc (u_password_hash user) password then Inl ErrBadCredentials else Inr user)"

definition CreateSession ::
  "bytes option \<Rightarrow> net \<Rightarrow> duration \<Rightarrow> time \<Rightarrow> int \<Rightarrow> db \<Rightarrow> (auth_error + string) \<times> db" where
  "CreateSession rnd n sessionTTL now uid d =
     (case newSessionToken rnd of
        Inl e \<Rightarrow> (Inl e, d)
      | Inr token \<Rightarrow>
          (case stmt n (q_createSession token uid (now + sessionTTL) now) d of
             (Inl e, d1) \<Rightarrow> (Inl (WrappedDb ''create session'' e), d1)
           | (Inr _, d1) \<Rightarrow> (Inr token, d1)))"

definition Logout :: "net \<Rightarrow> string \<Rightarrow> db \<Rightarrow> (db_error + unit) \<times> db" where
  "Logout n token d = (if token = '''' then (Inr (), d) else stmt n (q_deleteSession token) d)"

definition SessionUser :: "net \<Rightarrow> string \<Rightarrow> time \<Rightarrow> db \<Rightarrow> auth_error + User" where
  "SessionUser n token now d =
     (case fst (stmt n (q_getSessionWithUser token now) d) of
        Inl e \<Rightarrow> Inl (if e = ErrNoRows then ErrNoSession else WrappedDb ''lookup session'' e)
      | Inr row \<Rightarrow> Inr (row_user row))"

definition ChannelForUser :: "net \<Rightarrow> int \<Rightarrow> db \<Rightarrow> auth_error + Channel" where
  "ChannelForUser n uid d =
     (case fst (stmt n (q_getChannelByUserID uid) d) of
        Inl e \<Rightarrow> Inl (if e = ErrNoRows then ErrNoChannel else WrappedDb ''lookup channel'' e)
      | Inr c \<Rightarrow> Inr c)"

definition ChannelByName :: "net \<Rightarrow> string \<Rightarrow> db \<Rightarrow> auth_error + Channel" where
  "ChannelByName n nm d =
     (case fst (stmt n (q_getChannelByName nm) d) of
        Inl e \<Rightarrow> Inl (if e = ErrNoRows then ErrNoChannel else WrappedDb ''lookup channel'' e)
      | Inr c \<Rightarrow> Inr c)"

definition RegenerateStreamKey :: "bytes option \<Rightarrow> net \<Rightarrow> int \<Rightarrow> db \<Rightarrow> (auth_error + string) \<times> db" where
  "RegenerateStreamKey rnd n channelID d =
     (case GenerateKey rnd of
        None \<Rightarrow> (Inl (Wrapped ''generate key''), d)
      | Some (plain, hash) \<Rightarrow>
          (case stmt n (q_updateChannelStreamKey channelID hash) d of
             (Inl e, d1) \<Rightarrow> (Inl (WrappedDb ''update key'' e), d1)
           | (Inr _, d1) \<Rightarrow> (Inr plain, d1)))"

definition auth_UpdateChannelTitle :: "net \<Rightarrow> int \<Rightarrow> string \<Rightarrow> db \<Rightarrow> (db_error + unit) \<times> db" where
  "auth_UpdateChannelTitle n channelID title d =
     (let t = (if 200 < length title then take 200 title else title)
      in stmt n (q_updateChannelTitle channelID t) d)"

definition SweepExpiredSessions :: "net \<Rightarrow> time \<Rightarrow> db \<Rightarrow> (db_error + unit) \<times> db" where
  "SweepExpiredSessions n now d = stmt n (q_deleteExpiredSessions now) d"

end
