(* ===== verification/Auth_Props.thy ===== *)
theory Auth_Props
  imports Auth
begin

text \<open>
  Properties of the account operations: sign-up is atomic under every fault, accounts and
  channels stay in one-to-one correspondence, credentials and sessions round-trip, and what
  the title update does to text it cuts.
\<close>

section \<open>Names\<close>

lemma username_char_ascii: "username_char c \<Longrightarrow> (of_char c :: nat) < 128 \<and> c \<noteq> CHR 0x00 \<and> c \<noteq> CHR ''/'' \<and> c \<noteq> CHR ''.''"
  by (auto simp: username_char_def)

lemma text_ok_ascii: "\<forall>c\<in>set s. (of_char c :: nat) < 128 \<and> c \<noteq> CHR 0x00 \<Longrightarrow> text_ok s"
  unfolding text_ok_def using validString_ascii by blast

lemma validUsername_text: "validateUsername s = None \<Longrightarrow> text_ok s"
  by (rule text_ok_ascii) (auto simp: validateUsername_def usernameRE_def username_char_ascii split: if_splits)

lemma validUsername_plain: "validateUsername s = None \<Longrightarrow> plain_name s"
  using username_char_ascii by (fastforce simp: validateUsername_def usernameRE_def plain_name_def split: if_splits)

lemma HashKey_text: "text_ok (HashKey k)"
  by (rule text_ok_ascii) (use HashKey_ascii in fastforce)

lemma token_text: "text_ok (b64url buf)"
  by (rule text_ok_ascii) (use b64url_ascii in fastforce)

section \<open>Sign-up\<close>

definition newUser :: "db \<Rightarrow> string \<Rightarrow> string \<Rightarrow> string \<Rightarrow> time \<Rightarrow> User" where
  "newUser d un em ph now =
     \<lparr>u_id = seq_users d, u_username = un, u_email = em, u_password_hash = ph, u_created = to_ts now\<rparr>"

definition newChannel :: "db \<Rightarrow> string \<Rightarrow> string \<Rightarrow> time \<Rightarrow> Channel" where
  "newChannel d un kh now =
     \<lparr>c_id = seq_channels d, c_user_id = seq_users d, c_name = un, c_title = '''', c_key_hash = kh,
      c_created = to_ts now\<rparr>"

definition withAccount :: "db \<Rightarrow> string \<Rightarrow> string \<Rightarrow> string \<Rightarrow> string \<Rightarrow> time \<Rightarrow> db" where
  "withAccount d un em ph kh now =
     d\<lparr>users := users d @ [newUser d un em ph now], channels := channels d @ [newChannel d un kh now],
       seq_users := seq_users d + 1, seq_channels := seq_channels d + 1\<rparr>"

definition same_tables :: "db \<Rightarrow> db \<Rightarrow> bool" where
  "same_tables d d' \<longleftrightarrow>
     users d' = users d \<and> channels d' = channels d \<and> sessions d' = sessions d \<and>
     stream_sessions d' = stream_sessions d \<and>
     seq_users d \<le> seq_users d' \<and> seq_channels d \<le> seq_channels d' \<and> seq_stream d \<le> seq_stream d'"

lemma createUser_cases:
  "q_createUser un em ph now d = (r, d') \<Longrightarrow>
   (\<exists>e. r = Inl e \<and> same_tables d d') \<or>
   (r = Inr (newUser d un em ph now) \<and> un \<notin> u_username ` set (users d) \<and> em \<notin> u_email ` set (users d) \<and>
    d' = d\<lparr>users := users d @ [newUser d un em ph now], seq_users := seq_users d + 1\<rparr>)"
  by (auto simp: q_createUser_def newUser_def same_tables_def Let_def split: if_splits)

lemma stmt_cases:
  assumes "stmt n f d = (r, d')"
  shows "f d = (r, d') \<or> (r = Inl ConnError \<and> (d' = d \<or> (\<exists>r'. f d = (r', d'))))"
  using assms by (cases n; cases "f d") (auto simp: stmt_def)

lemma seqs_createUser:
  "q_createUser un em ph now d = (r, d') \<Longrightarrow> seq_users d \<le> seq_users d' \<and> seq_channels d' = seq_channels d \<and> seq_stream d' = seq_stream d"
  by (auto simp: q_createUser_def Let_def split: if_splits)

lemma seqs_createChannel:
  "q_createChannel uid nm kh now d = (r, d') \<Longrightarrow> seq_users d' = seq_users d \<and> seq_channels d \<le> seq_channels d' \<and> seq_stream d' = seq_stream d"
  by (auto simp: q_createChannel_def Let_def split: if_splits)

lemma rollback_same:
  "seq_users d \<le> seq_users d' \<Longrightarrow> seq_channels d \<le> seq_channels d' \<Longrightarrow> seq_stream d \<le> seq_stream d' \<Longrightarrow>
   same_tables d (rollback d d')"
  by (simp add: same_tables_def rollback_def)

lemma same_tables_refl [simp]: "same_tables d d"
  by (simp add: same_tables_def)

lemma createChannel_ok:
  "q_createChannel (seq_users d) un kh now (d\<lparr>users := users d @ [newUser d un em ph now], seq_users := seq_users d + 1\<rparr>) = (Inr c, d')
   \<Longrightarrow> d' = withAccount d un em ph kh now"
  by (auto simp: q_createChannel_def withAccount_def newChannel_def Let_def split: if_splits)

text \<open>The outcomes of a sign-up: nothing changed, or the whole account was added.\<close>

lemma Signup_cases:
  assumes "Signup bc pa env un em pw d = (r, d')"
  shows "(\<exists>e. r = Inl e) \<and> same_tables d d' \<or>
    (\<exists>ph key kh. validateUsername un = None \<and> pa em \<and> validatePassword pw = None \<and>
       bc_gen bc pw bcryptCost (se_salt env) = Some ph \<and> GenerateKey (se_rnd env) = Some (key, kh) \<and>
       un \<notin> u_username ` set (users d) \<and> em \<notin> u_email ` set (users d) \<and>
       d' = withAccount d un em ph kh (se_now env) \<and>
       (se_commit env = CommitOk \<and> r = Inr (newUser d un em ph (se_now env), key) \<or>
        se_commit env = CommitAckLost \<and> r = Inl (Wrapped ''commit'')))"
proof (cases "\<exists>ph key kh. validateUsername un = None \<and> pa em \<and> validatePassword pw = None \<and>
       bc_gen bc pw bcryptCost (se_salt env) = Some ph \<and> GenerateKey (se_rnd env) = Some (key, kh) \<and> se_begin env")
  case False
  then show ?thesis using assms
    by (auto simp: Signup_def validateEmail_def hashPassword_def split: option.splits if_splits prod.splits)
next
  case True
  then obtain ph key kh where v: "validateUsername un = None" "pa em" "validatePassword pw = None"
    "bc_gen bc pw bcryptCost (se_salt env) = Some ph" "GenerateKey (se_rnd env) = Some (key, kh)" "se_begin env"
    by blast
  obtain r1 d1 where s1: "stmt (se_netUser env) (q_createUser un em ph (se_now env)) d = (r1, d1)" by fastforce
  obtain r0 d0 where s0: "q_createUser un em ph (se_now env) d = (r0, d0)" by fastforce
  have seq1: "seq_users d \<le> seq_users d1 \<and> seq_channels d1 = seq_channels d \<and> seq_stream d1 = seq_stream d"
    using stmt_cases [OF s1] seqs_createUser by blast
  note eval = assms [unfolded Signup_def validateEmail_def hashPassword_def v(1,3-5) option.case if_P [OF v(2)]
      sum.case prod.case Let_def] v(6) s1
  show ?thesis
  proof (cases r1)
    case (Inl e)
    then have "r = Inl (mapUniqueViolation e)" "d' = rollback d d1" using eval by auto
    then show ?thesis using seq1 rollback_same by auto
  next
    case (Inr u)
    then have "q_createUser un em ph (se_now env) d = (Inr u, d1)" using stmt_cases [OF s1] by auto
    from createUser_cases [OF this] have u: "u = newUser d un em ph (se_now env)"
      "un \<notin> u_username ` set (users d)" "em \<notin> u_email ` set (users d)"
      "d1 = d\<lparr>users := users d @ [u], seq_users := seq_users d + 1\<rparr>" by auto
    then have uid: "u_id u = seq_users d" by (simp add: newUser_def)
    obtain r2 d2 where s2: "stmt (se_netChannel env) (q_createChannel (u_id u) un kh (se_now env)) d1 = (r2, d2)" by fastforce
    have seq2: "seq_users d \<le> seq_users d2 \<and> seq_channels d \<le> seq_channels d2 \<and> seq_stream d \<le> seq_stream d2"
      using stmt_cases [OF s2] seqs_createChannel seq1 by fastforce
    show ?thesis
    proof (cases r2)
      case (Inl e)
      then have "r = Inl (WrappedDb ''create channel'' e)" "d' = rollback d d2" using eval \<open>r1 = Inr u\<close> s2 by auto
      then show ?thesis using seq2 rollback_same by auto
    next
      case (Inr c)
      then have "q_createChannel (u_id u) un kh (se_now env) d1 = (Inr c, d2)" using stmt_cases [OF s2] by auto
      then have d2: "d2 = withAccount d un em ph kh (se_now env)"
        using createChannel_ok u(1,4) uid by metis
      then show ?thesis
        using eval \<open>r1 = Inr u\<close> s2 Inr v u(1-3) seq2 rollback_same by (cases "se_commit env") auto
    qed
  qed
qed

section \<open>Accounts\<close>

text \<open>Integrity of the database, and users and channels in one-to-one correspondence.\<close>

definition account_inv :: "db \<Rightarrow> bool" where
  "account_inv d \<longleftrightarrow>
     db_inv d \<and>
     (\<lambda>c. (c_user_id c, c_name c)) ` set (channels d) = (\<lambda>u. (u_id u, u_username u)) ` set (users d) \<and>
     (\<forall>u\<in>set (users d). validateUsername (u_username u) = None)"

lemma account_inv_same_tables:
  "account_inv d \<Longrightarrow> same_tables d d' \<Longrightarrow> account_inv d'"
  by (fastforce simp: account_inv_def db_inv_def same_tables_def)

lemma account_inv_add:
  assumes inv: "account_inv d" and v: "validateUsername un = None"
    and new: "un \<notin> u_username ` set (users d)" "em \<notin> u_email ` set (users d)"
  shows "account_inv (withAccount d un em ph kh now)"
proof -
  have pairs: "(\<lambda>c. (c_user_id c, c_name c)) ` set (channels d) = (\<lambda>u. (u_id u, u_username u)) ` set (users d)"
    and db: "db_inv d" using inv by (simp_all add: account_inv_def)
  have uid: "c_user_id ` set (channels d) = u_id ` set (users d)"
    using arg_cong [OF pairs, of "image fst"] by (simp add: image_image)
  have nms: "c_name ` set (channels d) = u_username ` set (users d)"
    using arg_cong [OF pairs, of "image snd"] by (simp add: image_image)
  have fresh: "seq_users d \<notin> u_id ` set (users d)" "seq_channels d \<notin> c_id ` set (channels d)"
    using db by (auto simp: db_inv_def)
  have dist: "distinct (map u_id (users d))" "distinct (map c_id (channels d))" "distinct (map s_id (sessions d))"
    using db by (simp_all add: db_inv_def)
  have "db_inv (withAccount d un em ph kh now)"
    using db new fresh uid nms unfolding db_inv_def
    by (auto simp: withAccount_def newUser_def newChannel_def less_imp_le add_strict_increasing2)
  then show ?thesis using inv v pairs by (auto simp: account_inv_def withAccount_def newUser_def newChannel_def)
qed

lemma account_inv_frame:
  assumes "account_inv d" "db_inv d'" "users d' = users d"
    and "(\<lambda>c. (c_user_id c, c_name c)) ` set (channels d') = (\<lambda>c. (c_user_id c, c_name c)) ` set (channels d)"
  shows "account_inv d'"
  using assms by (simp add: account_inv_def)

text \<open>One call of the service, with whatever faults its arguments say.\<close>

datatype auth_op =
    OpSignup signup_env string string string
  | OpCreateSession "bytes option" net duration time int
  | OpLogout net string
  | OpRegenerate "bytes option" net int
  | OpTitle net int string
  | OpSweep net time

fun auth_exec :: "bcrypt \<Rightarrow> (string \<Rightarrow> bool) \<Rightarrow> auth_op \<Rightarrow> db \<Rightarrow> db" where
  "auth_exec bc pa (OpSignup env un em pw) d = snd (Signup bc pa env un em pw d)"
| "auth_exec bc pa (OpCreateSession rnd n ttl now uid) d = snd (CreateSession rnd n ttl now uid d)"
| "auth_exec bc pa (OpLogout n tok) d = snd (Logout n tok d)"
| "auth_exec bc pa (OpRegenerate rnd n i) d = snd (RegenerateStreamKey rnd n i d)"
| "auth_exec bc pa (OpTitle n i t) d = snd (auth_UpdateChannelTitle n i t d)"
| "auth_exec bc pa (OpSweep n now) d = snd (SweepExpiredSessions n now d)"

lemma account_inv_Signup: "account_inv d \<Longrightarrow> account_inv (snd (Signup bc pa env un em pw d))"
proof -
  assume inv: "account_inv d"
  obtain r d' where s: "Signup bc pa env un em pw d = (r, d')" by fastforce
  from Signup_cases [OF s] inv show ?thesis
    unfolding s snd_conv using account_inv_same_tables account_inv_add by blast
qed

lemma stmt_db: "snd (stmt n f d) = d \<or> snd (stmt n f d) = snd (f d)"
  by (cases n) (simp_all add: stmt_def)

lemma account_inv_stmt:
  assumes "account_inv d" "db_inv d \<Longrightarrow> db_inv (snd (f d))" "users (snd (f d)) = users d"
    and "(\<lambda>c. (c_user_id c, c_name c)) ` set (channels (snd (f d))) = (\<lambda>c. (c_user_id c, c_name c)) ` set (channels d)"
  shows "account_inv (snd (stmt n f d))"
proof -
  have "account_inv (snd (f d))" by (rule account_inv_frame [OF assms(1) _ assms(3,4)])
      (use assms(1,2) in \<open>simp add: account_inv_def\<close>)
  then show ?thesis using stmt_db [of n f d] assms(1) by auto
qed

lemma session_queries_frame [simp]:
  "users (snd (q_createSession i uid ex now d)) = users d" "channels (snd (q_createSession i uid ex now d)) = channels d"
  "users (snd (q_deleteSession i d)) = users d" "channels (snd (q_deleteSession i d)) = channels d"
  "users (snd (q_deleteExpiredSessions now d)) = users d" "channels (snd (q_deleteExpiredSessions now d)) = channels d"
  by (simp_all add: q_createSession_def q_deleteSession_def q_deleteExpiredSessions_def Let_def)

lemma account_inv_updates:
  "account_inv d \<Longrightarrow> account_inv (snd (stmt n (q_createSession i uid ex now) d))"
  "account_inv d \<Longrightarrow> account_inv (snd (stmt n (q_deleteSession i) d))"
  "account_inv d \<Longrightarrow> account_inv (snd (stmt n (q_deleteExpiredSessions now) d))"
  by (rule account_inv_stmt; simp add: query_inv)+

lemma account_inv_channel_updates:
  "account_inv d \<Longrightarrow> account_inv (snd (stmt n (q_updateChannelStreamKey i kh) d))"
  "account_inv d \<Longrightarrow> account_inv (snd (stmt n (q_updateChannelTitle i t) d))"
proof -
  have upd: "(\<lambda>c. (c_user_id c, c_name c)) ` g ` A = (\<lambda>c. (c_user_id c, c_name c)) ` A"
    if "\<And>c. c_user_id (g c) = c_user_id c" "\<And>c. c_name (g c) = c_name c" for g and A :: "Channel set"
    using that by (simp add: image_image)
  show "account_inv d \<Longrightarrow> account_inv (snd (stmt n (q_updateChannelStreamKey i kh) d))"
    by (rule account_inv_stmt)
       (simp_all add: query_inv, simp_all add: q_updateChannelStreamKey_def upd del: if_image_distrib)
  show "account_inv d \<Longrightarrow> account_inv (snd (stmt n (q_updateChannelTitle i t) d))"
    by (rule account_inv_stmt)
       (simp_all add: query_inv, simp_all add: q_updateChannelTitle_def upd del: if_image_distrib)
qed

lemma account_inv_exec: "account_inv d \<Longrightarrow> account_inv (auth_exec bc pa op d)"
proof (cases op)
  case (OpCreateSession rnd n ttl now uid)
  moreover assume "account_inv d"
  ultimately show ?thesis
    using account_inv_updates(1) [of d n]
    by (auto simp: CreateSession_def newSessionToken_def split: option.split sum.split prod.split)
       (metis snd_conv)+
next
  case (OpRegenerate rnd n i)
  moreover assume "account_inv d"
  ultimately show ?thesis
    using account_inv_channel_updates(1) [of d n i]
    by (auto simp: RegenerateStreamKey_def split: option.split sum.split prod.split) (metis snd_conv)+
qed (simp_all add: account_inv_Signup Logout_def SweepExpiredSessions_def auth_UpdateChannelTitle_def Let_def
      account_inv_updates account_inv_channel_updates)

text \<open>
  C7: accounts and channels stay in one-to-one correspondence.  After any sequence of service
  calls on a new database, with connections lost, commits failed or unacknowledged at any
  point, the tables satisfy their constraints, every user has exactly one channel named after
  it, every channel belongs to a user, and every channel name is a valid user name, hence a
  plain path component.
\<close>

theorem accounts_consistent:
  "account_inv (fold (auth_exec bc pa) ops emptyDB) \<and>
   list_all (\<lambda>c. plain_name (c_name c)) (channels (fold (auth_exec bc pa) ops emptyDB))"
proof -
  define d where "d = fold (auth_exec bc pa) ops emptyDB"
  have base: "account_inv emptyDB" by (simp add: account_inv_def) (simp add: emptyDB_def)
  have inv: "account_inv d0 \<Longrightarrow> account_inv (fold (auth_exec bc pa) ops d0)" for d0
    by (induction ops arbitrary: d0) (simp_all add: account_inv_exec)
  have acc: "account_inv d" using inv [OF base] by (simp add: d_def)
  moreover have "plain_name (c_name c)" if "c \<in> set (channels d)" for c
  proof -
    have "(c_user_id c, c_name c) \<in> (\<lambda>u. (u_id u, u_username u)) ` set (users d)"
      using acc that unfolding account_inv_def by blast
    then show ?thesis using acc validUsername_plain by (auto simp: account_inv_def)
  qed
  ultimately show ?thesis by (simp add: list_all_iff d_def)
qed

text \<open>
  C8: sign-up is atomic.  Whatever fails on the way (hashing, randomness, either insert, the
  commit or its acknowledgement), the tables afterwards are either exactly the old ones or
  the old ones with one user and its channel added; success is reported only in the second
  case, and an error in the second case only when the acknowledgement of the commit was lost.
\<close>

theorem signup_atomic:
  assumes "Signup bc pa env un em pw d = (r, d')"
  shows "(same_tables d d' \<and> \<not> isOk r) \<or>
         (\<exists>u c. users d' = users d @ [u] \<and> channels d' = channels d @ [c] \<and>
            sessions d' = sessions d \<and> stream_sessions d' = stream_sessions d \<and>
            u_username u = un \<and> u_email u = em \<and> c_user_id c = u_id u \<and> c_name c = un \<and>
            (isOk r \<or> se_commit env = CommitAckLost) \<and>
            (\<forall>u' k. r = Inr (u', k) \<longrightarrow> u' = u \<and> c_key_hash c = HashKey k))"
proof -
  from Signup_cases [OF assms] consider
    (none) "\<exists>e. r = Inl e" "same_tables d d'"
  | (account) ph key kh where "GenerateKey (se_rnd env) = Some (key, kh)" "d' = withAccount d un em ph kh (se_now env)"
      "se_commit env = CommitOk \<and> r = Inr (newUser d un em ph (se_now env), key) \<or>
        se_commit env = CommitAckLost \<and> r = Inl (Wrapped ''commit'')"
    by blast
  then show ?thesis
  proof cases
    case none
    then show ?thesis by auto
  next
    case account
    have "kh = HashKey key" using account(1) by (auto simp: GenerateKey_def Let_def split: option.splits)
    with account(2,3) show ?thesis
      by (intro disjI2 exI [of _ "newUser d un em ph (se_now env)"] exI [of _ "newChannel d un kh (se_now env)"])
         (auto simp: withAccount_def newUser_def newChannel_def)
  qed
qed

text \<open>A stand-in for bcrypt that tags the password, refusing more than 72 bytes.\<close>

definition demo_bcrypt :: bcrypt where
  "demo_bcrypt = \<lparr>bc_gen = (\<lambda>p cost salt. if length p \<le> 72 then Some (CHR ''s'' # p) else None),
                  bc_cmp = (\<lambda>h p. h = CHR ''s'' # p)\<rparr>"

definition demo_env :: signup_env where
  "demo_env = \<lparr>se_salt = ''s'', se_rnd = Some (replicate 32 CHR ''k''), se_begin = True, se_netUser = NetOk,
     se_netChannel = NetOk, se_commit = CommitOk, se_now = 5000\<rparr>"

lemma demo_ascii: "text_ok ''alice''" "text_ok ''a@b''" "text_ok ''spassword1''"
  by (simp_all add: text_ok_ascii)

lemma demo_signup:
  "Signup demo_bcrypt (\<lambda>_. True) demo_env ''alice'' ''a@b'' ''password1'' emptyDB =
   (Inr (newUser emptyDB ''alice'' ''a@b'' ''spassword1'' 5000, streamKeyPrefix @ b64url (replicate 32 CHR ''k'')),
    withAccount emptyDB ''alice'' ''a@b'' ''spassword1''
      (HashKey (streamKeyPrefix @ b64url (replicate 32 CHR ''k''))) 5000)"
  by (simp add: Signup_def validateUsername_def usernameRE_def username_char_def reservedNames_def
      validateEmail_def validatePassword_def hashPassword_def demo_bcrypt_def demo_env_def GenerateKey_def Let_def
      stmt_def q_createUser_def q_createChannel_def demo_ascii HashKey_text emptyDB_def newUser_def withAccount_def
      newChannel_def)

theorem signup_atomic_witness:
  "\<exists>r d'. Signup demo_bcrypt (\<lambda>_. True) demo_env ''alice'' ''a@b'' ''password1'' emptyDB = (r, d') \<and> isOk r \<and>
     (\<exists>u c. users d' = [u] \<and> channels d' = [c] \<and> u_username u = ''alice'' \<and> c_name c = ''alice'')"
  using signup_atomic [OF demo_signup] demo_signup by (auto simp: emptyDB_def)

section \<open>Credentials\<close>

lemma find_append_new:
  "x \<notin> f ` set xs \<Longrightarrow> f y = x \<Longrightarrow> find (\<lambda>z. f z = x) (xs @ [y]) = Some y"
  by (induction xs) auto

lemma find_distinct:
  "distinct (map f xs) \<Longrightarrow> y \<in> set xs \<Longrightarrow> find (\<lambda>z. f z = f y) xs = Some y"
  by (induction xs) (auto simp: rev_image_eqI)

lemma find_none: "x \<notin> f ` set xs \<Longrightarrow> find (\<lambda>z. f z = x) xs = None"
  by (induction xs) auto

text \<open>
  C15: what sign-up accepts, login accepts.  bcrypt is only assumed to accept a password against
  a hash made from it.  After a successful sign-up, logging in with the same name and password
  returns the created user; a password bcrypt does not accept, or an unknown name, gives
  \<open>ErrBadCredentials\<close>, so the two cases cannot be told apart.
\<close>

theorem signup_then_login:
  assumes bcrypt: "\<forall>p s h. bc_gen bc p bcryptCost s = Some h \<longrightarrow> bc_cmp bc h p"
    and s: "Signup bc pa env un em pw d = (Inr (u, key), d')"
  shows "Login bc NetOk un pw d' = Inr u \<and>
         (\<forall>pw'. \<not> bc_cmp bc (u_password_hash u) pw' \<longrightarrow> Login bc NetOk un pw' d' = Inl ErrBadCredentials) \<and>
         (\<forall>un'. text_ok un' \<longrightarrow> un' \<notin> u_username ` set (users d') \<longrightarrow>
            Login bc NetOk un' pw d' = Inl ErrBadCredentials)"
proof -
  from Signup_cases [OF s] obtain ph kh where v: "validateUsername un = None"
    and ph: "bc_gen bc pw bcryptCost (se_salt env) = Some ph"
    and new: "un \<notin> u_username ` set (users d)"
    and d': "d' = withAccount d un em ph kh (se_now env)" and u: "u = newUser d un em ph (se_now env)"
    by auto
  have "find (\<lambda>z. u_username z = un) (users d') = Some u"
    using find_append_new [OF new, of u] by (simp add: d' u withAccount_def newUser_def)
  moreover have "u_password_hash u = ph" by (simp add: u newUser_def)
  ultimately show ?thesis
    using validUsername_text [OF v] bcrypt ph
    by (auto simp: Login_def stmt_def q_getUserByUsername_def one_row_def verifyPassword_def find_none)
qed

theorem signup_then_login_witness:
  "\<exists>u key d'. Signup demo_bcrypt (\<lambda>_. True) demo_env ''alice'' ''a@b'' ''password1'' emptyDB = (Inr (u, key), d') \<and>
     Login demo_bcrypt NetOk ''alice'' ''password1'' d' = Inr u"
proof -
  have "\<forall>p s h. bc_gen demo_bcrypt p bcryptCost s = Some h \<longrightarrow> bc_cmp demo_bcrypt h p"
    by (auto simp: demo_bcrypt_def split: if_splits)
  from signup_then_login [OF this demo_signup] demo_signup show ?thesis by blast
qed

section \<open>Login sessions\<close>

lemma join_rows_find:
  assumes "distinct (map s_id ss)" "distinct (map u_id us)" "s \<in> set ss" "u \<in> set us" "s_user_id s = u_id u"
  shows "find (\<lambda>r. s_id (row_session r) = s_id s \<and> P (row_session r)) (join_rows ss us)
         = (if P s then Some \<lparr>row_session = s, row_user = u\<rparr> else None)"
  using assms
proof (induction ss)
  case (Cons s' ss)
  define row where "row = (\<lambda>u. \<lparr>row_session = s', row_user = u\<rparr>)"
  define hit where "hit = (\<lambda>r :: GetSessionWithUserRow. s_id (row_session r) = s_id s \<and> P (row_session r))"
  have find_app: "find hit (xs @ ys) = (case find hit xs of None \<Rightarrow> find hit ys | Some x \<Rightarrow> Some x)" for xs ys
    by (induction xs) auto
  have notin: "find hit (join_rows zs us) = None" if "s_id s \<notin> s_id ` set zs" for zs
  proof -
    have "find hit (map (\<lambda>u. \<lparr>row_session = z, row_user = u\<rparr>) vs) = None" if "s_id s \<noteq> s_id z" for z vs
      using that by (induction vs) (simp_all add: hit_def)
    then show ?thesis using that by (induction zs) (simp_all add: find_app)
  qed
  show ?case
  proof (cases "s' = s")
    case True
    have "filter (\<lambda>v. u_id v = u_id u) us = [u]" using Cons.prems(2,4) by (induction us) (auto simp: filter_empty_conv rev_image_eqI)
    then show ?thesis
      using True Cons.prems notin [of ss] by (simp add: find_app hit_def [symmetric]) (simp add: hit_def)
  next
    case False
    then have ne: "s_id s' \<noteq> s_id s" using Cons.prems by (auto simp: rev_image_eqI)
    have "find hit (map row vs) = None" for vs using ne by (induction vs) (simp_all add: hit_def row_def)
    then show ?thesis
      using False Cons.prems Cons.IH by (simp add: find_app hit_def [symmetric] row_def [symmetric])
  qed
qed simp

lemma join_rows_absent: "i \<notin> s_id ` set ss \<Longrightarrow> find (\<lambda>r. s_id (row_session r) = i \<and> P (row_session r)) (join_rows ss us) = None"
proof (induction ss)
  case (Cons s ss)
  have "find (\<lambda>r. s_id (row_session r) = i \<and> P (row_session r)) (map (\<lambda>u. \<lparr>row_session = s, row_user = u\<rparr>) vs @ ys)
      = find (\<lambda>r. s_id (row_session r) = i \<and> P (row_session r)) ys" for vs ys
    using Cons.prems by (induction vs) auto
  with Cons show ?case by simp
qed simp

lemma SessionUser_present:
  assumes "db_inv d" "s \<in> set (sessions d)" "u \<in> set (users d)" "s_user_id s = u_id u" "text_ok (s_id s)"
  shows "SessionUser NetOk (s_id s) t d = (if to_ts t < s_expires s then Inr u else Inl ErrNoSession)"
proof -
  have "distinct (map s_id (sessions d))" "distinct (map u_id (users d))" using assms(1) by (simp_all add: db_inv_def)
  from join_rows_find [OF this assms(2-4), of "\<lambda>s. to_ts t < s_expires s"] assms(5) show ?thesis
    by (simp add: SessionUser_def stmt_def q_getSessionWithUser_def one_row_def)
qed

lemma SessionUser_absent:
  assumes "i \<notin> s_id ` set (sessions d)" "text_ok i"
  shows "SessionUser NetOk i t d = Inl ErrNoSession"
  using join_rows_absent [OF assms(1), of "\<lambda>s. to_ts t < s_expires s"] assms(2)
  by (simp add: SessionUser_def stmt_def q_getSessionWithUser_def one_row_def)

lemma to_ts_mono: "t \<le> t' \<Longrightarrow> to_ts t \<le> to_ts t'"
  by (simp add: to_ts_def zdiv_mono1)

text \<open>
  C11: a login session is valid exactly from its creation to its expiry or logout.  The token
  returned by \<open>CreateSession\<close> identifies the user strictly before the expiry (rounded to the
  microsecond the database stores), never from then on, never after \<open>Logout\<close>; sweeping expired
  sessions at any earlier time changes no later answer.
\<close>

theorem session_lifecycle:
  assumes inv: "account_inv d" and buf: "length buf = 32"
    and c: "CreateSession (Some buf) NetOk ttl now uid d = (Inr tok, d')"
  shows "\<exists>u\<in>set (users d). u_id u = uid \<and>
    (\<forall>t. SessionUser NetOk tok t d' = (if to_ts t < to_ts (now + ttl) then Inr u else Inl ErrNoSession)) \<and>
    (\<forall>t. SessionUser NetOk tok t (snd (Logout NetOk tok d')) = Inl ErrNoSession) \<and>
    (\<forall>t t'. t' \<le> t \<longrightarrow> SessionUser NetOk tok t (snd (SweepExpiredSessions NetOk t' d')) = SessionUser NetOk tok t d')"
proof -
  define s where "s = \<lparr>s_id = tok, s_user_id = uid, s_expires = to_ts (now + ttl), s_created = to_ts now\<rparr>"
  have tok: "tok = b64url buf" "text_ok tok" using c
    by (auto simp: CreateSession_def newSessionToken_def token_text split: sum.splits prod.splits)
  then have ne: "tok \<noteq> ''''" using b64url_length [of buf] buf by auto
  have d': "d' = d\<lparr>sessions := sessions d @ [s]\<rparr>" and fresh: "tok \<notin> s_id ` set (sessions d)"
    and uid: "uid \<in> u_id ` set (users d)"
    using c tok by (auto simp: CreateSession_def newSessionToken_def stmt_def q_createSession_def s_def Let_def
        split: if_splits sum.splits)
  obtain u where u: "u \<in> set (users d)" "u_id u = uid" using uid by blast
  have db: "db_inv d" using inv by (simp add: account_inv_def)
  have d1: "db_inv d'" using db fresh uid by (auto simp: d' db_inv_def s_def)
  have s: "s_id s = tok" "s \<in> set (sessions d')" "u \<in> set (users d')" "s_user_id s = u_id u"
    using u by (simp_all add: s_def d')
  have now: "SessionUser NetOk tok t d' = (if to_ts t < to_ts (now + ttl) then Inr u else Inl ErrNoSession)" for t
    using SessionUser_present [OF d1 s(2-4), of t] tok(2) by (simp add: s_def)
  have out: "SessionUser NetOk tok t (snd (Logout NetOk tok d')) = Inl ErrNoSession" for t
    using ne tok(2) by (intro SessionUser_absent) (auto simp: Logout_def stmt_def q_deleteSession_def)
  have sweep: "SessionUser NetOk tok t (snd (SweepExpiredSessions NetOk t' d')) = SessionUser NetOk tok t d'"
    if "t' \<le> t" for t t'
  proof (cases "to_ts (now + ttl) \<le> to_ts t'")
    case True
    define d2 where "d2 = snd (SweepExpiredSessions NetOk t' d')"
    have "tok \<notin> s_id ` set (sessions d2)" using True fresh
      by (auto simp: d2_def SweepExpiredSessions_def stmt_def q_deleteExpiredSessions_def d' s_def)
    from SessionUser_absent [OF this tok(2), of t] now [of t] True to_ts_mono [OF that] show ?thesis
      by (simp add: d2_def)
  next
    case False
    define d2 where "d2 = snd (SweepExpiredSessions NetOk t' d')"
    have "db_inv d2" using d1 by (simp add: d2_def SweepExpiredSessions_def query_inv)
    moreover have "s \<in> set (sessions d2)" "users d2 = users d'" using False s(2)
      by (simp_all add: d2_def SweepExpiredSessions_def stmt_def q_deleteExpiredSessions_def s_def)
    ultimately have "SessionUser NetOk tok t d2 = (if to_ts t < s_expires s then Inr u else Inl ErrNoSession)"
      using SessionUser_present [of d2 s u t] s tok(2) by simp
    then show ?thesis using now [of t] by (simp add: d2_def s_def)
  qed
  from u now out sweep show ?thesis by blast
qed

definition alice_db :: db where
  "alice_db = withAccount emptyDB ''alice'' ''a@b'' ''spassword1'' ''h'' 5000"

lemma alice_db_inv: "account_inv alice_db"
  unfolding alice_db_def
proof (rule account_inv_add)
  show "account_inv emptyDB" by (simp add: account_inv_def) (simp add: emptyDB_def)
qed (simp_all add: emptyDB_def validateUsername_def usernameRE_def username_char_def reservedNames_def)

theorem session_lifecycle_witness:
  "\<exists>tok d'. CreateSession (Some (replicate 32 CHR ''t'')) NetOk 1000000 5000 1 alice_db = (Inr tok, d') \<and>
     isOk (SessionUser NetOk tok 6000 d') \<and> SessionUser NetOk tok 2000000 d' = Inl ErrNoSession"
proof -
  obtain tok d' where c: "CreateSession (Some (replicate 32 CHR ''t'')) NetOk 1000000 5000 1 alice_db = (Inr tok, d')"
    by (simp add: CreateSession_def newSessionToken_def stmt_def q_createSession_def token_text alice_db_def
        withAccount_def emptyDB_def newUser_def Let_def)
  have "length (replicate 32 CHR ''t'') = 32" by simp
  from session_lifecycle [OF alice_db_inv this c] c show ?thesis by (auto simp: to_ts_def)
qed

section \<open>Channel titles\<close>

definition long_title :: string where
  "long_title = CHR ''a'' # concat (replicate 100 [CHR 0xC3, CHR 0xA9])"

lemma two_byte: "decodeRune (CHR 0xC3 # CHR 0xA9 # s) = (233, 2)"
  by (simp add: decodeRune_def between_def cont_def)

lemma valid_two_bytes: "validString (concat (replicate n [CHR 0xC3, CHR 0xA9]))"
  by (induction n) (simp_all add: validString.simps two_byte runeError_def)

lemma invalid_two_bytes: "\<not> validString (concat (replicate n [CHR 0xC3, CHR 0xA9]) @ [CHR 0xC3])"
proof (induction n)
  case 0
  show ?case by (simp add: validString.simps decodeRune_def between_def)
next
  case (Suc n)
  then show ?case by (subst validString.simps) (simp add: two_byte)
qed

lemma count_two_bytes: "runeCount (concat (replicate n [CHR 0xC3, CHR 0xA9])) = n"
  by (induction n) (simp_all add: runeCount.simps two_byte)

lemma long_title_cut: "take 200 long_title = CHR ''a'' # concat (replicate 99 [CHR 0xC3, CHR 0xA9]) @ [CHR 0xC3]"
proof -
  have rep: "replicate 100 [CHR 0xC3, CHR 0xA9] = replicate 99 [CHR 0xC3, CHR 0xA9] @ [[CHR 0xC3, CHR 0xA9]]"
    using replicate_add [of 99 1 "[CHR 0xC3, CHR 0xA9]"] by simp
  have "length (concat (replicate n [CHR 0xC3, CHR 0xA9])) = 2 * n" for n by (induction n) simp_all
  then show ?thesis
    unfolding long_title_def rep using take_Cons_numeral by (simp)
qed

lemma validString_a: "validString (CHR ''a'' # s) = validString s"
  by (subst validString.simps) (simp add: decodeRune_ascii runeError_def)

text \<open>
  C33: cutting a title at 200 bytes can make it unstorable.  The title of one ASCII letter and a
  hundred two-byte letters is valid text of 101 characters; \<open>UpdateChannelTitle\<close> cuts it inside
  the last letter, the database rejects the result, and the stored title stays as it was.
\<close>

theorem title_cut_rejected:
  "text_ok long_title \<and> runeCount long_title = 101 \<and>
   auth_UpdateChannelTitle NetOk channelID long_title d = (Inl BadEncoding, d)"
proof -
  have "length (concat (replicate n [CHR 0xC3, CHR 0xA9])) = 2 * n" for n by (induction n) simp_all
  then have len: "length long_title = 201" by (simp add: long_title_def)
  have "CHR 0x00 \<notin> set long_title" by (auto simp: long_title_def)
  then have ok: "text_ok long_title"
    using valid_two_bytes [of 100] by (simp add: text_ok_def long_title_def validString_a)
  have "runeCount long_title = 101"
    unfolding long_title_def using count_two_bytes [of 100]
    by (subst runeCount.simps) (simp add: decodeRune_ascii)
  moreover have "\<not> text_ok (take 200 long_title)"
    unfolding long_title_cut text_ok_def validString_a using invalid_two_bytes by simp
  ultimately show ?thesis using ok len
    by (simp add: auth_UpdateChannelTitle_def stmt_def q_updateChannelTitle_def)
qed

end
