(* ===== verification/Auth_Http.thy ===== *)
theory Auth_Http
  imports Templates Auth_Props Ratelimit
begin

text \<open>
  The HTTP side of \<open>internal/auth\<close>: session cookies (\<open>session.go\<close>), the middleware and the two
  guards (\<open>middleware.go\<close>), and the sign-up, login and logout handlers (\<open>handlers.go\<close>).
\<close>

section \<open>Environment of one request\<close>

record web_ctx =
  wc_bcrypt :: bcrypt
  wc_parse :: "string \<Rightarrow> bool"
  wc_sessionTTL :: duration
  wc_secure :: bool
  wc_pages :: "string list"
  wc_stateDir :: string
  wc_sysText :: "string \<Rightarrow> string"
  wc_dbText :: "db_error \<Rightarrow> string"

text \<open>Clock, randomness and database outcomes, in the order a request can use them.\<close>

record req_env =
  e_now :: time
  e_netSession :: net
  e_net1 :: net
  e_net2 :: net
  e_rnd :: "bytes option"
  e_rndAnon :: "bytes option"
  e_signup :: signup_env

section \<open>Cookies\<close>

definition SessionCookieName :: string where
  "SessionCookieName = ''chtiwt_session''"

definition setSessionCookie :: "string \<Rightarrow> bool \<Rightarrow> int \<Rightarrow> web_response \<Rightarrow> web_response" where
  "setSessionCookie token secure maxAgeSeconds w =
     addHeader (SetCookie \<lparr>ck_name = SessionCookieName, ck_value = token, ck_path = ''/'', ck_maxAge = maxAgeSeconds,
       ck_httpOnly = True, ck_lax = True, ck_secure = secure\<rparr>) w"

definition clearSessionCookie :: "bool \<Rightarrow> web_response \<Rightarrow> web_response" where
  "clearSessionCookie secure w =
     addHeader (SetCookie \<lparr>ck_name = SessionCookieName, ck_value = '''', ck_path = ''/'', ck_maxAge = - 1,
       ck_httpOnly = True, ck_lax = True, ck_secure = secure\<rparr>) w"

section \<open>Middleware and guards\<close>

type_synonym handler = "web_request \<Rightarrow> web_response \<Rightarrow> db \<Rightarrow> web_response \<times> db"

definition Middleware :: "req_env \<Rightarrow> handler \<Rightarrow> handler" where
  "Middleware env nxt r w d =
     (case r_Cookie SessionCookieName r of
        None \<Rightarrow> nxt r w d
      | Some tok \<Rightarrow>
          if tok = '''' then nxt r w d
          else case SessionUser (e_netSession env) tok (e_now env) d of
            Inl _ \<Rightarrow> nxt r (clearSessionCookie False w) d
          | Inr user \<Rightarrow> nxt (r\<lparr>rq_user := Some user\<rparr>) w d)"

definition UserFromContext :: "web_request \<Rightarrow> User option" where
  "UserFromContext r = rq_user r"

definition RequireAuth :: "handler \<Rightarrow> handler" where
  "RequireAuth nxt r w d =
     (if UserFromContext r = None then (http_Redirect BText r ''/login'' 303 w, d) else nxt r w d)"

definition RequireGuest :: "handler \<Rightarrow> handler" where
  "RequireGuest nxt r w d =
     (if UserFromContext r \<noteq> None then (http_Redirect BText r ''/dashboard'' 303 w, d) else nxt r w d)"

section \<open>Handlers\<close>

text \<open>The cookie age in seconds: \<open>int(sessionTTL.Seconds())\<close>, truncated towards zero.\<close>

definition cookieMaxAge :: "duration \<Rightarrow> int" where
  "cookieMaxAge ttl = (let s = dur_Seconds ttl in if 0 \<le> s then \<lfloor>s\<rfloor> else \<lceil>s\<rceil>)"

text \<open>
  \<open>err.Error()\<close>; the texts of the wrapped database and system errors come from outside (\<open>wc_dbText\<close>,
  \<open>wc_sysText\<close>).
\<close>

fun err_Error :: "web_ctx \<Rightarrow> auth_error \<Rightarrow> string" where
  "err_Error c ErrUsernameTaken = ''username is taken''"
| "err_Error c ErrEmailTaken = ''email is taken''"
| "err_Error c ErrInvalidUsername = ''username must be 3-32 chars, letters/digits/underscore only''"
| "err_Error c ErrReservedUsername = ''username is reserved''"
| "err_Error c ErrInvalidEmail = ''email is not valid''"
| "err_Error c ErrInvalidPassword = ''password must be 8-72 chars''"
| "err_Error c ErrBadCredentials = ''invalid username or password''"
| "err_Error c ErrNoSession = ''no session''"
| "err_Error c ErrNoChannel = ''no channel for user''"
| "err_Error c (Wrapped s) = s @ '': '' @ wc_sysText c s"
| "err_Error c (WrappedDb s e) = s @ '': '' @ wc_dbText c e"

definition h_signupForm :: "web_ctx \<Rightarrow> handler" where
  "h_signupForm c r w d =
     (snd (Render (wc_pages c) r (PgSignup \<lparr>sf_username = '''', sf_email = '''', sf_error = ''''\<rparr>) w), d)"

definition h_signup :: "web_ctx \<Rightarrow> req_env \<Rightarrow> handler" where
  "h_signup c env r w d =
     (case rq_form r of
        None \<Rightarrow> (http_Error BText ''bad form'' 400 w, d)
      | Some f \<Rightarrow>
          (let uname = form_Get f ''username''; email = form_Get f ''email''; password = form_Get f ''password''
           in case Signup (wc_bcrypt c) (wc_parse c) (e_signup env) uname email password d of
                (Inl e, d1) \<Rightarrow>
                  (snd (Render (wc_pages c) r
                     (PgSignup \<lparr>sf_username = uname, sf_email = email, sf_error = err_Error c e\<rparr>) (WriteHeader 400 w)), d1)
              | (Inr (user, plainKey), d1) \<Rightarrow>
                  (case CreateSession (e_rnd env) (e_net2 env) (wc_sessionTTL c) (e_now env) (u_id user) d1 of
                     (Inl e, d2) \<Rightarrow> (http_Error BText ''internal error'' 500 w, d2)
                   | (Inr token, d2) \<Rightarrow>
                       (snd (Render (wc_pages c) r (PgKeyShown \<lparr>ks_heading = ''Welcome to chtiwt'', ks_plain = plainKey,
                             ks_cta = ''Continue to dashboard'', ks_href = ''/dashboard''\<rparr>)
                          (setSessionCookie token (wc_secure c) (cookieMaxAge (wc_sessionTTL c)) w)), d2))))"

definition h_loginForm :: "web_ctx \<Rightarrow> handler" where
  "h_loginForm c r w d = (snd (Render (wc_pages c) r (PgLogin \<lparr>lf_username = '''', lf_error = ''''\<rparr>) w), d)"

definition h_login :: "web_ctx \<Rightarrow> req_env \<Rightarrow> handler" where
  "h_login c env r w d =
     (case rq_form r of
        None \<Rightarrow> (http_Error BText ''bad form'' 400 w, d)
      | Some f \<Rightarrow>
          (let uname = form_Get f ''username''; password = form_Get f ''password''
           in case Login (wc_bcrypt c) (e_net1 env) uname password d of
                Inl e \<Rightarrow>
                  (let msg = (if e = ErrBadCredentials then err_Error c e else ''login failed'')
                   in (snd (Render (wc_pages c) r (PgLogin \<lparr>lf_username = uname, lf_error = msg\<rparr>) (WriteHeader 401 w)), d))
              | Inr user \<Rightarrow>
                  (case CreateSession (e_rnd env) (e_net2 env) (wc_sessionTTL c) (e_now env) (u_id user) d of
                     (Inl e, d1) \<Rightarrow> (http_Error BText ''internal error'' 500 w, d1)
                   | (Inr token, d1) \<Rightarrow>
                       (http_Redirect BText r ''/dashboard'' 303
                          (setSessionCookie token (wc_secure c) (cookieMaxAge (wc_sessionTTL c)) w), d1))))"

definition h_logout :: "web_ctx \<Rightarrow> req_env \<Rightarrow> handler" where
  "h_logout c env r w d =
     (let d1 = (case r_Cookie SessionCookieName r of None \<Rightarrow> d | Some tok \<Rightarrow> snd (Logout (e_net1 env) tok d))
      in (http_Redirect BText r ''/'' 303 (clearSessionCookie (wc_secure c) w), d1))"

end
