(* ===== verification/Ringbuf.thy ===== *)
theory Ringbuf
  imports Prelude
begin

text \<open>
  \<open>internal/stream/ringbuf.go\<close>, and the stderr drain of \<open>internal/stream/ffmpeg.go\<close> that is
  its only client.  The record \<open>ringBuffer\<close> has the source's fields; \<open>Write\<close> and \<open>Snapshot\<close>
  follow the source branch by branch over Go's \<open>copy\<close>.  The interface \<open>tail_buffer\<close> says
  what a client may rely on: the contents are always the last \<open>cap\<close> bytes ever written.
\<close>

section \<open>The ring buffer\<close>

record ringBuffer =
  buf :: bytes
  rb_size :: nat
  full :: bool
  head :: nat

definition newRingBuffer :: "nat \<Rightarrow> ringBuffer" where
  "newRingBuffer capacity =
     \<lparr>buf = replicate capacity (CHR 0x00), rb_size = capacity, full = False, head = 0\<rparr>"

definition Write :: "ringBuffer \<Rightarrow> bytes \<Rightarrow> nat \<times> ringBuffer" where
  "Write r p =
     (let n = length p in
      if rb_size r \<le> n then
        (n, r\<lparr>buf := copy_at 0 (drop (n - rb_size r) p) (buf r), head := 0, full := True\<rparr>)
      else
        let r1 =
          (if head r + n \<le> rb_size r then r\<lparr>buf := copy_at (head r) p (buf r)\<rparr>
           else
             let k = rb_size r - head r;
                 b1 = copy_at (head r) (take k p) (buf r);
                 b2 = copy_at 0 (drop k p) b1
             in r\<lparr>buf := b2, full := True\<rparr>);
          r2 = r1\<lparr>head := head r1 + n\<rparr>;
          r3 = (if rb_size r2 \<le> head r2 then r2\<lparr>head := head r2 - rb_size r2, full := True\<rparr> else r2)
        in (n, r3))"

definition Snapshot :: "ringBuffer \<Rightarrow> bytes" where
  "Snapshot r =
     (if \<not> full r then
        copy_at 0 (take (head r) (buf r)) (replicate (head r) (CHR 0x00))
      else
        let out0 = replicate (rb_size r) (CHR 0x00);
            out1 = copy_at 0 (drop (head r) (buf r)) out0
        in copy_at (rb_size r - head r) (take (head r) (buf r)) out1)"

definition rb_inv :: "ringBuffer \<Rightarrow> bool" where
  "rb_inv r \<longleftrightarrow> length (buf r) = rb_size r \<and> (head r < rb_size r \<or> head r = 0)"

section \<open>Contents and refinement\<close>

lemma rb_inv_new [inv_intros]: "rb_inv (newRingBuffer n)"
  by (simp add: rb_inv_def newRingBuffer_def)

lemma Snapshot_eq:
  assumes "rb_inv r"
  shows "Snapshot r = (if full r then drop (head r) (buf r) @ take (head r) (buf r)
                       else take (head r) (buf r))"
  using assms by (auto simp: rb_inv_def Snapshot_def copy_at_def Let_def min_def)

lemma Write_long:
  assumes "rb_inv r" and "rb_size r \<le> length p"
  shows "Write r p = (length p, r\<lparr>buf := lastn (rb_size r) p, head := 0, full := True\<rparr>)"
  using assms by (auto simp: Write_def Let_def rb_inv_def copy_at_def lastn_def)

lemma Write_short:
  assumes "rb_inv r" and "length p < rb_size r"
  shows "Write r p =
    (length p,
     if head r + length p < rb_size r
     then r\<lparr>buf := take (head r) (buf r) @ p @ drop (head r + length p) (buf r),
            head := head r + length p\<rparr>
     else r\<lparr>buf := drop (rb_size r - head r) p @
                   drop (head r + length p - rb_size r) (take (head r) (buf r)) @
                   take (rb_size r - head r) p,
            head := head r + length p - rb_size r, full := True\<rparr>)"
proof -
  have len: "length (buf r) = rb_size r" and hd: "head r < rb_size r"
    using assms by (auto simp: rb_inv_def)
  consider (fit) "head r + length p < rb_size r" | (exact) "head r + length p = rb_size r"
    | (wrap) "rb_size r < head r + length p" by linarith
  then show ?thesis
  proof cases
    case fit
    with len assms(2) show ?thesis by (simp add: Write_def Let_def copy_at_fits)
  next
    case exact
    then have "rb_size r - head r = length p" by simp
    with exact len assms(2) show ?thesis by (simp add: Write_def Let_def copy_at_fits)
  next
    case wrap
    define k where "k = rb_size r - head r"
    have "length p - k = head r + length p - rb_size r" "k \<le> length p" "head r + k = rb_size r"
      using wrap hd by (simp_all add: k_def)
    with wrap len assms(2) show ?thesis
      by (simp add: Write_def Let_def copy_at_fits flip: k_def)
  qed
qed

lemma Write_inv [inv_intros]: "rb_inv r \<Longrightarrow> rb_inv (snd (Write r p))"
proof (cases "rb_size r \<le> length p")
  case True
  assume "rb_inv r"
  with True show ?thesis by (simp add: Write_long) (simp add: rb_inv_def)
next
  case False
  assume "rb_inv r"
  with False show ?thesis by (simp add: Write_short) (auto simp: rb_inv_def)
qed

lemma Write_size [simp]: "rb_inv r \<Longrightarrow> rb_size (snd (Write r p)) = rb_size r"
  by (cases "rb_size r \<le> length p") (simp_all add: Write_long Write_short)

lemma Write_count [simp]: "fst (Write r p) = length p"
  by (simp add: Write_def Let_def)

lemma Snapshot_Write_wrap:
  assumes "rb_inv r" "length p < rb_size r" "rb_size r \<le> head r + length p"
  shows "Snapshot (snd (Write r p)) = drop (head r + length p - rb_size r) (take (head r) (buf r)) @ p"
proof -
  have "Snapshot (snd (Write r p)) =
      (let b = buf (snd (Write r p)); h = head r + length p - rb_size r in drop h b @ take h b)"
    using Snapshot_eq [OF Write_inv [OF assms(1), of p]] assms by (simp add: Write_short Let_def)
  then show ?thesis using assms by (simp add: Write_short Let_def) (auto simp: rb_inv_def)
qed

lemma Snapshot_Write:
  assumes "rb_inv r"
  shows "Snapshot (snd (Write r p)) = lastn (rb_size r) (Snapshot r @ p)"
proof -
  note snap = Snapshot_eq [OF Write_inv [OF assms, of p]] Snapshot_eq [OF assms]
  have len: "length (buf r) = rb_size r" and hd: "head r < rb_size r \<or> head r = 0"
    using assms by (auto simp: rb_inv_def)
  consider (long) "rb_size r \<le> length p" | (fit) "head r + length p < rb_size r"
    | (wrap) "length p < rb_size r" "rb_size r \<le> head r + length p" by linarith
  then show ?thesis
  proof cases
    case long
    then show ?thesis using assms unfolding snap by (simp add: Write_long lastn_append_long)
  next
    case fit
    then show ?thesis using assms len hd unfolding snap
      by (simp add: Write_short) (auto simp: lastn_def add.commute)
  next
    case wrap
    then show ?thesis using len hd
      by (simp add: Snapshot_Write_wrap [OF assms] snap(2)) (auto simp: lastn_def add.commute)
  qed
qed

section \<open>The interface of a tail buffer\<close>

text \<open>
  What the stderr drain relies on.  The contents after a write are the last \<open>cap\<close> bytes of
  the old contents followed by the new ones; the client lemma lifts this to any sequence of
  writes, whatever their sizes and however they are cut.
\<close>

locale tail_buffer =
  fixes empty :: "'b"
    and put :: "'b \<Rightarrow> bytes \<Rightarrow> 'b"
    and contents :: "'b \<Rightarrow> bytes"
    and cap :: "'b \<Rightarrow> nat"
    and invar :: "'b \<Rightarrow> bool"
  assumes contents_empty: "contents empty = []"
    and contents_put: "invar b \<Longrightarrow> contents (put b p) = lastn (cap b) (contents b @ p)"
    and cap_put: "invar b \<Longrightarrow> cap (put b p) = cap b"
    and invar_empty: "invar empty"
    and invar_put: "invar b \<Longrightarrow> invar (put b p)"
begin

lemma invar_writes: "invar b \<Longrightarrow> invar (foldl put b ps) \<and> cap (foldl put b ps) = cap b"
  by (induction ps arbitrary: b) (simp_all add: invar_put cap_put)

lemma contents_writes:
  "invar b \<Longrightarrow> length (contents b) \<le> cap b \<Longrightarrow>
   contents (foldl put b ps) = lastn (cap b) (contents b @ concat ps)"
proof (induction ps rule: rev_induct)
  case (snoc p ps)
  then show ?case using invar_writes [of b ps]
    by (simp add: contents_put flip: append_assoc)
qed simp

lemma contents_writes_empty: "contents (foldl put empty ps) = lastn (cap empty) (concat ps)"
  using contents_writes [OF invar_empty] by (simp add: contents_empty)

end

interpretation ring: tail_buffer "newRingBuffer n" "\<lambda>r p. snd (Write r p)" Snapshot rb_size rb_inv for n
  by unfold_locales
    (simp_all add: inv_intros Snapshot_Write, simp add: Snapshot_def newRingBuffer_def copy_at_def)

end
