(* ===== verification/Ffmpeg.thy ===== *)
theory Ffmpeg
  imports Ringbuf Filepath
begin

text \<open>
  \<open>internal/stream/ffmpeg.go\<close>: the command line handed to the ffmpeg subprocess, the error
  paths of \<open>startFFmpeg\<close>, and the goroutine that drains the process's stderr through
  \<open>bufio.Scanner\<close> into the ring buffer.  The operating system decides whether the pipes and
  the process can be created; those three outcomes are arguments of \<open>startFFmpeg\<close>.
\<close>

section \<open>Options and process\<close>

record ffmpegOpts =
  binPath :: string
  opt_channelName :: string
  opt_stateDir :: string
  segDuration :: nat
  listSize :: nat

record ffmpegProc =
  cmd :: "string \<times> string list"
  stdin_open :: bool
  stderrBuf :: ringBuffer
  proc_done :: bool
  waitErr :: "string option"

definition ffmpeg_outDir :: "ffmpegOpts \<Rightarrow> string" where
  "ffmpeg_outDir opts = filepath_Join [opt_stateDir opts, opt_channelName opts]"

definition ffmpeg_args :: "ffmpegOpts \<Rightarrow> string list" where
  "ffmpeg_args opts =
     (let outDir = ffmpeg_outDir opts;
          segPattern = filepath_Join [outDir, ''seg_%05d.ts''];
          playlist = filepath_Join [outDir, ''index.m3u8''];
          thumb = filepath_Join [outDir, ''thumb.jpg'']
      in [''-hide_banner'',
          ''-loglevel'', ''warning'',
          ''-f'', ''flv'', ''-i'', ''pipe:0'',
          ''-map'', ''0'',
          ''-c:v'', ''copy'', ''-c:a'', ''copy'',
          ''-f'', ''hls'',
          ''-hls_time'', show_nat (segDuration opts),
          ''-hls_list_size'', show_nat (listSize opts),
          ''-hls_flags'', ''delete_segments+independent_segments'',
          ''-hls_segment_filename'', segPattern,
          playlist,
          ''-map'', ''0:v:0'',
          ''-vf'', ''fps=1/10,scale=320:180:force_original_aspect_ratio=decrease,pad=320:180:(ow-iw)/2:(oh-ih)/2:black'',
          ''-update'', ''1'',
          ''-y'',
          ''-f'', ''image2'',
          thumb])"

datatype ffmpegError = FfmpegStdinPipe string | FfmpegStderrPipe string | FfmpegStart string

text \<open>
  The result is the error together with what was released on the way out (the stdin pipe,
  when it had been created), or the running process.
\<close>

definition startFFmpeg ::
  "ffmpegOpts \<Rightarrow> string option \<Rightarrow> string option \<Rightarrow> string option \<Rightarrow> ffmpegError + ffmpegProc" where
  "startFFmpeg opts stdinErr stderrErr startErr =
     (case stdinErr of
        Some e \<Rightarrow> Inl (FfmpegStdinPipe e)
      | None \<Rightarrow>
        (case stderrErr of
           Some e \<Rightarrow> Inl (FfmpegStderrPipe e)
         | None \<Rightarrow>
           (case startErr of
              Some e \<Rightarrow> Inl (FfmpegStart e)
            | None \<Rightarrow>
              Inr \<lparr>cmd = (binPath opts, ffmpeg_args opts), stdin_open = True,
                   stderrBuf = newRingBuffer (8 * 1024), proc_done = False, waitErr = None\<rparr>)))"

section \<open>The stderr drain\<close>

text \<open>
  \<open>bufio.Scanner\<close> with \<open>ScanLines\<close> and a one mebibyte token limit: a token is a line without
  its newline and without one trailing carriage return; a line that fills the buffer before
  its newline is seen makes \<open>Scan\<close> return false, which ends the drain.
\<close>

definition maxTokenSize :: nat where
  "maxTokenSize = 1024 * 1024"

definition newline :: byte where
  "newline = CHR 0x0A"

definition dropCR :: "bytes \<Rightarrow> bytes" where
  "dropCR l = (if l \<noteq> [] \<and> last l = CHR 0x0D then butlast l else l)"

function scanTokens :: "nat \<Rightarrow> bytes \<Rightarrow> bytes list" where
  "scanTokens lim s =
     (if s = [] then []
      else let line = takeWhile (\<lambda>c. c \<noteq> newline) s; rest = drop (length line) s
           in if lim \<le> length line then []
              else case rest of
                     [] \<Rightarrow> [dropCR line]
                   | _ # s' \<Rightarrow> dropCR line # scanTokens lim s')"
  by pat_completeness auto
termination
  by (relation "measure (length \<circ> snd)") (auto dest: drop_eq_Cons_length [OF sym])

declare scanTokens.simps [simp del]

text \<open>
  The drain goroutine races with \<open>cmd.Wait\<close>, which closes the pipe when the process exits, and with
  the reader of the tail.  So of the bytes ffmpeg has written only the first \<open>got\<close> may arrive
  (\<open>Scan\<close> hands out an unfinished last line as a token), and of the writes into the ring only
  the first \<open>k\<close> may have been made: each token is one write, its newline another.
\<close>

definition drain_writes :: "bytes list \<Rightarrow> bytes list" where
  "drain_writes toks = concat (map (\<lambda>tok. [tok, [newline]]) toks)"

definition drain_stderr :: "nat \<Rightarrow> nat \<Rightarrow> ffmpegProc \<Rightarrow> bytes \<Rightarrow> ffmpegProc" where
  "drain_stderr got k p written =
     p\<lparr>stderrBuf := foldl (\<lambda>r b. snd (Write r b)) (stderrBuf p)
        (take k (drain_writes (scanTokens maxTokenSize (take got written))))\<rparr>"

text \<open>The drain has seen all output and made all its writes.\<close>

definition drained :: "nat \<Rightarrow> nat \<Rightarrow> bytes \<Rightarrow> bool" where
  "drained got k written \<longleftrightarrow> length written \<le> got \<and> length (drain_writes (scanTokens maxTokenSize written)) \<le> k"

definition stderrTail :: "ffmpegProc \<Rightarrow> bytes" where
  "stderrTail p = Snapshot (stderrBuf p)"

text \<open>Output that the line splitter passes through unchanged: newline-terminated, no line
  over the limit, no carriage return before a newline.\<close>

function clean_lines :: "nat \<Rightarrow> bytes \<Rightarrow> bool" where
  "clean_lines lim s =
     (s = [] \<or>
      (let line = takeWhile (\<lambda>c. c \<noteq> newline) s; rest = drop (length line) s
       in length line < lim \<and> dropCR line = line \<and>
          (case rest of [] \<Rightarrow> False | _ # s' \<Rightarrow> clean_lines lim s')))"
  by pat_completeness auto
termination
  by (relation "measure (length \<circ> snd)") (auto dest: drop_eq_Cons_length [OF sym])

declare clean_lines.simps [simp del]

section \<open>Lemmas\<close>

lemma concat_drain_writes: "concat (drain_writes ts) = concat (map (\<lambda>t. t @ [newline]) ts)"
  by (induction ts) (simp_all add: drain_writes_def)

lemma tail_drain:
  assumes "startFFmpeg opts None None None = Inr p"
  shows "stderrTail (drain_stderr got k p s)
    = lastn 8192 (concat (take k (drain_writes (scanTokens maxTokenSize (take got s)))))"
proof -
  have "stderrBuf p = newRingBuffer 8192" using assms by (auto simp: startFFmpeg_def)
  then show ?thesis
    using ring.contents_writes_empty [of 8192 "take k (drain_writes (scanTokens maxTokenSize (take got s)))"]
    by (simp add: stderrTail_def drain_stderr_def newRingBuffer_def)
qed

lemma scanTokens_clean:
  "clean_lines lim s \<Longrightarrow> concat (map (\<lambda>t. t @ [newline]) (scanTokens lim s)) = s"
proof (induction lim s rule: scanTokens.induct)
  case (1 lim s)
  show ?case
  proof (cases "s = []")
    case True
    then show ?thesis by (simp add: scanTokens.simps)
  next
    case False
    define line where "line = takeWhile (\<lambda>c. c \<noteq> newline) s"
    from False "1.prems" obtain c s' where rest: "drop (length line) s = c # s'"
      and l: "length line < lim" "dropCR line = line" "clean_lines lim s'"
      by (subst (asm) clean_lines.simps) (auto simp: line_def Let_def split: list.splits)
    then have "s = line @ c # s'" "c = newline"
      using takeWhile_rest [of "\<lambda>c. c \<noteq> newline" s c s'] by (auto simp: line_def)
    moreover have "scanTokens lim s = line # scanTokens lim s'"
      using False l rest line_def by (subst scanTokens.simps) (simp add: Let_def)
    ultimately show ?thesis
      using "1.IH" [OF False line_def refl _ rest] l by simp
  qed
qed

text \<open>Output cut off anywhere is passed on up to the cut, with a newline added if the cut is inside a line.\<close>

lemma dropCR_prefix: "\<exists>m \<le> length l. dropCR l = take m l"
  by (auto simp: dropCR_def butlast_conv_take intro: exI [of _ "length l"] exI [of _ "length l - 1"])

lemma scanTokens_cut:
  "clean_lines lim s \<Longrightarrow>
   \<exists>m. concat (map (\<lambda>t. t @ [newline]) (scanTokens lim (take n s))) \<in> {take m s, take m s @ [newline]} \<and> m \<le> n"
proof (induction lim s arbitrary: n rule: scanTokens.induct)
  case (1 lim s)
  show ?case
  proof (cases "take n s = []")
    case True
    then show ?thesis by (intro exI [of _ 0]) (simp add: scanTokens.simps)
  next
    case False
    then have ne: "s \<noteq> []" by auto
    define line where "line = takeWhile (\<lambda>c. c \<noteq> newline) s"
    from ne "1.prems" obtain c s' where rest: "drop (length line) s = c # s'"
      and l: "length line < lim" "dropCR line = line" "clean_lines lim s'"
      by (subst (asm) clean_lines.simps) (auto simp: line_def Let_def split: list.splits)
    then have s: "s = line @ newline # s'" and nl: "newline \<notin> set line"
      using takeWhile_rest [of "\<lambda>c. c \<noteq> newline" s c s'] by (auto simp: line_def dest: set_takeWhileD)
    show ?thesis
    proof (cases "n \<le> length line")
      case True
      then have t: "take n s = take n line" by (simp add: s)
      have no: "newline \<notin> set (take n line)" using nl by (auto dest: in_set_takeD)
      then have tw: "takeWhile (\<lambda>c. c \<noteq> newline) (take n line) = take n line"
        by (auto simp: takeWhile_eq_all_conv)
      have "scanTokens lim (take n s) = [dropCR (take n line)]"
        using False l(1) unfolding t by (subst scanTokens.simps) (auto simp: tw Let_def)
      moreover obtain m where "m \<le> length (take n line)" "dropCR (take n line) = take m (take n line)"
        using dropCR_prefix by blast
      ultimately show ?thesis using True by (intro exI [of _ m]) (simp add: s min_absorb1)
    next
      case False
      then obtain n' where n: "n = length line + Suc n'" by (metis add_Suc_right less_imp_Suc_add not_less)
      then have t: "take n s = line @ newline # take n' s'" by (simp add: s)
      have tw: "takeWhile (\<lambda>c. c \<noteq> newline) (line @ newline # take n' s') = line"
        using nl by (simp add: takeWhile_append)
      have sc: "scanTokens lim (take n s) = line # scanTokens lim (take n' s')"
        unfolding t using l by (subst scanTokens.simps) (simp add: tw Let_def)
      obtain m where "concat (map (\<lambda>t. t @ [newline]) (scanTokens lim (take n' s'))) \<in> {take m s', take m s' @ [newline]}" "m \<le> n'"
        using "1.IH" [OF ne line_def refl _ rest l(3), of n'] l(1) by auto
      then show ?thesis using sc n by (intro exI [of _ "length line + Suc m"]) (auto simp: s)
    qed
  qed
qed

lemma concat_take_prefix: "\<exists>m. concat (take k xs) = take m (concat xs)"
  by (rule exI [of _ "length (concat (take k xs))"]) (metis append_eq_conv_conj append_take_drop_id concat_append)

text \<open>
  What the command line makes ffmpeg write, by its documented grammar: an option starts with a
  dash and takes the next argument as its value unless it is a flag; every other argument is an
  output.  The HLS muxer also writes the files its segment option names.
\<close>

fun written_files :: "string list \<Rightarrow> string list" where
  "written_files [] = []"
| "written_files (a # as) =
     (if a \<in> {''-hide_banner'', ''-y''} then written_files as
      else if take 1 a = ''-''
      then (case as of
              [] \<Rightarrow> []
            | v # as' \<Rightarrow> (if a = ''-hls_segment_filename'' then [v] else []) @ written_files as')
      else a # written_files as)"

definition output_names :: "string list" where
  "output_names = [''seg_%05d.ts'', ''index.m3u8'', ''thumb.jpg'']"

lemma output_names_plain: "f \<in> set output_names \<Longrightarrow> plain_name f"
  by (auto simp: output_names_def plain_name_def)

lemma take1_Join:
  assumes "opt_stateDir opts \<noteq> ''''" "plain_name (opt_channelName opts)" "plain_name f"
  shows "take 1 (filepath_Join [ffmpeg_outDir opts, f]) = take 1 (ffmpeg_outDir opts)"
    and "is_rooted (filepath_Join [ffmpeg_outDir opts, f]) = is_rooted (opt_stateDir opts)"
proof -
  let ?ws = "clean_parts (opt_stateDir opts) @ [opt_channelName opts]"
  have out: "ffmpeg_outDir opts = (if is_rooted (opt_stateDir opts) then CHR ''/'' # join_slash ?ws else join_slash ?ws)"
    using Join_child [OF assms(1,2)] by (simp add: ffmpeg_outDir_def)
  have parts: "clean_parts (ffmpeg_outDir opts) = ?ws"
    using clean_parts_Join [OF assms(1,2)] by (simp add: ffmpeg_outDir_def)
  have ok: "\<forall>w \<in> set ?ws. CHR ''/'' \<notin> set w \<and> w \<noteq> []"
    using ok_stack_no_slash [OF clean_parts_ok [of "opt_stateDir opts"]] assms(2) by (auto simp: plain_name_def)
  have nr: "\<not> is_rooted (join_slash ?ws)" "join_slash ?ws \<noteq> []"
    using not_rooted_join [OF _ ok] assms(2) by (auto simp: join_slash_snoc plain_name_def)
  have r: "is_rooted (ffmpeg_outDir opts) = is_rooted (opt_stateDir opts)" "ffmpeg_outDir opts \<noteq> []"
    using nr by (auto simp: out is_rooted_def)
  have j: "filepath_Join [ffmpeg_outDir opts, f] = ffmpeg_outDir opts @ CHR ''/'' # f"
  proof -
    have "join_slash (?ws @ [f]) = join_slash ?ws @ CHR ''/'' # f" by (subst join_slash_snoc) simp
    then show ?thesis unfolding Join_child [OF r(2) assms(3)] parts r(1) by (simp add: out)
  qed
  show "take 1 (filepath_Join [ffmpeg_outDir opts, f]) = take 1 (ffmpeg_outDir opts)"
    unfolding j using r(2) by (cases "ffmpeg_outDir opts") simp_all
  show "is_rooted (filepath_Join [ffmpeg_outDir opts, f]) = is_rooted (opt_stateDir opts)"
    unfolding j using r by (simp add: is_rooted_append)
qed

section \<open>Properties\<close>

text \<open>
  C22: the ring buffer keeps the tail of everything written to it: after any sequence of
  writes, of any sizes, a snapshot of a buffer of capacity \<open>n\<close> is exactly the last \<open>n\<close>
  bytes of the concatenation (all of them while fewer were written).
\<close>

theorem ringBuffer_keeps_tail:
  "Snapshot (foldl (\<lambda>r p. snd (Write r p)) (newRingBuffer n) ps) = lastn n (concat ps)"
  using ring.contents_writes_empty [of n ps] by (simp add: newRingBuffer_def)


definition demo_opts :: ffmpegOpts where
  "demo_opts = \<lparr>binPath = ''ffmpeg'', opt_channelName = ''alice'', opt_stateDir = ''./state'',
     segDuration = 2, listSize = 6\<rparr>"


text \<open>
  C24: ffmpeg writes only into the channel's own directory.  The files the command line makes it
  write are the segments, the playlist and the thumbnail and no others, and each of them lies
  directly in a directory of the channel's name that is a direct child of the configured state
  directory.  This is for every channel name that is a plain path component and every state
  directory whose cleaned path does not begin with a dash (ffmpeg would read that as an option).
\<close>

theorem ffmpeg_writes_in_channel_dir:
  assumes dir: "opt_stateDir opts \<noteq> ''''" and nm: "plain_name (opt_channelName opts)"
    and dash: "take 1 (ffmpeg_outDir opts) \<noteq> ''-''"
  shows "written_files (ffmpeg_args opts) = map (\<lambda>f. filepath_Join [ffmpeg_outDir opts, f]) output_names \<and>
    (\<forall>path \<in> set (written_files (ffmpeg_args opts)). \<exists>f \<in> set output_names.
       clean_parts path = clean_parts (opt_stateDir opts) @ [opt_channelName opts, f] \<and>
       is_rooted path = is_rooted (opt_stateDir opts))"
proof -
  note t = take1_Join [OF dir nm output_names_plain]
  have ne: "filepath_Join [ffmpeg_outDir opts, f] \<notin> {''-hide_banner'', ''-y''}"
    "take (Suc 0) (filepath_Join [ffmpeg_outDir opts, f]) \<noteq> ''-''" if "f \<in> set output_names" for f
    using t(1) [OF that] dash by auto
  have w: "written_files (ffmpeg_args opts) = map (\<lambda>f. filepath_Join [ffmpeg_outDir opts, f]) output_names"
    using ne by (simp add: ffmpeg_args_def output_names_def Let_def)
  have out: "clean_parts (ffmpeg_outDir opts) = clean_parts (opt_stateDir opts) @ [opt_channelName opts]" "ffmpeg_outDir opts \<noteq> ''''"
    using clean_parts_Join [OF dir nm] Join_not_Nil [OF dir nm] by (simp_all add: ffmpeg_outDir_def)
  have "clean_parts (filepath_Join [ffmpeg_outDir opts, f]) = clean_parts (opt_stateDir opts) @ [opt_channelName opts, f]"
    if "f \<in> set output_names" for f
    using clean_parts_Join [OF out(2) output_names_plain [OF that]] out(1) by simp
  then show ?thesis using w t(2) by auto
qed

theorem ffmpeg_writes_in_channel_dir_witness:
  "plain_name (opt_channelName demo_opts) \<and> length (written_files (ffmpeg_args demo_opts)) = 3 \<and>
   list_all (\<lambda>path. take 2 (clean_parts path) = [''state'', ''alice'']) (written_files (ffmpeg_args demo_opts))"
proof -
  have parts: "clean_parts (opt_stateDir demo_opts) = [''state'']" and h: "opt_stateDir demo_opts \<noteq> ''''" "plain_name (opt_channelName demo_opts)"
    by (simp_all add: demo_opts_def plain_name_def clean_parts_def clean_step_def is_rooted_def)
  have "take 1 (ffmpeg_outDir demo_opts) \<noteq> ''-''"
    using Join_child [OF h] parts by (simp add: ffmpeg_outDir_def demo_opts_def is_rooted_def)
  from ffmpeg_writes_in_channel_dir [OF h this] parts
  have "length (written_files (ffmpeg_args demo_opts)) = 3"
    "\<forall>path \<in> set (written_files (ffmpeg_args demo_opts)). \<exists>f. clean_parts path = [''state'', ''alice'', f]"
    by (fastforce simp: output_names_def demo_opts_def)+
  then show ?thesis using h(2) unfolding list_all_iff by fastforce
qed

end
