(* ===== verification/Stream.thy ===== *)
theory Stream
  imports Auth_Props Ffmpeg "HOL-Library.Finite_Map" "HOL-Library.Sublist"
begin

text \<open>
  \<open>internal/stream\<close>: the live registry (\<open>registry.go\<close>), the session with its six-phase
  \<open>tearDown\<close> (\<open>session.go\<close>), the RTMP ingest handler (\<open>ingest.go\<close>) and the service facade
  (\<open>service.go\<close>).  The record \<open>streamsvc\<close> holds the registry, the session objects, the ffmpeg
  processes, the handlers of the RTMP connections, the database and the files below the state
  directory.  One event is one atomic move of one goroutine: a stage of \<open>OnPublish\<close>, a phase of
  \<open>tearDown\<close>, a process exit, the watchdog, a closed connection, a step of the shutdown loop.
  An event list is therefore an interleaving.
\<close>

section \<open>Sessions\<close>

type_synonym sid = nat
type_synonym pid = nat
type_synonym hid = nat

record LiveChannel =
  lc_name :: string
  lc_title :: string
  lc_started :: time

text \<open>
  Where the winner of \<open>sync.Once\<close> stands in \<open>tearDown\<close>: closing the pipe, waiting for ffmpeg,
  waiting after the kill, removing the registry entry, closing the row, removing the files,
  done.  The argument is the reason of the first caller.
\<close>

datatype tdstate =
    TdIdle
  | TdPipe string
  | TdWait string
  | TdKill string
  | TdRegistry string
  | TdRow string
  | TdFiles string
  | TdDone string

datatype tagKind = TagScriptData | TagAudio | TagVideo

record FlvTag =
  tagType :: tagKind
  tagTime :: "32 word"
  tagData :: bytes

record session =
  channelID :: int
  channelName :: string
  title :: string
  startedAt :: time
  pipe_open :: bool
  fed :: "FlvTag list"
  cancelled :: bool
  ffmpeg :: pid
  dbRowID :: int
  sess_stateDir :: string
  td :: tdstate

definition toDTO :: "session \<Rightarrow> LiveChannel" where
  "toDTO s = \<lparr>lc_name = channelName s, lc_title = title s, lc_started = startedAt s\<rparr>"

section \<open>Registry\<close>

type_synonym liveRegistry = "(string, sid) fmap"

definition registry_add :: "string \<Rightarrow> sid \<Rightarrow> liveRegistry \<Rightarrow> bool \<times> liveRegistry" where
  "registry_add nm i r = (case fmlookup r nm of Some _ \<Rightarrow> (False, r) | None \<Rightarrow> (True, fmupd nm i r))"

definition registry_remove :: "string \<Rightarrow> liveRegistry \<Rightarrow> liveRegistry" where
  "registry_remove nm r = fmdrop nm r"

definition registry_get :: "string \<Rightarrow> liveRegistry \<Rightarrow> sid option" where
  "registry_get nm r = fmlookup r nm"

text \<open>The iteration order of the map is an argument.\<close>

definition registry_snapshot :: "(string fset \<Rightarrow> string list) \<Rightarrow> liveRegistry \<Rightarrow> sid list" where
  "registry_snapshot iter r = List.map_filter (fmlookup r) (iter (fmdom r))"

section \<open>Ingest handlers\<close>

datatype ingest_error =
    EmptyStreamKey
  | ErrUnknownStreamKey
  | LookupFailed db_error
  | RowFailed db_error
  | MkdirFailed
  | FfmpegFailed ffmpegError
  | EncoderFailed
  | ErrAlreadyLive

text \<open>The stages of \<open>OnPublish\<close>, with its local variables.\<close>

datatype stage =
    Idle
  | GotChannel Channel
  | GotRow Channel time int
  | GotDir Channel time int
  | GotProc Channel time int pid
  | GotEnc Channel time int pid
  | Refused ingest_error
  | Publishing

record rtmpHandler =
  h_stage :: stage
  h_sess :: "sid option"
  h_flvEnc :: bool

record streamsvc =
  registry :: liveRegistry
  sess :: "sid \<Rightarrow> session"
  nextSess :: sid
  procs :: "pid \<Rightarrow> ffmpegProc"
  killed :: "pid fset"
  nextProc :: pid
  handlers :: "hid \<Rightarrow> rtmpHandler"
  shutdownQueue :: "sid list"
  sdb :: db
  files :: "string list fset"
  stateDir :: string
  ffmpegPath :: string
  st_segDuration :: nat
  st_listSize :: nat

definition newHandler :: rtmpHandler where
  "newHandler = \<lparr>h_stage = Idle, h_sess = None, h_flvEnc = False\<rparr>"

definition noSession :: session where
  "noSession =
     \<lparr>channelID = 0, channelName = '''', title = '''', startedAt = 0, pipe_open = False, fed = [],
      cancelled = False, ffmpeg = 0, dbRowID = 0, sess_stateDir = '''', td = TdIdle\<rparr>"

definition noProc :: ffmpegProc where
  "noProc = \<lparr>cmd = ('''', []), stdin_open = False, stderrBuf = newRingBuffer 0, proc_done = True, waitErr = None\<rparr>"

definition stream_NewService :: "db \<Rightarrow> string \<Rightarrow> string \<Rightarrow> streamsvc" where
  "stream_NewService d dir bin =
     \<lparr>registry = fmempty, sess = (\<lambda>_. noSession), nextSess = 0, procs = (\<lambda>_. noProc), killed = {||},
      nextProc = 0, handlers = (\<lambda>_. newHandler), shutdownQueue = [], sdb = d, files = {||},
      stateDir = dir, ffmpegPath = bin, st_segDuration = 2, st_listSize = 6\<rparr>"

section \<open>Files\<close>

text \<open>Paths are lists of components; \<open>RemoveAll\<close> removes a path and everything below it.\<close>

definition channelDir :: "string \<Rightarrow> string \<Rightarrow> string list" where
  "channelDir dir nm = clean_parts (filepath_Join [dir, nm])"

definition MkdirAll :: "string list \<Rightarrow> string list fset \<Rightarrow> string list fset" where
  "MkdirAll p fs = fs |\<union>| fset_of_list (prefixes p)"

definition RemoveAll :: "string list \<Rightarrow> string list fset \<Rightarrow> string list fset" where
  "RemoveAll p fs = ffilter (\<lambda>q. \<not> prefix p q) fs"

section \<open>Service operations\<close>

definition lookupChannelByStreamKey :: "net \<Rightarrow> string \<Rightarrow> db \<Rightarrow> ingest_error + Channel" where
  "lookupChannelByStreamKey n plainKey d =
     (case fst (stmt n (q_getChannelByStreamKeyHash (HashKey plainKey)) d) of
        Inl e \<Rightarrow> Inl (if e = ErrNoRows then ErrUnknownStreamKey else LookupFailed e)
      | Inr ch \<Rightarrow> Inr ch)"

definition ListLive :: "(string fset \<Rightarrow> string list) \<Rightarrow> streamsvc \<Rightarrow> LiveChannel list" where
  "ListLive iter s = map (\<lambda>i. toDTO (sess s i)) (registry_snapshot iter (registry s))"

definition GetByName :: "string \<Rightarrow> streamsvc \<Rightarrow> LiveChannel option" where
  "GetByName nm s = (case registry_get nm (registry s) of None \<Rightarrow> None | Some i \<Rightarrow> Some (toDTO (sess s i)))"

datatype recover_error = MarkOrphan db_error | ReadStateDir | MkdirState

text \<open>
  \<open>RecoverOnBoot\<close>: \<open>readDir\<close> is \<open>Inl True\<close> for a missing directory, \<open>Inl False\<close> for another error,
  otherwise the entry names; \<open>rmOk\<close> says which removals work (a failed one is only logged).
\<close>

fun recover_loop :: "(string \<Rightarrow> bool) \<Rightarrow> string \<Rightarrow> string list \<Rightarrow> string list fset \<Rightarrow> string list fset" where
  "recover_loop rmOk dir [] fs = fs"
| "recover_loop rmOk dir (e # es) fs =
     recover_loop rmOk dir es (if rmOk e then RemoveAll (channelDir dir e) fs else fs)"

definition RecoverOnBoot ::
  "net \<Rightarrow> time \<Rightarrow> bool + string list \<Rightarrow> (string \<Rightarrow> bool) \<Rightarrow> bool \<Rightarrow> streamsvc \<Rightarrow> (recover_error + unit) \<times> streamsvc" where
  "RecoverOnBoot n now readDir rmOk mkdirOk s =
     (case stmt n (q_markOpenStreamSessionsOrphaned now) (sdb s) of
        (Inl e, d) \<Rightarrow> (Inl (MarkOrphan e), s\<lparr>sdb := d\<rparr>)
      | (Inr _, d) \<Rightarrow>
          (let s1 = s\<lparr>sdb := d\<rparr> in
           if stateDir s1 = '''' then (Inr (), s1)
           else if readDir = Inl False then (Inl ReadStateDir, s1)
           else
             (let entries = (case readDir of Inl _ \<Rightarrow> [] | Inr es \<Rightarrow> es);
                  s2 = s1\<lparr>files := recover_loop rmOk (stateDir s1) entries (files s1)\<rparr>
              in if \<not> mkdirOk then (Inl MkdirState, s2)
                 else (Inr (), s2\<lparr>files := MkdirAll (clean_parts (stateDir s2)) (files s2)\<rparr>))))"

datatype serve_result = ServeOk | ServeClosed | ServeFailed
datatype rtmp_error = RtmpListen | RtmpServe

definition ListenAndServeRTMP :: "bool \<Rightarrow> serve_result \<Rightarrow> rtmp_error option" where
  "ListenAndServeRTMP listenOk served =
     (if \<not> listenOk then Some RtmpListen
      else case served of ServeFailed \<Rightarrow> Some RtmpServe | _ \<Rightarrow> None)"

section \<open>State updates\<close>

definition setSess :: "sid \<Rightarrow> session \<Rightarrow> streamsvc \<Rightarrow> streamsvc" where
  "setSess i x s = s\<lparr>sess := (sess s)(i := x)\<rparr>"

definition setHandler :: "hid \<Rightarrow> rtmpHandler \<Rightarrow> streamsvc \<Rightarrow> streamsvc" where
  "setHandler h x s = s\<lparr>handlers := (handlers s)(h := x)\<rparr>"

definition setStage :: "hid \<Rightarrow> stage \<Rightarrow> streamsvc \<Rightarrow> streamsvc" where
  "setStage h st s = setHandler h ((handlers s h)\<lparr>h_stage := st\<rparr>) s"

text \<open>\<open>cancel()\<close> of the supervisor context: the process is killed.\<close>

definition cancelProc :: "pid \<Rightarrow> streamsvc \<Rightarrow> streamsvc" where
  "cancelProc p s = s\<lparr>killed := finsert p (killed s)\<rparr>"

section \<open>\<open>tearDown\<close>\<close>

definition tearDown :: "sid \<Rightarrow> string \<Rightarrow> streamsvc \<Rightarrow> streamsvc" where
  "tearDown i reason s =
     (case td (sess s i) of TdIdle \<Rightarrow> setSess i ((sess s i)\<lparr>td := TdPipe reason\<rparr>) s | _ \<Rightarrow> s)"

record td_env =
  te_grace :: bool
  te_net :: net
  te_now :: time
  te_rmOk :: bool

text \<open>
  The next phase of a started \<open>tearDown\<close>.  The \<open>select\<close> takes the arm of the grace timer if \<open>te_grace\<close>
  says so, which it may also do when ffmpeg has exited just then; both waits block until ffmpeg
  is reaped.
\<close>

definition tearDown_phase :: "td_env \<Rightarrow> sid \<Rightarrow> streamsvc \<Rightarrow> streamsvc" where
  "tearDown_phase env i s =
     (let x = sess s i; gone = proc_done (procs s (ffmpeg x)) in
      case td x of
        TdIdle \<Rightarrow> s
      | TdPipe r \<Rightarrow> setSess i (x\<lparr>pipe_open := False, td := TdWait r\<rparr>) s
      | TdWait r \<Rightarrow>
          if te_grace env then setSess i (x\<lparr>cancelled := True, td := TdKill r\<rparr>) (cancelProc (ffmpeg x) s)
          else if gone then setSess i (x\<lparr>td := TdRegistry r\<rparr>) s
          else s
      | TdKill r \<Rightarrow> if gone then setSess i (x\<lparr>td := TdRegistry r\<rparr>) s else s
      | TdRegistry r \<Rightarrow>
          setSess i (x\<lparr>td := TdRow r\<rparr>) (s\<lparr>registry := registry_remove (channelName x) (registry s)\<rparr>)
      | TdRow r \<Rightarrow>
          setSess i (x\<lparr>td := TdFiles r\<rparr>)
            (if dbRowID x \<noteq> 0
             then s\<lparr>sdb := snd (stmt (te_net env) (q_endStreamSession (dbRowID x) (te_now env) r) (sdb s))\<rparr>
             else s)
      | TdFiles r \<Rightarrow>
          setSess i (x\<lparr>td := TdDone r\<rparr>)
            (if sess_stateDir x \<noteq> '''' \<and> te_rmOk env
             then s\<lparr>files := RemoveAll (channelDir (sess_stateDir x) (channelName x)) (files s)\<rparr>
             else s)
      | TdDone r \<Rightarrow> s)"

section \<open>\<open>OnPublish\<close>, stage by stage\<close>

definition pub_lookup :: "hid \<Rightarrow> string \<Rightarrow> net \<Rightarrow> streamsvc \<Rightarrow> streamsvc" where
  "pub_lookup h streamKey n s =
     (if streamKey = '''' then setStage h (Refused EmptyStreamKey) s
      else case lookupChannelByStreamKey n streamKey (sdb s) of
        Inl e \<Rightarrow> setStage h (Refused e) s
      | Inr ch \<Rightarrow> setStage h (GotChannel ch) s)"

definition pub_row :: "hid \<Rightarrow> Channel \<Rightarrow> net \<Rightarrow> time \<Rightarrow> streamsvc \<Rightarrow> streamsvc" where
  "pub_row h ch n now s =
     (case stmt n (q_createStreamSession (c_id ch) now) (sdb s) of
        (Inl e, d) \<Rightarrow> setStage h (Refused (RowFailed e)) (s\<lparr>sdb := d\<rparr>)
      | (Inr row, d) \<Rightarrow> setStage h (GotRow ch now (ss_id row)) (s\<lparr>sdb := d\<rparr>))"

definition pub_mkdir :: "hid \<Rightarrow> Channel \<Rightarrow> time \<Rightarrow> int \<Rightarrow> bool \<Rightarrow> streamsvc \<Rightarrow> streamsvc" where
  "pub_mkdir h ch now row ok s =
     (if \<not> ok then setStage h (Refused MkdirFailed) s
      else setStage h (GotDir ch now row)
             (s\<lparr>files := MkdirAll (channelDir (stateDir s) (c_name ch)) (files s)\<rparr>))"

definition pub_opts :: "Channel \<Rightarrow> streamsvc \<Rightarrow> ffmpegOpts" where
  "pub_opts ch s =
     \<lparr>binPath = ffmpegPath s, opt_channelName = c_name ch, opt_stateDir = stateDir s,
      segDuration = st_segDuration s, listSize = st_listSize s\<rparr>"

definition pub_start ::
  "hid \<Rightarrow> Channel \<Rightarrow> time \<Rightarrow> int \<Rightarrow> string option \<Rightarrow> string option \<Rightarrow> string option \<Rightarrow> streamsvc \<Rightarrow> streamsvc" where
  "pub_start h ch now row e1 e2 e3 s =
     (case startFFmpeg (pub_opts ch s) e1 e2 e3 of
        Inl e \<Rightarrow> setStage h (Refused (FfmpegFailed e)) s
      | Inr proc \<Rightarrow>
          (let p = nextProc s
           in setStage h (GotProc ch now row p) (s\<lparr>procs := (procs s)(p := proc), nextProc := p + 1\<rparr>)))"

definition pub_encoder :: "hid \<Rightarrow> Channel \<Rightarrow> time \<Rightarrow> int \<Rightarrow> pid \<Rightarrow> bool \<Rightarrow> streamsvc \<Rightarrow> streamsvc" where
  "pub_encoder h ch now row p ok s =
     (if \<not> ok then setStage h (Refused EncoderFailed) (cancelProc p s)
      else setStage h (GotEnc ch now row p) s)"

definition newSession :: "Channel \<Rightarrow> time \<Rightarrow> int \<Rightarrow> pid \<Rightarrow> string \<Rightarrow> session" where
  "newSession ch now row p dir =
     \<lparr>channelID = c_id ch, channelName = c_name ch, title = c_title ch, startedAt = now, pipe_open = True,
      fed = [], cancelled = False, ffmpeg = p, dbRowID = row, sess_stateDir = dir, td = TdIdle\<rparr>"

definition pub_add :: "hid \<Rightarrow> Channel \<Rightarrow> time \<Rightarrow> int \<Rightarrow> pid \<Rightarrow> net \<Rightarrow> time \<Rightarrow> streamsvc \<Rightarrow> streamsvc" where
  "pub_add h ch now row p n t s =
     (let i = nextSess s; (added, r) = registry_add (c_name ch) i (registry s) in
      if \<not> added then
        setStage h (Refused ErrAlreadyLive)
          ((cancelProc p s)\<lparr>sdb := snd (stmt n (q_endStreamSession row t ''orphan_swept'') (sdb s))\<rparr>)
      else
        setHandler h \<lparr>h_stage = Publishing, h_sess = Some i, h_flvEnc = True\<rparr>
          (s\<lparr>registry := r, sess := (sess s)(i := newSession ch now row p (stateDir s)), nextSess := i + 1\<rparr>))"

section \<open>Media messages\<close>

text \<open>
  \<open>OnSetDataFrame\<close>, \<open>OnAudio\<close>, \<open>OnVideo\<close>: the payload is decoded (a parameter), and the tag is
  written to the pipe, which fails once \<open>tearDown\<close> has closed it.  An undecodable script tag is
  ignored, an undecodable audio or video tag is an error.
\<close>

datatype media_error = DecodeFailed | PipeClosed

definition on_media ::
  "tagKind \<Rightarrow> (tagKind \<Rightarrow> bytes \<Rightarrow> bytes option) \<Rightarrow> hid \<Rightarrow> 32 word \<Rightarrow> bytes \<Rightarrow> streamsvc \<Rightarrow>
   media_error option \<times> streamsvc" where
  "on_media kind decode h timestamp payload s =
     (case h_sess (handlers s h) of
        None \<Rightarrow> (None, s)
      | Some i \<Rightarrow>
          if \<not> h_flvEnc (handlers s h) then (None, s)
          else case decode kind payload of
            None \<Rightarrow> (if kind = TagScriptData then None else Some DecodeFailed, s)
          | Some d \<Rightarrow>
              if \<not> pipe_open (sess s i) then (Some PipeClosed, s)
              else (None, setSess i ((sess s i)\<lparr>fed := fed (sess s i)
                       @ [\<lparr>tagType = kind, tagTime = timestamp, tagData = d\<rparr>]\<rparr>) s))"

section \<open>Other moves\<close>

definition OnClose :: "hid \<Rightarrow> streamsvc \<Rightarrow> streamsvc" where
  "OnClose h s = (case h_sess (handlers s h) of None \<Rightarrow> s | Some i \<Rightarrow> tearDown i ''normal'' s)"

definition watchdog :: "sid \<Rightarrow> streamsvc \<Rightarrow> streamsvc" where
  "watchdog i s =
     (if i < nextSess s \<and> proc_done (procs s (ffmpeg (sess s i)))
      then tearDown i (if waitErr (procs s (ffmpeg (sess s i))) = None then ''normal'' else ''crashed'') s
      else s)"

definition proc_exit :: "pid \<Rightarrow> string option \<Rightarrow> streamsvc \<Rightarrow> streamsvc" where
  "proc_exit p err s =
     (if p < nextProc s \<and> \<not> proc_done (procs s p)
      then s\<lparr>procs := (procs s)(p := (procs s p)\<lparr>proc_done := True, waitErr := err\<rparr>)\<rparr>
      else s)"

text \<open>ffmpeg writes a file below the channel directory, while that exists.\<close>

definition proc_write :: "sid \<Rightarrow> string \<Rightarrow> streamsvc \<Rightarrow> streamsvc" where
  "proc_write i f s =
     (let x = sess s i; dir = channelDir (sess_stateDir x) (channelName x) in
      if i < nextSess s \<and> \<not> proc_done (procs s (ffmpeg x)) \<and> dir |\<in>| files s
      then s\<lparr>files := finsert (dir @ [f]) (files s)\<rparr> else s)"

text \<open>\<open>ShutdownLive\<close>: a snapshot, then \<open>tearDown\<close> of one session after the other.\<close>

definition ShutdownLive :: "(string fset \<Rightarrow> string list) \<Rightarrow> streamsvc \<Rightarrow> streamsvc" where
  "ShutdownLive iter s = s\<lparr>shutdownQueue := registry_snapshot iter (registry s)\<rparr>"

definition shutdown_next :: "streamsvc \<Rightarrow> streamsvc" where
  "shutdown_next s =
     (case shutdownQueue s of
        [] \<Rightarrow> s
      | i # q \<Rightarrow>
          (case td (sess s i) of
             TdIdle \<Rightarrow> tearDown i ''orphan_swept'' s
           | TdDone _ \<Rightarrow> s\<lparr>shutdownQueue := q\<rparr>
           | _ \<Rightarrow> s))"

datatype stream_event =
    Publish hid string net
  | PubRow hid net time
  | PubMkdir hid bool
  | PubStart hid "string option" "string option" "string option"
  | PubEncoder hid bool
  | PubAdd hid net time
  | Media hid tagKind "32 word" bytes
  | Closed hid
  | Watchdog sid
  | ProcExit pid "string option"
  | ProcWrite sid string
  | TearDown sid td_env
  | Shutdown1 "string fset \<Rightarrow> string list"
  | ShutdownNext
  | Account auth_op

text \<open>
  \<open>OnPublish\<close> runs to its end before the connection delivers its next command, so a publish
  command starts only from a settled handler; a second one on the same connection is possible.
  The account operations of the web handlers work on the same database (\<open>Account\<close>).
\<close>

fun settled :: "stage \<Rightarrow> bool" where
  "settled Idle = True"
| "settled (Refused _) = True"
| "settled Publishing = True"
| "settled _ = False"

text \<open>What the steps take from packages outside the repository.\<close>

record stream_deps =
  sd_decode :: "tagKind \<Rightarrow> bytes \<Rightarrow> bytes option"
  sd_bcrypt :: bcrypt
  sd_parse :: "string \<Rightarrow> bool"

fun stream_step :: "stream_deps \<Rightarrow> stream_event \<Rightarrow> streamsvc \<Rightarrow> streamsvc" where
  "stream_step dec (Publish h key n) s =
     (if settled (h_stage (handlers s h)) then pub_lookup h key n s else s)"
| "stream_step dec (PubRow h n now) s =
     (case h_stage (handlers s h) of GotChannel ch \<Rightarrow> pub_row h ch n now s | _ \<Rightarrow> s)"
| "stream_step dec (PubMkdir h ok) s =
     (case h_stage (handlers s h) of GotRow ch now row \<Rightarrow> pub_mkdir h ch now row ok s | _ \<Rightarrow> s)"
| "stream_step dec (PubStart h e1 e2 e3) s =
     (case h_stage (handlers s h) of GotDir ch now row \<Rightarrow> pub_start h ch now row e1 e2 e3 s | _ \<Rightarrow> s)"
| "stream_step dec (PubEncoder h ok) s =
     (case h_stage (handlers s h) of GotProc ch now row p \<Rightarrow> pub_encoder h ch now row p ok s | _ \<Rightarrow> s)"
| "stream_step dec (PubAdd h n t) s =
     (case h_stage (handlers s h) of GotEnc ch now row p \<Rightarrow> pub_add h ch now row p n t s | _ \<Rightarrow> s)"
| "stream_step dec (Media h k t pl) s = snd (on_media k (sd_decode dec) h t pl s)"
| "stream_step dec (Closed h) s = (if settled (h_stage (handlers s h)) then OnClose h s else s)"
| "stream_step dec (Watchdog i) s = watchdog i s"
| "stream_step dec (ProcExit p e) s = proc_exit p e s"
| "stream_step dec (ProcWrite i f) s = proc_write i f s"
| "stream_step dec (TearDown i env) s = (if i < nextSess s then tearDown_phase env i s else s)"
| "stream_step dec (Shutdown1 iter) s = ShutdownLive iter s"
| "stream_step dec ShutdownNext s = shutdown_next s"
| "stream_step dec (Account op) s = s\<lparr>sdb := auth_exec (sd_bcrypt dec) (sd_parse dec) op (sdb s)\<rparr>"

end
