(* ===== verification/Web.thy ===== *)
theory Web
  imports Auth_Http Stream Chat_Ws
begin

text \<open>
  \<open>internal/web\<close>: the pages, the dashboard, the chat endpoint, the HLS file server and the routes.
  The server depends on the stream service only through \<open>ListLive\<close> and \<open>GetByName\<close> and on the chat
  service only through \<open>ServeWS\<close> and \<open>ViewerCount\<close> (the interfaces \<open>liveDirectory\<close> and
  \<open>chatGateway\<close> of \<open>server.go\<close>), so the handlers take these as arguments; \<open>web_serve\<close> supplies the
  real ones.  The body \<open>BPanic\<close> stands for a nil dereference, which aborts the connection.
\<close>

section \<open>Anonymous viewers (\<open>anoncookie.go\<close>)\<close>

definition anonCookieName :: string where
  "anonCookieName = ''chtiwt_anon''"

definition ensureAnonCookie :: "req_env \<Rightarrow> web_request \<Rightarrow> web_response \<Rightarrow> string \<times> web_response" where
  "ensureAnonCookie env r w =
     (case r_Cookie anonCookieName r of
        Some (c # v) \<Rightarrow> (c # v, w)
      | _ \<Rightarrow>
          (case e_rndAnon env of
             None \<Rightarrow> ('''', w)
           | Some rnd \<Rightarrow>
               (let i = b64url rnd
                in (i, addHeader (SetCookie \<lparr>ck_name = anonCookieName, ck_value = i, ck_path = ''/'',
                         ck_maxAge = 365 * 24 * 3600, ck_httpOnly = True, ck_lax = True, ck_secure = False\<rparr>) w))))"

section \<open>Pages\<close>

definition liveCards :: "LiveChannel list \<Rightarrow> (string \<Rightarrow> int) \<Rightarrow> liveCard list" where
  "liveCards live viewers =
     map (\<lambda>c. \<lparr>lcd_name = lc_name c, lcd_title = lc_title c, lcd_viewers = viewers (lc_name c)\<rparr>) live"

definition h_home :: "web_ctx \<Rightarrow> LiveChannel list \<Rightarrow> (string \<Rightarrow> int) \<Rightarrow> handler" where
  "h_home c live viewers r w d =
     (if rq_segs r \<noteq> [''''] then (http_NotFound BText w, d)
      else (snd (Render (wc_pages c) r (PgHome (liveCards live viewers)) w), d))"

definition h_watch :: "web_ctx \<Rightarrow> req_env \<Rightarrow> (string \<Rightarrow> LiveChannel option) \<Rightarrow> string \<Rightarrow> handler" where
  "h_watch c env get nm r w d =
     (if nm = '''' then (http_NotFound BText w, d)
      else case ChannelByName (e_net1 env) nm d of
        Inl e \<Rightarrow>
          (if e = ErrNoChannel then http_NotFound BText w else http_Error BText ''internal error'' 500 w, d)
      | Inr ch \<Rightarrow>
          (let w1 = snd (ensureAnonCookie env r w);
               data = (case get (c_name ch) of
                         None \<Rightarrow> \<lparr>wd_name = c_name ch, wd_title = c_title ch, wd_live = False\<rparr>
                       | Some l \<Rightarrow> \<lparr>wd_name = c_name ch, wd_title = lc_title l, wd_live = True\<rparr>)
           in (snd (Render (wc_pages c) r (PgWatch data) w1), d)))"

section \<open>Dashboard\<close>

definition h_dashboard :: "web_ctx \<Rightarrow> req_env \<Rightarrow> handler" where
  "h_dashboard c env r w d =
     (case UserFromContext r of
        None \<Rightarrow> (w_Write BPanic w, d)
      | Some user \<Rightarrow>
          (case ChannelForUser (e_net1 env) (u_id user) d of
             Inl _ \<Rightarrow> (http_Error BText ''could not load channel'' 500 w, d)
           | Inr ch \<Rightarrow> (snd (Render (wc_pages c) r (PgDashboard ch) w), d)))"

definition h_updateTitle :: "web_ctx \<Rightarrow> req_env \<Rightarrow> handler" where
  "h_updateTitle c env r w d =
     (case rq_form r of
        None \<Rightarrow> (http_Error BText ''bad form'' 400 w, d)
      | Some f \<Rightarrow>
          (case UserFromContext r of
             None \<Rightarrow> (w_Write BPanic w, d)
           | Some user \<Rightarrow>
               (case ChannelForUser (e_net1 env) (u_id user) d of
                  Inl _ \<Rightarrow> (http_Error BText ''no channel'' 500 w, d)
                | Inr ch \<Rightarrow>
                    (case auth_UpdateChannelTitle (e_net2 env) (c_id ch) (form_Get f ''title'') d of
                       (Inl _, d1) \<Rightarrow> (http_Error BText ''could not update title'' 500 w, d1)
                     | (Inr _, d1) \<Rightarrow> (http_Redirect BText r ''/dashboard'' 303 w, d1)))))"

definition h_regenerateKey :: "web_ctx \<Rightarrow> req_env \<Rightarrow> handler" where
  "h_regenerateKey c env r w d =
     (case UserFromContext r of
        None \<Rightarrow> (w_Write BPanic w, d)
      | Some user \<Rightarrow>
          (case ChannelForUser (e_net1 env) (u_id user) d of
             Inl _ \<Rightarrow> (http_Error BText ''no channel'' 500 w, d)
           | Inr ch \<Rightarrow>
               (case RegenerateStreamKey (e_rnd env) (e_net2 env) (c_id ch) d of
                  (Inl _, d1) \<Rightarrow> (http_Error BText ''could not regenerate'' 500 w, d1)
                | (Inr plain, d1) \<Rightarrow>
                    (snd (Render (wc_pages c) r (PgKeyShown \<lparr>ks_heading = ''New stream key'', ks_plain = plain,
                       ks_cta = ''Back to dashboard'', ks_href = ''/dashboard''\<rparr>) w), d1))))"

section \<open>HLS files and the chat endpoint\<close>

text \<open>
  \<open>StripPrefix\<close>, \<open>FileServer\<close> and \<open>http.Dir\<close>: the rest of the path is cleaned as a rooted path and
  joined to the state directory.  What the file server does with that path is not modelled.
\<close>

definition hls_target :: "string \<Rightarrow> string list \<Rightarrow> string list" where
  "hls_target dir segs =
     (let name = join_slash (clean_parts (CHR ''/'' # join_slash segs))
      in clean_parts (filepath_Join [if dir = '''' then ''.'' else dir, if name = '''' then ''.'' else name]))"

definition h_hls :: "web_ctx \<Rightarrow> handler" where
  "h_hls c r w d =
     (w_Write (BFile (hls_target (wc_stateDir c) (tl (rq_segs r)))) (setHeader (CacheControl ''no-store'') w), d)"

definition h_chatWS :: "req_env \<Rightarrow> string \<Rightarrow> handler" where
  "h_chatWS env channel r w d =
     (if channel = '''' then (http_NotFound BText w, d)
      else case ChannelByName (e_net1 env) channel d of
        Inl _ \<Rightarrow> (http_NotFound BText w, d)
      | Inr ch \<Rightarrow>
          (case UserFromContext r of
             Some u \<Rightarrow> (w_Write (BUpgrade (c_name ch) (u_username u) (u_id u) '''') w, d)
           | None \<Rightarrow>
               (let (ak, w1) = ensureAnonCookie env r w
                in (w_Write (BUpgrade (c_name ch) '''' 0 ak) w1, d))))"

definition h_healthz :: "bool \<Rightarrow> string \<Rightarrow> handler" where
  "h_healthz pingOk err r w d =
     (if \<not> pingOk then (http_Error BText (''db unhealthy: '' @ err) 503 w, d)
      else (w_Write (BText ''ok'') (WriteHeader 200 w), d))"

section \<open>Routes\<close>

datatype route =
    RHealthz | RSignupForm | RSignup | RLoginForm | RLogin | RLogout
  | RHome | RWatch | RChatWS | RHls | RDashboard | RTitle | RRegenerate

definition pat :: "string \<Rightarrow> seg list \<Rightarrow> bool \<Rightarrow> pattern" where
  "pat mth segs tree = \<lparr>pt_method = mth, pt_segs = segs, pt_tree = tree\<rparr>"

definition routes :: "(pattern \<times> route) list" where
  "routes =
     [(pat ''GET'' [Lit ''healthz''] False, RHealthz),
      (pat ''GET'' [Lit ''signup''] False, RSignupForm),
      (pat ''POST'' [Lit ''signup''] False, RSignup),
      (pat ''GET'' [Lit ''login''] False, RLoginForm),
      (pat ''POST'' [Lit ''login''] False, RLogin),
      (pat ''POST'' [Lit ''logout''] False, RLogout),
      (pat ''GET'' [] True, RHome),
      (pat ''GET'' [Lit ''c'', Wild] False, RWatch),
      (pat ''GET'' [Lit ''ws'', Lit ''chat'', Wild] False, RChatWS),
      (pat ''GET'' [Lit ''hls''] True, RHls),
      (pat ''GET'' [Lit ''dashboard''] False, RDashboard),
      (pat ''POST'' [Lit ''dashboard'', Lit ''title''] False, RTitle),
      (pat ''POST'' [Lit ''dashboard'', Lit ''regenerate''] False, RRegenerate)]"

record app =
  a_streams :: streamsvc
  a_chat :: chatsvc

text \<open>What one request takes from outside besides \<open>req_env\<close>: map order, health check, connection.\<close>

record app_env =
  ae_req :: req_env
  ae_names :: "string fset \<Rightarrow> string list"
  ae_ping :: "bool \<times> string"
  ae_iter :: iteration
  ae_conn :: cid
  ae_accept :: bool

fun route_handler :: "web_ctx \<Rightarrow> app_env \<Rightarrow> app \<Rightarrow> route \<Rightarrow> string list \<Rightarrow> handler" where
  "route_handler c env a RHealthz vs = h_healthz (fst (ae_ping env)) (snd (ae_ping env))"
| "route_handler c env a RSignupForm vs = RequireGuest (h_signupForm c)"
| "route_handler c env a RSignup vs = RequireGuest (h_signup c (ae_req env))"
| "route_handler c env a RLoginForm vs = RequireGuest (h_loginForm c)"
| "route_handler c env a RLogin vs = RequireGuest (h_login c (ae_req env))"
| "route_handler c env a RLogout vs = RequireAuth (h_logout c (ae_req env))"
| "route_handler c env a RHome vs =
     h_home c (ListLive (ae_names env) (a_streams a)) (\<lambda>nm. ViewerCount nm (world_of (a_chat a)))"
| "route_handler c env a RWatch vs = h_watch c (ae_req env) (\<lambda>nm. GetByName nm (a_streams a)) (hd vs)"
| "route_handler c env a RChatWS vs = h_chatWS (ae_req env) (hd vs)"
| "route_handler c env a RHls vs = h_hls c"
| "route_handler c env a RDashboard vs = RequireAuth (h_dashboard c (ae_req env))"
| "route_handler c env a RTitle vs = RequireAuth (h_updateTitle c (ae_req env))"
| "route_handler c env a RRegenerate vs = RequireAuth (h_regenerateKey c (ae_req env))"

definition canonical_url :: "string list \<Rightarrow> string" where
  "canonical_url path =
     CHR ''/'' # join_slash (clean_parts (CHR ''/'' # join_slash path) @ (if last path = '''' then [''''] else []))"

definition mux_serve :: "web_ctx \<Rightarrow> app_env \<Rightarrow> app \<Rightarrow> handler" where
  "mux_serve c env a r w d =
     (case mux_dispatch routes r of
        Handler rt vs \<Rightarrow> route_handler c env a rt vs r w d
      | MovedPermanently \<Rightarrow>
          (http_Redirect BText r (if canonical (rq_segs r) then canonical_url (rq_segs r @ ['''']) else canonical_url (rq_segs r)) 301 w, d)
      | MethodNotAllowed ms \<Rightarrow> (http_Error BText ''Method Not Allowed'' 405 (setHeader (header.Allow ms) w), d)
      | NoRoute \<Rightarrow> (http_NotFound BText w, d))"

section \<open>One request\<close>

fun upgrade_of :: "body list \<Rightarrow> (string \<times> string \<times> int \<times> string) option" where
  "upgrade_of [BUpgrade ch u i ak] = Some (ch, u, i, ak)"
| "upgrade_of _ = None"

text \<open>
  The handler chain of \<open>main.go\<close> (the request logger only reads the request), followed by the
  part of \<open>ServeWS\<close> that runs before its loops when the request is an accepted upgrade.
\<close>

definition web_serve :: "web_ctx \<Rightarrow> app_env \<Rightarrow> web_request \<Rightarrow> app \<Rightarrow> panic + (web_response \<times> app)" where
  "web_serve c env r a =
     (let (w, d) = Middleware (ae_req env) (mux_serve c env a) (r\<lparr>rq_user := None\<rparr>) newWriter (sdb (a_streams a));
          a1 = a\<lparr>a_streams := (a_streams a)\<lparr>sdb := d\<rparr>\<rparr>
      in case upgrade_of (body w) of
           None \<Rightarrow> Inr (w, a1)
         | Some (ch, u, i, ak) \<Rightarrow>
             bindE (serve_open (ae_iter env) (ae_conn env) ch u i ak (ae_accept env) (a_chat a1))
               (\<lambda>cs. Inr (w, a1\<lparr>a_chat := cs\<rparr>)))"

end
