(* ===== verification/Web_Calls.thy ===== *)
theory Web_Calls
  imports Web
begin

text \<open>
  The handlers call by call.  \<open>Web\<close> and \<open>Auth_Http\<close> give the effect of a request that nothing
  disturbs; here a handler is a tree: it replies, or makes one call of a service and goes on with
  the answer.  A call is one statement or one transaction, one critical section of the registry,
  or one reading of a counter, so other goroutines move between any two calls of a request.  Each
  call meets its own clock, randomness and faults (\<open>app_env\<close>).
\<close>

section \<open>Handlers as trees of calls\<close>

datatype prog =
    Reply web_response
  | CallSignup string string string "auth_error + User \<times> string \<Rightarrow> prog"
  | CallLogin string string "auth_error + User \<Rightarrow> prog"
  | CallCreateSession int "auth_error + string \<Rightarrow> prog"
  | CallLogout string prog
  | CallChannelForUser int "auth_error + Channel \<Rightarrow> prog"
  | CallChannelByName string "auth_error + Channel \<Rightarrow> prog"
  | CallTitle int string "db_error + unit \<Rightarrow> prog"
  | CallRegenerate int "auth_error + string \<Rightarrow> prog"
  | CallListLive "LiveChannel list \<Rightarrow> prog"
  | CallGetByName string "LiveChannel option \<Rightarrow> prog"
  | CallViewerCount string "int \<Rightarrow> prog"
  | CallPing "bool \<times> string \<Rightarrow> prog"
  | CallRand "bytes option \<Rightarrow> prog"

type_synonym handler_prog = "web_request \<Rightarrow> web_response \<Rightarrow> prog"

definition p_signup :: "web_ctx \<Rightarrow> handler_prog" where
  "p_signup c r w =
     (case rq_form r of
        None \<Rightarrow> Reply (http_Error BText ''bad form'' 400 w)
      | Some f \<Rightarrow>
          (let uname = form_Get f ''username''; email = form_Get f ''email''; password = form_Get f ''password''
           in CallSignup uname email password (\<lambda>res.
                case res of
                  Inl e \<Rightarrow>
                    Reply (snd (Render (wc_pages c) r
                      (PgSignup \<lparr>sf_username = uname, sf_email = email, sf_error = err_Error c e\<rparr>) (WriteHeader 400 w)))
                | Inr (user, plainKey) \<Rightarrow>
                    CallCreateSession (u_id user) (\<lambda>tok.
                      case tok of
                        Inl _ \<Rightarrow> Reply (http_Error BText ''internal error'' 500 w)
                      | Inr token \<Rightarrow>
                          Reply (snd (Render (wc_pages c) r (PgKeyShown \<lparr>ks_heading = ''Welcome to chtiwt'',
                            ks_plain = plainKey, ks_cta = ''Continue to dashboard'', ks_href = ''/dashboard''\<rparr>)
                            (setSessionCookie token (wc_secure c) (cookieMaxAge (wc_sessionTTL c)) w)))))))"

definition p_login :: "web_ctx \<Rightarrow> handler_prog" where
  "p_login c r w =
     (case rq_form r of
        None \<Rightarrow> Reply (http_Error BText ''bad form'' 400 w)
      | Some f \<Rightarrow>
          (let uname = form_Get f ''username''; password = form_Get f ''password''
           in CallLogin uname password (\<lambda>res.
                case res of
                  Inl e \<Rightarrow>
                    (let msg = (if e = ErrBadCredentials then err_Error c e else ''login failed'')
                     in Reply (snd (Render (wc_pages c) r (PgLogin \<lparr>lf_username = uname, lf_error = msg\<rparr>) (WriteHeader 401 w))))
                | Inr user \<Rightarrow>
                    CallCreateSession (u_id user) (\<lambda>tok.
                      case tok of
                        Inl _ \<Rightarrow> Reply (http_Error BText ''internal error'' 500 w)
                      | Inr token \<Rightarrow>
                          Reply (http_Redirect BText r ''/dashboard'' 303
                            (setSessionCookie token (wc_secure c) (cookieMaxAge (wc_sessionTTL c)) w))))))"

definition p_logout :: "web_ctx \<Rightarrow> handler_prog" where
  "p_logout c r w =
     (let bye = Reply (http_Redirect BText r ''/'' 303 (clearSessionCookie (wc_secure c) w))
      in case r_Cookie SessionCookieName r of None \<Rightarrow> bye | Some tok \<Rightarrow> CallLogout tok bye)"

text \<open>\<open>home\<close> asks for the viewer count of one listed channel after the other.\<close>

fun p_cards :: "LiveChannel list \<Rightarrow> liveCard list \<Rightarrow> (liveCard list \<Rightarrow> prog) \<Rightarrow> prog" where
  "p_cards [] cards k = k cards"
| "p_cards (ch # chs) cards k =
     CallViewerCount (lc_name ch) (\<lambda>n.
       p_cards chs (cards @ [\<lparr>lcd_name = lc_name ch, lcd_title = lc_title ch, lcd_viewers = n\<rparr>]) k)"

definition p_home :: "web_ctx \<Rightarrow> handler_prog" where
  "p_home c r w =
     (if rq_segs r \<noteq> [''''] then Reply (http_NotFound BText w)
      else CallListLive (\<lambda>live. p_cards live [] (\<lambda>cards. Reply (snd (Render (wc_pages c) r (PgHome cards) w)))))"

definition p_anon :: "web_request \<Rightarrow> web_response \<Rightarrow> (string \<Rightarrow> web_response \<Rightarrow> prog) \<Rightarrow> prog" where
  "p_anon r w k =
     (case r_Cookie anonCookieName r of
        Some (c # v) \<Rightarrow> k (c # v) w
      | _ \<Rightarrow> CallRand (\<lambda>rnd.
          case rnd of
            None \<Rightarrow> k '''' w
          | Some b \<Rightarrow>
              k (b64url b) (addHeader (SetCookie \<lparr>ck_name = anonCookieName, ck_value = b64url b, ck_path = ''/'',
                 ck_maxAge = 365 * 24 * 3600, ck_httpOnly = True, ck_lax = True, ck_secure = False\<rparr>) w)))"

definition p_watch :: "web_ctx \<Rightarrow> string \<Rightarrow> handler_prog" where
  "p_watch c nm r w =
     (if nm = '''' then Reply (http_NotFound BText w)
      else CallChannelByName nm (\<lambda>res.
        case res of
          Inl e \<Rightarrow>
            Reply (if e = ErrNoChannel then http_NotFound BText w else http_Error BText ''internal error'' 500 w)
        | Inr ch \<Rightarrow>
            p_anon r w (\<lambda>_ w1. CallGetByName (c_name ch) (\<lambda>l.
              let data = (case l of
                            None \<Rightarrow> \<lparr>wd_name = c_name ch, wd_title = c_title ch, wd_live = False\<rparr>
                          | Some lc \<Rightarrow> \<lparr>wd_name = c_name ch, wd_title = lc_title lc, wd_live = True\<rparr>)
              in Reply (snd (Render (wc_pages c) r (PgWatch data) w1))))))"

definition p_dashboard :: "web_ctx \<Rightarrow> handler_prog" where
  "p_dashboard c r w =
     (case UserFromContext r of
        None \<Rightarrow> Reply (w_Write BPanic w)
      | Some user \<Rightarrow>
          CallChannelForUser (u_id user) (\<lambda>res.
            case res of
              Inl _ \<Rightarrow> Reply (http_Error BText ''could not load channel'' 500 w)
            | Inr ch \<Rightarrow> Reply (snd (Render (wc_pages c) r (PgDashboard ch) w))))"

definition p_updateTitle :: "web_ctx \<Rightarrow> handler_prog" where
  "p_updateTitle c r w =
     (case rq_form r of
        None \<Rightarrow> Reply (http_Error BText ''bad form'' 400 w)
      | Some f \<Rightarrow>
          (case UserFromContext r of
             None \<Rightarrow> Reply (w_Write BPanic w)
           | Some user \<Rightarrow>
               CallChannelForUser (u_id user) (\<lambda>res.
                 case res of
                   Inl _ \<Rightarrow> Reply (http_Error BText ''no channel'' 500 w)
                 | Inr ch \<Rightarrow>
                     CallTitle (c_id ch) (form_Get f ''title'') (\<lambda>res.
                       case res of
                         Inl _ \<Rightarrow> Reply (http_Error BText ''could not update title'' 500 w)
                       | Inr _ \<Rightarrow> Reply (http_Redirect BText r ''/dashboard'' 303 w)))))"

definition p_regenerateKey :: "web_ctx \<Rightarrow> handler_prog" where
  "p_regenerateKey c r w =
     (case UserFromContext r of
        None \<Rightarrow> Reply (w_Write BPanic w)
      | Some user \<Rightarrow>
          CallChannelForUser (u_id user) (\<lambda>res.
            case res of
              Inl _ \<Rightarrow> Reply (http_Error BText ''no channel'' 500 w)
            | Inr ch \<Rightarrow>
                CallRegenerate (c_id ch) (\<lambda>res.
                  case res of
                    Inl _ \<Rightarrow> Reply (http_Error BText ''could not regenerate'' 500 w)
                  | Inr plain \<Rightarrow>
                      Reply (snd (Render (wc_pages c) r (PgKeyShown \<lparr>ks_heading = ''New stream key'', ks_plain = plain,
                        ks_cta = ''Back to dashboard'', ks_href = ''/dashboard''\<rparr>) w)))))"

definition p_chatWS :: "string \<Rightarrow> handler_prog" where
  "p_chatWS channel r w =
     (if channel = '''' then Reply (http_NotFound BText w)
      else CallChannelByName channel (\<lambda>res.
        case res of
          Inl _ \<Rightarrow> Reply (http_NotFound BText w)
        | Inr ch \<Rightarrow>
            (case UserFromContext r of
               Some u \<Rightarrow> Reply (w_Write (BUpgrade (c_name ch) (u_username u) (u_id u) '''') w)
             | None \<Rightarrow> p_anon r w (\<lambda>ak w1. Reply (w_Write (BUpgrade (c_name ch) '''' 0 ak) w1)))))"

definition p_healthz :: handler_prog where
  "p_healthz r w =
     CallPing (\<lambda>(ok, err).
       if \<not> ok then Reply (http_Error BText (''db unhealthy: '' @ err) 503 w)
       else Reply (w_Write (BText ''ok'') (WriteHeader 200 w)))"

text \<open>The handlers that make no call.\<close>

definition p_page :: "handler \<Rightarrow> handler_prog" where
  "p_page h r w = Reply (fst (h r w emptyDB))"

definition p_RequireAuth :: "handler_prog \<Rightarrow> handler_prog" where
  "p_RequireAuth nxt r w =
     (if UserFromContext r = None then Reply (http_Redirect BText r ''/login'' 303 w) else nxt r w)"

definition p_RequireGuest :: "handler_prog \<Rightarrow> handler_prog" where
  "p_RequireGuest nxt r w =
     (if UserFromContext r \<noteq> None then Reply (http_Redirect BText r ''/dashboard'' 303 w) else nxt r w)"

fun p_route :: "web_ctx \<Rightarrow> route \<Rightarrow> string list \<Rightarrow> handler_prog" where
  "p_route c RHealthz vs = p_healthz"
| "p_route c RSignupForm vs = p_RequireGuest (p_page (h_signupForm c))"
| "p_route c RSignup vs = p_RequireGuest (p_signup c)"
| "p_route c RLoginForm vs = p_RequireGuest (p_page (h_loginForm c))"
| "p_route c RLogin vs = p_RequireGuest (p_login c)"
| "p_route c RLogout vs = p_RequireAuth (p_logout c)"
| "p_route c RHome vs = p_home c"
| "p_route c RWatch vs = p_watch c (hd vs)"
| "p_route c RChatWS vs = p_chatWS (hd vs)"
| "p_route c RHls vs = p_page (h_hls c)"
| "p_route c RDashboard vs = p_RequireAuth (p_dashboard c)"
| "p_route c RTitle vs = p_RequireAuth (p_updateTitle c)"
| "p_route c RRegenerate vs = p_RequireAuth (p_regenerateKey c)"

definition p_mux :: "web_ctx \<Rightarrow> handler_prog" where
  "p_mux c r w =
     (case mux_dispatch routes r of
        Handler rt vs \<Rightarrow> p_route c rt vs r w
      | MovedPermanently \<Rightarrow>
          Reply (http_Redirect BText r (if canonical (rq_segs r) then canonical_url (rq_segs r @ ['''']) else canonical_url (rq_segs r)) 301 w)
      | MethodNotAllowed ms \<Rightarrow> Reply (http_Error BText ''Method Not Allowed'' 405 (setHeader (header.Allow ms) w))
      | NoRoute \<Rightarrow> Reply (http_NotFound BText w))"

section \<open>Requests in flight\<close>

text \<open>
  A request waits for the answer of its session lookup (\<open>Middleware\<close>), or runs its handler with
  the user that lookup found.
\<close>

datatype pending = Authenticating web_request string | Running web_request prog

definition accept_request :: "web_ctx \<Rightarrow> web_request \<Rightarrow> pending" where
  "accept_request c r =
     (let r0 = r\<lparr>rq_user := None\<rparr>
      in case r_Cookie SessionCookieName r of
           None \<Rightarrow> Running r0 (p_mux c r0 newWriter)
         | Some tok \<Rightarrow> if tok = '''' then Running r0 (p_mux c r0 newWriter) else Authenticating r0 tok)"

text \<open>One call, on the services as they are at that moment.\<close>

definition on_db :: "(db \<Rightarrow> 'a \<times> db) \<Rightarrow> ('a \<Rightarrow> prog) \<Rightarrow> app \<Rightarrow> prog \<times> app" where
  "on_db f k a = (let (x, d) = f (sdb (a_streams a)) in (k x, a\<lparr>a_streams := (a_streams a)\<lparr>sdb := d\<rparr>\<rparr>))"

fun call :: "web_ctx \<Rightarrow> app_env \<Rightarrow> prog \<Rightarrow> app \<Rightarrow> prog \<times> app" where
  "call c env (Reply w) a = (Reply w, a)"
| "call c env (CallSignup un em pw k) a =
     on_db (Signup (wc_bcrypt c) (wc_parse c) (e_signup (ae_req env)) un em pw) k a"
| "call c env (CallLogin un pw k) a =
     (k (Login (wc_bcrypt c) (e_net1 (ae_req env)) un pw (sdb (a_streams a))), a)"
| "call c env (CallCreateSession uid k) a =
     on_db (CreateSession (e_rnd (ae_req env)) (e_net2 (ae_req env)) (wc_sessionTTL c) (e_now (ae_req env)) uid) k a"
| "call c env (CallLogout tok k) a = on_db (Logout (e_net1 (ae_req env)) tok) (\<lambda>_. k) a"
| "call c env (CallChannelForUser uid k) a =
     (k (ChannelForUser (e_net1 (ae_req env)) uid (sdb (a_streams a))), a)"
| "call c env (CallChannelByName nm k) a =
     (k (ChannelByName (e_net1 (ae_req env)) nm (sdb (a_streams a))), a)"
| "call c env (CallTitle i t k) a = on_db (auth_UpdateChannelTitle (e_net2 (ae_req env)) i t) k a"
| "call c env (CallRegenerate i k) a =
     on_db (RegenerateStreamKey (e_rnd (ae_req env)) (e_net2 (ae_req env)) i) k a"
| "call c env (CallListLive k) a = (k (ListLive (ae_names env) (a_streams a)), a)"
| "call c env (CallGetByName nm k) a = (k (GetByName nm (a_streams a)), a)"
| "call c env (CallViewerCount nm k) a = (k (ViewerCount nm (world_of (a_chat a))), a)"
| "call c env (CallPing k) a = (k (ae_ping env), a)"
| "call c env (CallRand k) a = (k (e_rndAnon (ae_req env)), a)"

definition advance :: "web_ctx \<Rightarrow> app_env \<Rightarrow> pending \<times> app \<Rightarrow> pending \<times> app" where
  "advance c env x =
     (case x of
        (Authenticating r tok, a) \<Rightarrow>
          (case SessionUser (e_netSession (ae_req env)) tok (e_now (ae_req env)) (sdb (a_streams a)) of
             Inl _ \<Rightarrow> (Running r (p_mux c r (clearSessionCookie False newWriter)), a)
           | Inr user \<Rightarrow> (let r1 = r\<lparr>rq_user := Some user\<rparr> in (Running r1 (p_mux c r1 newWriter), a)))
      | (Running r p, a) \<Rightarrow> (let (p1, a1) = call c env p a in (Running r p1, a1)))"

text \<open>The reply is sent; an accepted upgrade goes on in \<open>ServeWS\<close>.\<close>

definition respond :: "app_env \<Rightarrow> web_response \<Rightarrow> app \<Rightarrow> panic + app" where
  "respond env w a =
     (case upgrade_of (body w) of
        None \<Rightarrow> Inr a
      | Some (ch, u, i, ak) \<Rightarrow>
          bindE (serve_open (ae_iter env) (ae_conn env) ch u i ak (ae_accept env) (a_chat a))
            (\<lambda>cs. Inr (a\<lparr>a_chat := cs\<rparr>)))"

end
