(* ===== verification/Stream_Props.thy ===== *)
theory Stream_Props
  imports Stream
begin

text \<open>
  Properties of the stream subsystem over every interleaving of its goroutines: the registry
  holds exactly the sessions that have not left it, every live session owns an open row,
  \<open>tearDown\<close> runs once and to its end, only a current key admits a publisher, recovery resets
  what a crash left, and the two orders of events the code does not handle.
\<close>

section \<open>The registry\<close>

fun in_registry :: "tdstate \<Rightarrow> bool" where
  "in_registry (TdRow _) = False"
| "in_registry (TdFiles _) = False"
| "in_registry (TdDone _) = False"
| "in_registry _ = True"

definition live :: "streamsvc \<Rightarrow> sid \<Rightarrow> bool" where
  "live s i \<longleftrightarrow> i < nextSess s \<and> in_registry (td (sess s i))"

definition registry_inv :: "streamsvc \<Rightarrow> bool" where
  "registry_inv s \<longleftrightarrow>
     (\<forall>nm i. fmlookup (registry s) nm = Some i \<longleftrightarrow> live s i \<and> channelName (sess s i) = nm) \<and>
     (\<forall>h i. h_sess (handlers s h) = Some i \<longrightarrow> i < nextSess s) \<and>
     (\<forall>i\<in>set (shutdownQueue s). i < nextSess s)"

lemma setters [simp]:
  "registry (setSess i x s) = registry s" "nextSess (setSess i x s) = nextSess s"
  "handlers (setSess i x s) = handlers s" "sdb (setSess i x s) = sdb s" "files (setSess i x s) = files s"
  "shutdownQueue (setSess i x s) = shutdownQueue s" "procs (setSess i x s) = procs s"
  "nextProc (setSess i x s) = nextProc s"
  "sess (setSess i x s) = (sess s)(i := x)"
  "registry (setHandler h y s) = registry s" "nextSess (setHandler h y s) = nextSess s"
  "sess (setHandler h y s) = sess s" "sdb (setHandler h y s) = sdb s" "files (setHandler h y s) = files s"
  "shutdownQueue (setHandler h y s) = shutdownQueue s" "procs (setHandler h y s) = procs s"
  "nextProc (setHandler h y s) = nextProc s" "handlers (setHandler h y s) = (handlers s)(h := y)"
  "registry (setStage h st s) = registry s" "nextSess (setStage h st s) = nextSess s"
  "sess (setStage h st s) = sess s" "sdb (setStage h st s) = sdb s" "files (setStage h st s) = files s"
  "shutdownQueue (setStage h st s) = shutdownQueue s" "procs (setStage h st s) = procs s"
  "nextProc (setStage h st s) = nextProc s"
  "handlers (setStage h st s) = (handlers s)(h := (handlers s h)\<lparr>h_stage := st\<rparr>)"
  "registry (cancelProc p s) = registry s" "nextSess (cancelProc p s) = nextSess s"
  "sess (cancelProc p s) = sess s" "sdb (cancelProc p s) = sdb s" "files (cancelProc p s) = files s"
  "shutdownQueue (cancelProc p s) = shutdownQueue s" "procs (cancelProc p s) = procs s"
  "nextProc (cancelProc p s) = nextProc s" "handlers (cancelProc p s) = handlers s"
  by (simp_all add: setSess_def setHandler_def setStage_def cancelProc_def)

text \<open>A move that keeps names, registration, handlers' sessions and the queue keeps the invariant.\<close>

lemma registry_inv_frame:
  assumes "registry_inv s" "registry s' = registry s" "nextSess s' = nextSess s"
    and "\<And>i. channelName (sess s' i) = channelName (sess s i)"
    and "\<And>i. in_registry (td (sess s' i)) = in_registry (td (sess s i))"
    and "\<And>h. h_sess (handlers s' h) = h_sess (handlers s h)" "set (shutdownQueue s') \<subseteq> set (shutdownQueue s)"
  shows "registry_inv s'"
  using assms unfolding registry_inv_def live_def by auto

lemma tearDown_frame:
  "registry (tearDown i r s) = registry s" "nextSess (tearDown i r s) = nextSess s"
  "handlers (tearDown i r s) = handlers s" "sdb (tearDown i r s) = sdb s" "files (tearDown i r s) = files s"
  "shutdownQueue (tearDown i r s) = shutdownQueue s" "procs (tearDown i r s) = procs s"
  "channelName (sess (tearDown i r s) j) = channelName (sess s j)"
  "dbRowID (sess (tearDown i r s) j) = dbRowID (sess s j)"
  "channelID (sess (tearDown i r s) j) = channelID (sess s j)"
  "ffmpeg (sess (tearDown i r s) j) = ffmpeg (sess s j)"
  "in_registry (td (sess (tearDown i r s) j)) = in_registry (td (sess s j))"
  by (auto simp: tearDown_def split: tdstate.split)

lemma registry_inv_tearDown [inv_intros]: "registry_inv s \<Longrightarrow> registry_inv (tearDown i r s)"
  by (erule registry_inv_frame) (simp_all add: tearDown_frame)

lemma registry_inv_phase [inv_intros]:
  assumes inv: "registry_inv s" and i: "i < nextSess s"
  shows "registry_inv (tearDown_phase env i s)"
proof (cases "\<exists>r. td (sess s i) = TdRegistry r")
  case True
  then obtain r where r: "td (sess s i) = TdRegistry r" by blast
  have reg: "fmlookup (registry s) nm = Some j \<longleftrightarrow> live s j \<and> channelName (sess s j) = nm" for nm j
    using inv by (simp add: registry_inv_def)
  have own: "fmlookup (registry s) (channelName (sess s i)) = Some i"
    using reg i r by (simp add: live_def)
  define s' where "s' = tearDown_phase env i s"
  have s': "registry s' = fmdrop (channelName (sess s i)) (registry s)" "nextSess s' = nextSess s"
    "handlers s' = handlers s" "shutdownQueue s' = shutdownQueue s"
    "sess s' = (sess s)(i := (sess s i)\<lparr>td := TdRow r\<rparr>)"
    by (simp_all add: s'_def tearDown_phase_def r Let_def registry_remove_def)
  have live': "live s' j \<longleftrightarrow> live s j \<and> j \<noteq> i" for j by (auto simp: live_def s')
  have names: "channelName (sess s' j) = channelName (sess s j)" for j by (simp add: s')
  have "fmlookup (registry s') nm = Some j \<longleftrightarrow> live s' j \<and> channelName (sess s' j) = nm" for nm j
    unfolding live' names s'(1) using reg [of nm j] own by auto
  then show ?thesis using inv s' unfolding s'_def [symmetric] registry_inv_def by simp
next
  case False
  then show ?thesis
    by (intro registry_inv_frame [OF inv])
       (auto simp: tearDown_phase_def Let_def split: tdstate.split)
qed

lemma registry_inv_add:
  assumes inv: "registry_inv s"
  shows "registry_inv (pub_add h ch now row p n t s)"
proof (cases "fmlookup (registry s) (c_name ch)")
  case (Some j)
  then show ?thesis
    by (intro registry_inv_frame [OF inv]) (simp_all add: pub_add_def registry_add_def)
next
  case None
  define i where "i = nextSess s"
  define s' where "s' = pub_add h ch now row p n t s"
  have s': "registry s' = fmupd (c_name ch) i (registry s)" "nextSess s' = Suc i"
    "sess s' = (sess s)(i := newSession ch now row p (stateDir s))" "shutdownQueue s' = shutdownQueue s"
    "handlers s' = (handlers s)(h := \<lparr>h_stage = Publishing, h_sess = Some i, h_flvEnc = True\<rparr>)"
    using None by (simp_all add: s'_def pub_add_def registry_add_def i_def Let_def)
  have reg: "fmlookup (registry s) nm = Some j \<longleftrightarrow> live s j \<and> channelName (sess s j) = nm" for nm j
    using inv by (simp add: registry_inv_def)
  have free: "channelName (sess s j) \<noteq> c_name ch" if "live s j" for j
    using reg [of "channelName (sess s j)" j] that None by auto
  have new: "channelName (sess s' i) = c_name ch" "live s' i" by (simp_all add: s' newSession_def live_def)
  have live': "live s' j \<longleftrightarrow> (if j = i then True else live s j)" for j by (auto simp: live_def s' newSession_def i_def)
  have old: "channelName (sess s' j) = channelName (sess s j)" if "j \<noteq> i" for j using that by (simp add: s')
  have "fmlookup (registry s') nm = Some j \<longleftrightarrow> live s' j \<and> channelName (sess s' j) = nm" for nm j
  proof (cases "j = i")
    case True
    have "\<not> live s i" by (simp add: live_def i_def)
    then show ?thesis using reg [of nm i] new True by (auto simp: s'(1))
  next
    case False
    then show ?thesis using reg [of nm j] free [of j] old [of j] by (auto simp: s'(1) live')
  qed
  moreover have "\<forall>h i. h_sess (handlers s' h) = Some i \<longrightarrow> i < nextSess s'"
    using inv unfolding registry_inv_def s' by (auto simp: i_def less_SucI)
  ultimately show ?thesis
    using inv unfolding s'_def [symmetric] registry_inv_def s'(2,4) by (auto simp: i_def less_SucI)
qed

section \<open>Rows and their owners\<close>

text \<open>
  A row of \<open>stream_sessions\<close> is owned by the publish command that created it, then by the session
  that took it over, until \<open>tearDown\<close> or the refused command closes it.
\<close>

datatype owner = Pub hid | Sess sid

fun stage_owns :: "stage \<Rightarrow> (int \<times> int \<times> string) option" where
  "stage_owns (GotRow ch now row) = Some (row, c_id ch, c_name ch)"
| "stage_owns (GotDir ch now row) = Some (row, c_id ch, c_name ch)"
| "stage_owns (GotProc ch now row p) = Some (row, c_id ch, c_name ch)"
| "stage_owns (GotEnc ch now row p) = Some (row, c_id ch, c_name ch)"
| "stage_owns _ = None"

fun holds_row :: "tdstate \<Rightarrow> bool" where
  "holds_row (TdFiles _) = False"
| "holds_row (TdDone _) = False"
| "holds_row _ = True"

fun owns :: "streamsvc \<Rightarrow> owner \<Rightarrow> (int \<times> int \<times> string) option" where
  "owns s (Pub h) = stage_owns (h_stage (handlers s h))"
| "owns s (Sess i) =
     (if i < nextSess s \<and> holds_row (td (sess s i))
      then Some (dbRowID (sess s i), channelID (sess s i), channelName (sess s i)) else None)"

definition row_open :: "db \<Rightarrow> int \<Rightarrow> int \<Rightarrow> bool" where
  "row_open d r c \<longleftrightarrow> (\<exists>x\<in>set (stream_sessions d). ss_id x = r \<and> ss_channel_id x = c \<and> ss_ended x = None)"

definition chan_known :: "db \<Rightarrow> int \<Rightarrow> string \<Rightarrow> bool" where
  "chan_known d c nm \<longleftrightarrow> (\<exists>ch\<in>set (channels d). c_id ch = c \<and> c_name ch = nm)"

definition owners_inv :: "streamsvc \<Rightarrow> bool" where
  "owners_inv s \<longleftrightarrow>
     (\<forall>z r c nm. owns s z = Some (r, c, nm) \<longrightarrow> 1 \<le> r \<and> row_open (sdb s) r c \<and> chan_known (sdb s) c nm) \<and>
     (\<forall>z z' r t t'. owns s z = Some (r, t) \<longrightarrow> owns s z' = Some (r, t') \<longrightarrow> z = z') \<and>
     (\<forall>h ch. h_stage (handlers s h) = GotChannel ch \<longrightarrow> chan_known (sdb s) (c_id ch) (c_name ch))"

text \<open>
  Owners may hand rows over (\<open>mv\<close>) or give them up; the rows still owned stay open.
\<close>

lemma owners_inv_move:
  assumes inv: "owners_inv s"
    and mv: "\<And>z t. owns s' z = Some t \<Longrightarrow> \<exists>z0. owns s z0 = Some t \<and> mv z0 = z"
    and rows: "\<And>z r c nm. owns s' z = Some (r, c, nm) \<Longrightarrow> row_open (sdb s) r c \<Longrightarrow> row_open (sdb s') r c"
    and chans: "\<And>c nm. chan_known (sdb s) c nm \<Longrightarrow> chan_known (sdb s') c nm"
    and got: "\<And>h ch. h_stage (handlers s' h) = GotChannel ch \<Longrightarrow> chan_known (sdb s') (c_id ch) (c_name ch)"
  shows "owners_inv s'"
  unfolding owners_inv_def
proof (intro conjI allI impI)
  fix z z' r t t' assume "owns s' z = Some (r, t)" "owns s' z' = Some (r, t')"
  then obtain z0 z1 where "owns s z0 = Some (r, t)" "mv z0 = z" "owns s z1 = Some (r, t')" "mv z1 = z'"
    using mv by metis
  moreover from this have "z0 = z1" using inv unfolding owners_inv_def by blast
  ultimately show "z = z'" by simp
next
  fix z r c nm assume o: "owns s' z = Some (r, c, nm)"
  then obtain z0 where "owns s z0 = Some (r, c, nm)" using mv by metis
  then have "1 \<le> r" "row_open (sdb s) r c" "chan_known (sdb s) c nm" using inv unfolding owners_inv_def by blast+
  then show "1 \<le> r" "row_open (sdb s') r c" "chan_known (sdb s') c nm" using rows [OF o] chans by simp_all
qed (rule got)

lemmas owners_inv_frame = owners_inv_move [where mv = "\<lambda>z. z"]

lemma row_open_end:
  "row_open d r c \<Longrightarrow> r \<noteq> r0 \<Longrightarrow> row_open (snd (stmt n (q_endStreamSession r0 t reason) d)) r c"
proof -
  assume "row_open d r c" "r \<noteq> r0"
  then have "row_open (snd (q_endStreamSession r0 t reason d)) r c"
    by (auto simp: row_open_def q_endStreamSession_def Let_def image_iff split: if_splits)
  with \<open>row_open d r c\<close> show ?thesis using stmt_db [of n "q_endStreamSession r0 t reason" d] by auto
qed

lemma row_open_fresh: "db_inv d \<Longrightarrow> row_open d r c \<Longrightarrow> r < seq_stream d"
  by (auto simp: row_open_def db_inv_def)

lemma row_open_create: "row_open d r c \<Longrightarrow> row_open (snd (q_createStreamSession cid t d)) r c"
  by (auto simp: row_open_def q_createStreamSession_def Let_def)

lemma chan_known_queries [simp]:
  "chan_known (snd (q_createStreamSession cid t d)) c nm = chan_known d c nm"
  "chan_known (snd (q_endStreamSession r t reason d)) c nm = chan_known d c nm"
  by (simp_all add: chan_known_def q_createStreamSession_def q_endStreamSession_def Let_def)

lemma chan_known_end [simp]:
  "chan_known (snd (stmt n (q_endStreamSession r t reason) d)) c nm = chan_known d c nm"
  using stmt_db [of n "q_endStreamSession r t reason" d] by auto

section \<open>Account operations beside the streams\<close>

lemmas auth_op_defs =
  CreateSession_def newSessionToken_def Logout_def RegenerateStreamKey_def SweepExpiredSessions_def
  auth_UpdateChannelTitle_def stmt_def q_createSession_def q_deleteSession_def q_updateChannelStreamKey_def
  q_updateChannelTitle_def q_deleteExpiredSessions_def Let_def

lemma auth_exec_streams [simp]: "stream_sessions (auth_exec bc pa op d) = stream_sessions d"
proof (cases op)
  case (OpSignup env un em pw)
  obtain r d' where s: "Signup bc pa env un em pw d = (r, d')" by fastforce
  from Signup_cases [OF s] show ?thesis by (auto simp: OpSignup s same_tables_def withAccount_def)
qed (auto simp: auth_op_defs split: option.split sum.split prod.split net.split)

lemma auth_exec_seq: "seq_stream d \<le> seq_stream (auth_exec bc pa op d)"
proof (cases op)
  case (OpSignup env un em pw)
  obtain r d' where s: "Signup bc pa env un em pw d = (r, d')" by fastforce
  from Signup_cases [OF s] show ?thesis by (auto simp: OpSignup s same_tables_def withAccount_def)
qed (auto simp: auth_op_defs split: option.split sum.split prod.split net.split)

lemma chan_known_map:
  "(\<And>ch. c_id (g ch) = c_id ch) \<Longrightarrow> (\<And>ch. c_name (g ch) = c_name ch) \<Longrightarrow>
   chan_known (d\<lparr>channels := map g (channels d)\<rparr>) c nm = chan_known d c nm"
  by (auto simp: chan_known_def)

lemma chan_known_sessions: "chan_known (d\<lparr>sessions := ss\<rparr>) c nm = chan_known d c nm"
  by (simp add: chan_known_def)

lemma auth_exec_known: "chan_known d c nm \<Longrightarrow> chan_known (auth_exec bc pa op d) c nm"
proof (cases op)
  case (OpSignup env un em pw)
  assume k: "chan_known d c nm"
  obtain r d' where s: "Signup bc pa env un em pw d = (r, d')" by fastforce
  from Signup_cases [OF s] k show ?thesis by (auto simp: OpSignup s same_tables_def withAccount_def chan_known_def)
qed (auto simp: auth_op_defs chan_known_map chan_known_sessions
    split: option.split sum.split prod.split net.split)

lemma row_open_account [simp]: "row_open (auth_exec bc pa op d) r c = row_open d r c"
  by (simp add: row_open_def)

section \<open>The invariant of the service\<close>

fun td_reason :: "tdstate \<Rightarrow> string option" where
  "td_reason TdIdle = None"
| "td_reason (TdPipe r) = Some r"
| "td_reason (TdWait r) = Some r"
| "td_reason (TdKill r) = Some r"
| "td_reason (TdRegistry r) = Some r"
| "td_reason (TdRow r) = Some r"
| "td_reason (TdFiles r) = Some r"
| "td_reason (TdDone r) = Some r"

fun stage_proc :: "stage \<Rightarrow> pid option" where
  "stage_proc (GotProc ch now row p) = Some p"
| "stage_proc (GotEnc ch now row p) = Some p"
| "stage_proc _ = None"

definition procs_inv :: "streamsvc \<Rightarrow> bool" where
  "procs_inv s \<longleftrightarrow>
     (\<forall>i<nextSess s. ffmpeg (sess s i) < nextProc s) \<and>
     (\<forall>h p. stage_proc (h_stage (handlers s h)) = Some p \<longrightarrow> p < nextProc s) \<and>
     (\<forall>i r. td_reason (td (sess s i)) = Some r \<longrightarrow> r \<in> set end_reasons)"

definition tables_inv :: "streamsvc \<Rightarrow> bool" where
  "tables_inv s \<longleftrightarrow> account_inv (sdb s) \<and> 1 \<le> seq_stream (sdb s)"

definition stream_inv :: "streamsvc \<Rightarrow> bool" where
  "stream_inv s \<longleftrightarrow> registry_inv s \<and> owners_inv s \<and> procs_inv s \<and> tables_inv s"

definition stream_boot :: "streamsvc \<Rightarrow> bool" where
  "stream_boot s \<longleftrightarrow> (\<exists>d dir bin. account_inv d \<and> 1 \<le> seq_stream d \<and> s = stream_NewService d dir bin)"

lemma stream_inv_boot: "stream_boot s \<Longrightarrow> stream_inv s"
  by (auto simp: stream_boot_def stream_inv_def registry_inv_def owners_inv_def procs_inv_def tables_inv_def live_def
      stream_NewService_def newHandler_def noSession_def elim!: owns.elims)

section \<open>The steps keep the invariant\<close>

text \<open>A publish command moves to another stage, without touching rows or sessions.\<close>

lemma stream_inv_stage:
  assumes inv: "stream_inv s"
    and eqs: "registry s' = registry s" "sess s' = sess s" "nextSess s' = nextSess s"
      "shutdownQueue s' = shutdownQueue s" "sdb s' = sdb s" "nextProc s \<le> nextProc s'"
    and h: "handlers s' = (handlers s)(h := (handlers s h)\<lparr>h_stage := st\<rparr>)"
    and st: "stage_owns st = None \<or> stage_owns st = stage_owns (h_stage (handlers s h))"
      "\<And>p. stage_proc st = Some p \<Longrightarrow> p < nextProc s'"
      "\<And>ch. st = GotChannel ch \<Longrightarrow> chan_known (sdb s) (c_id ch) (c_name ch)"
  shows "stream_inv s'"
proof -
  have "registry_inv s'"
    by (rule registry_inv_frame [of s]) (use inv eqs h in \<open>simp_all add: stream_inv_def\<close>)
  moreover have "owners_inv s'"
  proof (rule owners_inv_frame)
    show "owners_inv s" using inv by (simp add: stream_inv_def)
    fix z t assume "owns s' z = Some t"
    then show "\<exists>z0. owns s z0 = Some t \<and> z0 = z" using eqs h st(1) by (cases z) (auto split: if_splits)
  next
    fix k ch assume "h_stage (handlers s' k) = GotChannel ch"
    then show "chan_known (sdb s') (c_id ch) (c_name ch)"
      using inv st(3) by (auto simp: h eqs stream_inv_def owners_inv_def split: if_splits)
  qed (simp_all add: eqs)
  moreover have "procs_inv s'"
    using inv st(2) eqs h by (fastforce simp: stream_inv_def procs_inv_def)
  ultimately show ?thesis using inv eqs by (simp add: stream_inv_def tables_inv_def)
qed

text \<open>A session moves, or a process or file does, without touching rows or the registry.\<close>

lemma stream_inv_sess:
  assumes inv: "stream_inv s"
    and eqs: "registry s' = registry s" "handlers s' = handlers s" "nextSess s' = nextSess s" "sdb s' = sdb s"
      "nextProc s' = nextProc s" "set (shutdownQueue s') \<subseteq> set (shutdownQueue s)"
    and same: "\<And>i. channelName (sess s' i) = channelName (sess s i)" "\<And>i. channelID (sess s' i) = channelID (sess s i)"
      "\<And>i. dbRowID (sess s' i) = dbRowID (sess s i)" "\<And>i. ffmpeg (sess s' i) = ffmpeg (sess s i)"
      "\<And>i. in_registry (td (sess s' i)) = in_registry (td (sess s i))"
    and td: "\<And>i. holds_row (td (sess s' i)) \<Longrightarrow> holds_row (td (sess s i))"
      "\<And>i r. td_reason (td (sess s' i)) = Some r \<Longrightarrow> td_reason (td (sess s i)) = Some r \<or> r \<in> set end_reasons"
  shows "stream_inv s'"
proof -
  have "registry_inv s'"
    by (rule registry_inv_frame [of s]) (use inv eqs same in \<open>simp_all add: stream_inv_def\<close>)
  moreover have "owners_inv s'"
  proof (rule owners_inv_frame)
    show "owners_inv s" using inv by (simp add: stream_inv_def)
    fix z t assume "owns s' z = Some t"
    then show "\<exists>z0. owns s z0 = Some t \<and> z0 = z" using eqs same td(1) by (cases z) (auto split: if_splits)
  next
    fix k ch assume "h_stage (handlers s' k) = GotChannel ch"
    then show "chan_known (sdb s') (c_id ch) (c_name ch)"
      using inv by (auto simp: eqs stream_inv_def owners_inv_def)
  qed (simp_all add: eqs)
  moreover have "procs_inv s'"
    using inv td(2) eqs same by (fastforce simp: stream_inv_def procs_inv_def)
  ultimately show ?thesis using inv eqs by (simp add: stream_inv_def tables_inv_def)
qed

lemma tearDown_td:
  "holds_row (td (sess (tearDown i r s) j)) = holds_row (td (sess s j))"
  "td_reason (td (sess (tearDown i r s) j)) = Some q \<Longrightarrow> td_reason (td (sess s j)) = Some q \<or> q = r"
  "nextProc (tearDown i r s) = nextProc s"
  by (auto simp: tearDown_def split: tdstate.splits if_splits)

lemma stream_inv_tearDown [inv_intros]: "stream_inv s \<Longrightarrow> r \<in> set end_reasons \<Longrightarrow> stream_inv (tearDown i r s)"
  by (erule stream_inv_sess) (auto simp: tearDown_frame tearDown_td dest: tearDown_td(2))

lemma stream_queries_frame [simp]:
  "users (snd (q_createStreamSession c t d)) = users d" "channels (snd (q_createStreamSession c t d)) = channels d"
  "users (snd (q_endStreamSession r t reason d)) = users d" "channels (snd (q_endStreamSession r t reason d)) = channels d"
  by (simp_all add: q_createStreamSession_def q_endStreamSession_def Let_def)

lemma account_inv_streams:
  "account_inv d \<Longrightarrow> account_inv (snd (stmt n (q_createStreamSession c t) d))"
  "account_inv d \<Longrightarrow> account_inv (snd (stmt n (q_endStreamSession r t reason) d))"
  by (rule account_inv_stmt; simp add: query_inv)+

lemma seq_stream_queries:
  "seq_stream d \<le> seq_stream (snd (stmt n (q_createStreamSession c t) d))"
  "seq_stream (snd (stmt n (q_endStreamSession r t reason) d)) = seq_stream d"
  by (auto simp: stmt_def q_createStreamSession_def q_endStreamSession_def Let_def split: net.split)

text \<open>A publish command or a session gives its row up and closes it.\<close>

lemma stream_inv_end:
  assumes inv: "stream_inv s" and own: "owns s z0 = Some (r, c0, nm0)"
    and eqs: "registry_inv s'" "procs_inv s'"
      "sdb s' = snd (stmt n (q_endStreamSession r t reason) (sdb s))"
    and owns': "\<And>z u. owns s' z = Some u \<Longrightarrow> owns s z = Some u \<and> z \<noteq> z0"
    and got: "\<And>h ch. h_stage (handlers s' h) = GotChannel ch \<Longrightarrow> h_stage (handlers s h) = GotChannel ch"
  shows "stream_inv s'"
proof -
  have oi: "owners_inv s" using inv by (simp add: stream_inv_def)
  have "owners_inv s'"
  proof (rule owners_inv_frame [OF oi])
    fix z r' c nm assume z: "owns s' z = Some (r', c, nm)" "row_open (sdb s) r' c"
    then have "r' \<noteq> r" using oi own owns' [OF z(1)] unfolding owners_inv_def by blast
    then show "row_open (sdb s') r' c" using z(2) by (simp add: eqs row_open_end)
  next
    fix h ch assume "h_stage (handlers s' h) = GotChannel ch"
    from got [OF this] show "chan_known (sdb s') (c_id ch) (c_name ch)"
      using oi by (simp add: eqs owners_inv_def)
  qed (use owns' in \<open>auto simp: eqs\<close>)
  then show ?thesis using inv eqs
    by (simp add: stream_inv_def tables_inv_def account_inv_streams seq_stream_queries)
qed

lemma lookup_known:
  "lookupChannelByStreamKey n key d = Inr ch \<Longrightarrow> ch \<in> set (channels d) \<and> c_key_hash ch = HashKey key"
  by (auto simp: lookupChannelByStreamKey_def stmt_def q_getChannelByStreamKeyHash_def one_row_def find_Some_iff
      split: net.splits sum.splits if_splits option.splits)

lemma lookup_chan_known: "lookupChannelByStreamKey n key d = Inr ch \<Longrightarrow> chan_known d (c_id ch) (c_name ch)"
  using lookup_known unfolding chan_known_def by blast

lemma stage_proc_less: "stream_inv s \<Longrightarrow> stage_proc (h_stage (handlers s h)) = Some p \<Longrightarrow> p < nextProc s"
  by (simp add: stream_inv_def procs_inv_def)

lemma reason_ok: "stream_inv s \<Longrightarrow> td_reason (td (sess s i)) = Some r \<Longrightarrow> r \<in> set end_reasons"
  unfolding stream_inv_def procs_inv_def by blast

lemma stream_inv_lookup [inv_intros]: "stream_inv s \<Longrightarrow> stream_inv (pub_lookup h key n s)"
  unfolding pub_lookup_def
  by (auto split: sum.split intro: lookup_chan_known intro!: stream_inv_stage [of s])

lemma stream_inv_mkdir [inv_intros]:
  "stream_inv s \<Longrightarrow> h_stage (handlers s h) = GotRow ch now row \<Longrightarrow> stream_inv (pub_mkdir h ch now row ok s)"
  unfolding pub_mkdir_def by (auto intro!: stream_inv_stage [of s])

lemma stream_inv_start [inv_intros]:
  "stream_inv s \<Longrightarrow> h_stage (handlers s h) = GotDir ch now row \<Longrightarrow> stream_inv (pub_start h ch now row e1 e2 e3 s)"
  unfolding pub_start_def Let_def by (auto split: sum.split intro!: stream_inv_stage [of s])

lemma stream_inv_encoder [inv_intros]:
  "stream_inv s \<Longrightarrow> h_stage (handlers s h) = GotProc ch now row p \<Longrightarrow> stream_inv (pub_encoder h ch now row p ok s)"
  using stage_proc_less [of s h p] unfolding pub_encoder_def by (auto intro!: stream_inv_stage [of s])

lemma stream_inv_row [inv_intros]:
  assumes inv: "stream_inv s" and h: "h_stage (handlers s h) = GotChannel ch"
  shows "stream_inv (pub_row h ch n now s)"
proof -
  define d where "d = snd (stmt n (q_createStreamSession (c_id ch) now) (sdb s))"
  define s' where "s' = pub_row h ch n now s"
  have s': "registry s' = registry s" "sess s' = sess s" "nextSess s' = nextSess s" "nextProc s' = nextProc s"
    "shutdownQueue s' = shutdownQueue s" "sdb s' = d"
    by (auto simp: s'_def d_def pub_row_def split: prod.split sum.split)
  have oi: "owners_inv s" and db: "db_inv (sdb s)" and seq: "1 \<le> seq_stream (sdb s)"
    using inv by (simp_all add: stream_inv_def tables_inv_def account_inv_def)
  have keep: "row_open d r c" if "row_open (sdb s) r c" for r c
    using that row_open_create [OF that] stmt_db [of n "q_createStreamSession (c_id ch) now" "sdb s"]
    by (auto simp: d_def)
  have chans: "chan_known d c nm = chan_known (sdb s) c nm" for c nm
    using stmt_db [of n "q_createStreamSession (c_id ch) now" "sdb s"] by (auto simp: d_def)
  have hd: "\<exists>st. handlers s' = (handlers s)(h := (handlers s h)\<lparr>h_stage := st\<rparr>) \<and>
     ((\<exists>e. st = Refused e) \<or> st = GotRow ch now (seq_stream (sdb s)) \<and> row_open d (seq_stream (sdb s)) (c_id ch))"
    by (auto simp: s'_def d_def pub_row_def stmt_def q_createStreamSession_def Let_def row_open_def split: net.split)
  then obtain st where st: "handlers s' = (handlers s)(h := (handlers s h)\<lparr>h_stage := st\<rparr>)"
    "(\<exists>e. st = Refused e) \<or> st = GotRow ch now (seq_stream (sdb s)) \<and> row_open d (seq_stream (sdb s)) (c_id ch)"
    by blast
  have cases: "owns s z = Some u \<or> z = Pub h \<and> u = (seq_stream (sdb s), c_id ch, c_name ch) \<and>
      row_open d (seq_stream (sdb s)) (c_id ch)" if "owns s' z = Some u" for z u
    using that st s' by (cases z) (auto split: if_splits)
  have fresh: "r < seq_stream (sdb s)" if "owns s z = Some (r, u)" for z r u
    using that oi row_open_fresh [OF db] unfolding owners_inv_def by (cases u) blast
  have chk: "chan_known (sdb s) (c_id ch) (c_name ch)" using oi h by (simp add: owners_inv_def)
  have "owners_inv s'"
    unfolding owners_inv_def
  proof (intro conjI allI impI)
    fix z z' r t t' assume z: "owns s' z = Some (r, t)" "owns s' z' = Some (r, t')"
    from cases [OF z(1)] cases [OF z(2)] show "z = z'"
      using fresh [of z r t] fresh [of z' r t'] oi unfolding owners_inv_def by fastforce
  next
    fix z r c nm assume z: "owns s' z = Some (r, c, nm)"
    from cases [OF z] have "1 \<le> r \<and> row_open d r c \<and> chan_known d c nm"
      using oi keep chk seq unfolding chans owners_inv_def by auto
    then show "1 \<le> r" "row_open (sdb s') r c" "chan_known (sdb s') c nm" by (simp_all add: s')
  next
    fix k c assume "h_stage (handlers s' k) = GotChannel c"
    then show "chan_known (sdb s') (c_id c) (c_name c)"
      using oi st(2) by (auto simp: st(1) s' chans owners_inv_def split: if_splits)
  qed
  moreover have "registry_inv s'"
    by (rule registry_inv_frame [of s]) (use inv in \<open>simp_all add: stream_inv_def s' st\<close>)
  moreover have "procs_inv s'" using inv st(2) by (auto simp: stream_inv_def procs_inv_def s' st(1))
  moreover have "tables_inv s'" using inv seq_stream_queries(1) [of "sdb s" n "c_id ch" now]
    by (simp add: stream_inv_def tables_inv_def s' d_def account_inv_streams)
  ultimately show ?thesis by (simp add: stream_inv_def s'_def)
qed

lemma stream_inv_add [inv_intros]:
  assumes inv: "stream_inv s" and h: "h_stage (handlers s h) = GotEnc ch now row p"
  shows "stream_inv (pub_add h ch now row p n t s)"
proof (cases "fmlookup (registry s) (c_name ch)")
  case (Some j)
  define s' where "s' = pub_add h ch now row p n t s"
  have s': "s' = setStage h (Refused ErrAlreadyLive)
      ((cancelProc p s)\<lparr>sdb := snd (stmt n (q_endStreamSession row t ''orphan_swept'') (sdb s))\<rparr>)"
    using Some by (simp add: s'_def pub_add_def registry_add_def)
  have "procs_inv s'" using inv by (auto simp: s' stream_inv_def procs_inv_def)
  moreover have "registry_inv s'" unfolding s'_def by (rule registry_inv_add) (use inv in \<open>simp add: stream_inv_def\<close>)
  moreover have "owns s z = Some u \<and> z \<noteq> Pub h" if "owns s' z = Some u" for z u
    using that by (cases z) (auto simp: s' split: if_splits)
  moreover have "owns s (Pub h) = Some (row, c_id ch, c_name ch)" using h by simp
  ultimately show ?thesis
    unfolding s'_def [symmetric]
    by (intro stream_inv_end [OF inv, of "Pub h"]) (auto simp: s' split: if_splits)
next
  case None
  define i where "i = nextSess s"
  define s' where "s' = pub_add h ch now row p n t s"
  have s': "nextSess s' = Suc i" "sess s' = (sess s)(i := newSession ch now row p (stateDir s))"
    "nextProc s' = nextProc s" "sdb s' = sdb s"
    "handlers s' = (handlers s)(h := \<lparr>h_stage = Publishing, h_sess = Some i, h_flvEnc = True\<rparr>)"
    using None by (simp_all add: s'_def pub_add_def registry_add_def i_def Let_def)
  have oi: "owners_inv s" using inv by (simp add: stream_inv_def)
  have "owners_inv s'"
  proof (rule owners_inv_move [OF oi, where mv = "\<lambda>z. if z = Pub h then Sess i else z"])
    fix z u assume u: "owns s' z = Some u"
    show "\<exists>z0. owns s z0 = Some u \<and> (if z0 = Pub h then Sess i else z0) = z"
    proof (cases "z = Sess i")
      case True
      then show ?thesis using u h by (intro exI [of _ "Pub h"]) (simp add: s' newSession_def)
    next
      case False
      then have "owns s z = Some u \<and> z \<noteq> Pub h"
        using u by (cases z) (auto simp: s' i_def less_Suc_eq split: if_splits)
      then show ?thesis by auto
    qed
  next
    fix k c assume "h_stage (handlers s' k) = GotChannel c"
    then show "chan_known (sdb s') (c_id c) (c_name c)"
      using oi by (auto simp: s' owners_inv_def split: if_splits)
  qed (simp_all add: s')
  moreover have "registry_inv s'" unfolding s'_def by (rule registry_inv_add) (use inv in \<open>simp add: stream_inv_def\<close>)
  moreover have "procs_inv s'"
    using inv stage_proc_less [OF inv, of h p] h
    by (auto simp: stream_inv_def procs_inv_def s' newSession_def i_def less_Suc_eq)
  ultimately show ?thesis using inv by (simp add: stream_inv_def tables_inv_def s' flip: s'_def)
qed

lemma owned_row:
  "stream_inv s \<Longrightarrow> owns s z = Some (r, c, nm) \<Longrightarrow> 1 \<le> r \<and> row_open (sdb s) r c \<and> chan_known (sdb s) c nm"
  unfolding stream_inv_def owners_inv_def by blast

lemma stream_inv_phase [inv_intros]:
  assumes inv: "stream_inv s" and i: "i < nextSess s"
  shows "stream_inv (tearDown_phase env i s)"
proof (cases "td (sess s i)")
  case (TdRegistry r)
  define s' where "s' = tearDown_phase env i s"
  have s': "nextSess s' = nextSess s" "handlers s' = handlers s" "sdb s' = sdb s" "nextProc s' = nextProc s"
    "sess s' = (sess s)(i := (sess s i)\<lparr>td := TdRow r\<rparr>)"
    by (simp_all add: s'_def tearDown_phase_def TdRegistry Let_def)
  have "owners_inv s'"
  proof (rule owners_inv_frame)
    show "owners_inv s" using inv by (simp add: stream_inv_def)
    fix z u assume "owns s' z = Some u"
    then show "\<exists>z0. owns s z0 = Some u \<and> z0 = z" using TdRegistry by (cases z) (auto simp: s' split: if_splits)
  next
    fix k c assume "h_stage (handlers s' k) = GotChannel c"
    then show "chan_known (sdb s') (c_id c) (c_name c)" using inv by (simp add: s' stream_inv_def owners_inv_def)
  qed (simp_all add: s')
  moreover have "procs_inv s'" using inv reason_ok [OF inv, of i r] TdRegistry by (auto simp: stream_inv_def procs_inv_def s')
  moreover have "registry_inv s'" unfolding s'_def by (rule registry_inv_phase) (use inv i in \<open>simp_all add: stream_inv_def\<close>)
  ultimately show ?thesis using inv by (simp add: stream_inv_def tables_inv_def s' flip: s'_def)
next
  case (TdRow r)
  define s' where "s' = tearDown_phase env i s"
  have own: "owns s (Sess i) = Some (dbRowID (sess s i), channelID (sess s i), channelName (sess s i))"
    using i TdRow by simp
  then have "dbRowID (sess s i) \<noteq> 0" using owned_row [OF inv own] by simp
  then have s': "nextSess s' = nextSess s" "handlers s' = handlers s" "nextProc s' = nextProc s"
    "sdb s' = snd (stmt (te_net env) (q_endStreamSession (dbRowID (sess s i)) (te_now env) r) (sdb s))"
    "sess s' = (sess s)(i := (sess s i)\<lparr>td := TdFiles r\<rparr>)"
    by (simp_all add: s'_def tearDown_phase_def TdRow Let_def)
  have "procs_inv s'" using inv reason_ok [OF inv, of i r] TdRow by (auto simp: stream_inv_def procs_inv_def s')
  moreover have "registry_inv s'" unfolding s'_def by (rule registry_inv_phase) (use inv i in \<open>simp_all add: stream_inv_def\<close>)
  moreover have "owns s z = Some u \<and> z \<noteq> Sess i" if "owns s' z = Some u" for z u
    using that by (cases z) (auto simp: s' split: if_splits)
  ultimately show ?thesis
    unfolding s'_def [symmetric] by (intro stream_inv_end [OF inv own]) (auto simp: s')
qed (use inv in \<open>auto simp: tearDown_phase_def Let_def split: if_splits intro!: stream_inv_sess [OF inv]\<close>)

lemma stream_inv_media [inv_intros]:
  assumes "stream_inv s"
  shows "stream_inv (snd (on_media k dec h t pl s))"
  by (auto simp: on_media_def split: option.split if_splits intro!: stream_inv_sess [OF assms] assms)

lemma stream_inv_other [inv_intros]:
  assumes "stream_inv s"
  shows "stream_inv (OnClose h s)" "stream_inv (watchdog i s)" "stream_inv (proc_exit p e s)" "stream_inv (proc_write i f s)"
  using assms stream_inv_tearDown [OF assms]
  by (auto simp: OnClose_def watchdog_def end_reasons_def split: option.split)
     (auto simp: proc_exit_def proc_write_def Let_def intro!: stream_inv_sess [OF assms])

lemma snapshot_ids: "i \<in> set (registry_snapshot iter r) \<Longrightarrow> \<exists>nm. fmlookup r nm = Some i"
  by (auto simp: registry_snapshot_def List.map_filter_def split: if_splits)

lemma stream_inv_shutdown [inv_intros]:
  assumes inv: "stream_inv s"
  shows "stream_inv (ShutdownLive iter s)" "stream_inv (shutdown_next s)"
proof -
  have "i < nextSess s" if "i \<in> set (registry_snapshot iter (registry s))" for i
    using snapshot_ids [OF that] inv by (auto simp: stream_inv_def registry_inv_def live_def)
  then have "registry_inv (ShutdownLive iter s)"
    using inv by (simp add: ShutdownLive_def stream_inv_def registry_inv_def live_def)
  moreover have "owns (ShutdownLive iter s) z = owns s z" for z by (cases z) (simp_all add: ShutdownLive_def)
  ultimately show "stream_inv (ShutdownLive iter s)"
    using inv by (simp add: stream_inv_def owners_inv_def procs_inv_def tables_inv_def) (simp add: ShutdownLive_def)
  show "stream_inv (shutdown_next s)"
  proof (cases "shutdownQueue s")
    case (Cons i q)
    have "stream_inv (s\<lparr>shutdownQueue := q\<rparr>)" by (rule stream_inv_sess [OF inv]) (auto simp: Cons)
    moreover have "stream_inv (tearDown i ''orphan_swept'' s)" using inv by (rule stream_inv_tearDown) (simp add: end_reasons_def)
    ultimately show ?thesis using inv by (simp add: shutdown_next_def Cons split: tdstate.split)
  qed (simp add: shutdown_next_def inv)
qed

lemma stream_inv_account [inv_intros]:
  assumes inv: "stream_inv s"
  shows "stream_inv (s\<lparr>sdb := auth_exec bc pa op (sdb s)\<rparr>)" (is "stream_inv ?s")
proof -
  have "registry_inv ?s" by (rule registry_inv_frame [of s]) (use inv in \<open>simp_all add: stream_inv_def\<close>)
  moreover have "owners_inv ?s"
  proof (rule owners_inv_frame)
    show "owners_inv s" using inv by (simp add: stream_inv_def)
    fix z t assume "owns ?s z = Some t"
    then show "\<exists>z0. owns s z0 = Some t \<and> z0 = z" by (cases z) (auto split: if_splits)
  next
    fix h ch assume "h_stage (handlers ?s h) = GotChannel ch"
    then show "chan_known (sdb ?s) (c_id ch) (c_name ch)"
      using inv by (simp add: stream_inv_def owners_inv_def auth_exec_known)
  qed (simp_all add: auth_exec_known)
  moreover have "tables_inv ?s" using inv auth_exec_seq [of "sdb s" bc pa op]
    by (simp add: stream_inv_def tables_inv_def account_inv_exec)
  ultimately show ?thesis using inv by (simp add: stream_inv_def procs_inv_def)
qed

lemma stream_inv_step: "stream_inv s \<Longrightarrow> stream_inv (stream_step deps e s)"
  by (cases e) (auto split: stage.split intro!: inv_intros)

interpretation streams: total_system stream_boot "stream_step deps" stream_inv for deps
  by unfold_locales (auto intro: stream_inv_boot stream_inv_step)

section \<open>\<open>tearDown\<close> runs to its end\<close>

text \<open>The phases a started \<open>tearDown\<close> has left once its process is reaped.\<close>

fun td_left :: "tdstate \<Rightarrow> nat" where
  "td_left TdIdle = 7"
| "td_left (TdPipe _) = 6"
| "td_left (TdWait _) = 5"
| "td_left (TdKill _) = 4"
| "td_left (TdRegistry _) = 3"
| "td_left (TdRow _) = 2"
| "td_left (TdFiles _) = 1"
| "td_left (TdDone _) = 0"

fun is_phase :: "sid \<Rightarrow> stream_event \<Rightarrow> bool" where
  "is_phase i (TearDown j env) = (j = i)"
| "is_phase i _ = False"

text \<open>Evaluation rules for one step, as seen from one session or process.\<close>

lemmas step_defs =
  pub_lookup_def pub_row_def pub_mkdir_def pub_start_def pub_encoder_def pub_add_def on_media_def OnClose_def
  watchdog_def proc_exit_def proc_write_def ShutdownLive_def shutdown_next_def registry_add_def Let_def

lemmas step_splits =
  stage.split sum.split prod.split option.split list.split tdstate.split

lemma tearDown_started: "td_reason (td (sess s i)) = Some r \<Longrightarrow> sess (tearDown j q s) i = sess s i"
  by (auto simp: tearDown_def split: tdstate.split)

lemma phase_other: "j \<noteq> i \<Longrightarrow> sess (tearDown_phase env j s) i = sess s i"
  by (auto simp: tearDown_phase_def Let_def split: tdstate.split)

lemma step_session:
  assumes "i < nextSess s"
  shows "i < nextSess (stream_step deps e s)" "ffmpeg (sess (stream_step deps e s) i) = ffmpeg (sess s i)"
    "dbRowID (sess (stream_step deps e s) i) = dbRowID (sess s i)"
    "channelName (sess (stream_step deps e s) i) = channelName (sess s i)"
    "channelID (sess (stream_step deps e s) i) = channelID (sess s i)"
  using assms
  by (cases e; auto simp: step_defs tearDown_frame split: step_splits;
      auto simp: tearDown_phase_def Let_def split: tdstate.split)+

lemma step_td_other:
  assumes "i < nextSess s" "td_reason (td (sess s i)) = Some r" "\<not> is_phase i e"
  shows "td (sess (stream_step deps e s) i) = td (sess s i)"
  using assms by (cases e) (auto simp: step_defs tearDown_started phase_other split: step_splits)

lemma phase_procs: "procs (tearDown_phase env i s) = procs s" "nextProc (tearDown_phase env i s) = nextProc s"
  by (auto simp: tearDown_phase_def Let_def split: tdstate.split)

lemma step_procs:
  assumes "p < nextProc s"
  shows "proc_done (procs s p) \<Longrightarrow> proc_done (procs (stream_step deps e s) p)" "p < nextProc (stream_step deps e s)"
  using assms by (cases e; auto simp: step_defs tearDown_frame tearDown_td phase_procs split: step_splits)+

lemma phase_left:
  assumes "td_reason (td (sess s i)) = Some r" "proc_done (procs s (ffmpeg (sess s i)))"
  shows "td_left (td (sess (tearDown_phase env i s) i)) \<le> td_left (td (sess s i)) - 1"
    "td_reason (td (sess (tearDown_phase env i s) i)) = Some r"
  using assms by (auto simp: tearDown_phase_def Let_def split: tdstate.split)

lemma tearDown_countdown:
  assumes "stream_inv s" "i < nextSess s" "td_reason (td (sess s i)) = Some r"
    and "proc_done (procs s (ffmpeg (sess s i)))" "td_left (td (sess s i)) \<le> length (filter (is_phase i) es)"
  shows "td (sess (fold (stream_step deps) es s) i) = TdDone r"
  using assms
proof (induction es arbitrary: s)
  case Nil
  then show ?case by (cases "td (sess s i)") auto
next
  case (Cons e es)
  let ?s = "stream_step deps e s"
  have p: "ffmpeg (sess s i) < nextProc s" using Cons.prems(1,2) by (simp add: stream_inv_def procs_inv_def)
  have go: "stream_inv ?s" "i < nextSess ?s" "proc_done (procs ?s (ffmpeg (sess ?s i)))"
    using Cons.prems stream_inv_step step_session(1,2) step_procs(1) [OF p] by auto
  have "td_reason (td (sess ?s i)) = Some r \<and> td_left (td (sess ?s i)) \<le> length (filter (is_phase i) es)"
  proof (cases "is_phase i e")
    case True
    then obtain env where "e = TearDown i env" by (cases e) auto
    then show ?thesis using Cons.prems phase_left [OF Cons.prems(3,4), of env] by simp
  next
    case False
    then show ?thesis using step_td_other [OF Cons.prems(2,3) False] Cons.prems by simp
  qed
  then show ?case using Cons.IH [OF go(1,2) _ go(3)] by simp
qed

end
