(* ===== verification/Stream_Life.thy ===== *)
theory Stream_Life
  imports Stream_Props
begin

text \<open>
  The life of a stream: what the registry, the table of stream sessions and the files hold
  along every interleaving, how a stream ends, who may publish, what recovery at boot restores,
  and the orders of events in which rows or files are lost.
\<close>

section \<open>Rows are closed once\<close>

definition row_closed_as :: "db \<Rightarrow> int \<Rightarrow> string \<Rightarrow> bool" where
  "row_closed_as d i r \<longleftrightarrow> (\<exists>x\<in>set (stream_sessions d). ss_id x = i \<and> ss_ended x \<noteq> None \<and> ss_reason x = Some r)"

lemma row_closed_map:
  assumes "row_closed_as d i r" "\<And>x. ss_ended x \<noteq> None \<Longrightarrow> g x = x"
  shows "row_closed_as (d\<lparr>stream_sessions := map g (stream_sessions d)\<rparr>) i r"
proof -
  obtain x where x: "x \<in> set (stream_sessions d)" "ss_id x = i" "ss_ended x \<noteq> None" "ss_reason x = Some r"
    using assms(1) unfolding row_closed_as_def by blast
  then have "g x = x" using assms(2) by simp
  with x show ?thesis by (auto simp: row_closed_as_def intro!: bexI [of _ x] image_eqI [of _ g x])
qed

lemma row_closed_queries:
  assumes "row_closed_as d i r"
  shows "row_closed_as (snd (stmt n (q_endStreamSession j t q) d)) i r"
    "row_closed_as (snd (stmt n (q_createStreamSession c t) d)) i r"
proof -
  have "row_closed_as (snd (q_endStreamSession j t q d)) i r"
    using assms by (auto simp: q_endStreamSession_def Let_def intro!: row_closed_map)
  then show "row_closed_as (snd (stmt n (q_endStreamSession j t q) d)) i r"
    using stmt_db [of n "q_endStreamSession j t q" d] assms by auto
  have "row_closed_as (snd (q_createStreamSession c t d)) i r"
    using assms by (auto simp: q_createStreamSession_def row_closed_as_def Let_def)
  then show "row_closed_as (snd (stmt n (q_createStreamSession c t) d)) i r"
    using stmt_db [of n "q_createStreamSession c t" d] assms by auto
qed

lemma pub_add_db:
  "sdb (pub_add h ch now row p n t s) =
     (if fmlookup (registry s) (c_name ch) = None then sdb s
      else snd (stmt n (q_endStreamSession row t ''orphan_swept'') (sdb s)))"
  by (simp add: pub_add_def registry_add_def Let_def split: option.split)

text \<open>The statements a step sends to the database.\<close>

lemma step_db:
  obtains "sdb (stream_step deps e s) = sdb s"
  | n c t where "sdb (stream_step deps e s) = snd (stmt n (q_createStreamSession c t) (sdb s))"
      "\<exists>h ch. e = PubRow h n t \<and> h_stage (handlers s h) = GotChannel ch \<and> c = c_id ch"
  | n r t q where "sdb (stream_step deps e s) = snd (stmt n (q_endStreamSession r t q) (sdb s))"
      "\<exists>h ch now p. e = PubAdd h n t \<and> h_stage (handlers s h) = GotEnc ch now r p"
  | i env q where "sdb (stream_step deps e s) = snd (stmt (te_net env) (q_endStreamSession (dbRowID (sess s i)) (te_now env) q) (sdb s))"
      "e = TearDown i env" "i < nextSess s" "td (sess s i) = TdRow q" "dbRowID (sess s i) \<noteq> 0"
  | op where "sdb (stream_step deps e s) = auth_exec (sd_bcrypt deps) (sd_parse deps) op (sdb s)" "e = Account op"
proof (cases e)
  case (PubRow h n t)
  then show ?thesis using that(1,2) by (cases "h_stage (handlers s h)") (auto simp: pub_row_def split: prod.splits sum.splits)
next
  case (PubAdd h n t)
  show ?thesis
  proof (cases "\<exists>ch now r p. h_stage (handlers s h) = GotEnc ch now r p")
    case True
    then obtain ch now r p where g: "h_stage (handlers s h) = GotEnc ch now r p" by blast
    then have step: "sdb (stream_step deps e s) = sdb (pub_add h ch now r p n t s)" by (simp add: PubAdd)
    show ?thesis
      by (cases "fmlookup (registry s) (c_name ch) = None")
         (use that(1) that(3) [of n r t] step g PubAdd in \<open>auto simp: pub_add_db\<close>)
  next
    case False
    then show ?thesis using that(1) by (cases "h_stage (handlers s h)") (simp_all add: PubAdd)
  qed
next
  case (TearDown i env)
  show ?thesis
  proof (cases "i < nextSess s \<and> (\<exists>q. td (sess s i) = TdRow q) \<and> dbRowID (sess s i) \<noteq> 0")
    case True
    then obtain q where q: "td (sess s i) = TdRow q" by blast
    then show ?thesis using that(4) [of env i q] True by (simp add: TearDown tearDown_phase_def Let_def)
  next
    case False
    then have "sdb (stream_step deps e s) = sdb s"
      by (auto simp: TearDown tearDown_phase_def Let_def split: tdstate.split)
    then show ?thesis by (rule that(1))
  qed
next
  case (Account op)
  then show ?thesis using that(5) by simp
qed (auto simp: step_defs tearDown_frame intro!: that(1) split: step_splits)

lemma row_closed_step: "row_closed_as (sdb s) i r \<Longrightarrow> row_closed_as (sdb (stream_step deps e s)) i r"
  by (rule step_db [of deps e s]) (simp_all add: row_closed_queries, simp add: row_closed_as_def)

section \<open>The end of a stream\<close>

lemma reason_text: "r \<in> set end_reasons \<Longrightarrow> text_ok r"
  by (rule text_ok_ascii) (auto simp: end_reasons_def)

lemma end_closes: "row_open d i c \<Longrightarrow> r \<in> set end_reasons \<Longrightarrow> row_closed_as (snd (q_endStreamSession i t r d)) i r"
proof -
  assume "row_open d i c" and r: "r \<in> set end_reasons"
  then obtain x where x: "x \<in> set (stream_sessions d)" "ss_id x = i" "ss_ended x = None" unfolding row_open_def by blast
  have "x\<lparr>ss_ended := Some (to_ts t), ss_reason := Some r\<rparr> \<in> set (stream_sessions (snd (q_endStreamSession i t r d)))"
    using x r reason_text [OF r] by (auto simp: q_endStreamSession_def Let_def image_iff)
  then show ?thesis unfolding row_closed_as_def by (rule bexI [rotated]) (simp add: x(2))
qed

lemma stmt_sent: "n \<noteq> LostBefore \<Longrightarrow> snd (stmt n f d) = snd (f d)"
  by (cases n) (simp_all add: stmt_def)

text \<open>The row of session \<open>i\<close>, from its start to the end of its \<open>tearDown\<close>.\<close>

definition row_kept :: "sid \<Rightarrow> int \<Rightarrow> streamsvc \<Rightarrow> bool" where
  "row_kept i row s \<longleftrightarrow> i < nextSess s \<and> dbRowID (sess s i) = row \<and>
     (td (sess s i) = TdIdle \<or>
      (\<exists>r. td_reason (td (sess s i)) = Some r \<and> (holds_row (td (sess s i)) \<or> row_closed_as (sdb s) row r)))"

lemma phase_reason:
  "td_reason (td (sess s i)) = Some r \<Longrightarrow> td_reason (td (sess (tearDown_phase env i s) i)) = Some r"
  by (auto simp: tearDown_phase_def Let_def split: tdstate.split)

lemma phase_idle: "td (sess s i) = TdIdle \<Longrightarrow> tearDown_phase env i s = s"
  by (simp add: tearDown_phase_def Let_def)

lemma phase_row_closed:
  assumes inv: "stream_inv s" "i < nextSess s" and td: "td_reason (td (sess s i)) = Some r"
    and h: "holds_row (td (sess s i))" and net: "te_net env \<noteq> LostBefore"
  shows "holds_row (td (sess (tearDown_phase env i s) i)) \<or> row_closed_as (sdb (tearDown_phase env i s)) (dbRowID (sess s i)) r"
proof (cases "\<exists>q. td (sess s i) = TdRow q")
  case True
  then have q: "td (sess s i) = TdRow r" using td by auto
  have own: "owns s (Sess i) = Some (dbRowID (sess s i), channelID (sess s i), channelName (sess s i))"
    using q inv(2) by simp
  have "row_open (sdb s) (dbRowID (sess s i)) (channelID (sess s i))" "dbRowID (sess s i) \<noteq> 0"
    using owned_row [OF inv(1) own] by simp_all
  then show ?thesis
    using end_closes [of "sdb s" "dbRowID (sess s i)" _ r "te_now env"] reason_ok [OF inv(1) td] q net
    by (simp add: tearDown_phase_def stmt_sent Let_def)
next
  case False
  then show ?thesis using h by (auto simp: tearDown_phase_def Let_def split: tdstate.split)
qed

lemma step_idle:
  assumes "i < nextSess s" "td (sess s i) = TdIdle"
  shows "td (sess (stream_step deps e s) i) = TdIdle \<or> (\<exists>r. td (sess (stream_step deps e s) i) = TdPipe r)"
  using assms
  by (cases e; auto simp: step_defs tearDown_def phase_idle split: step_splits;
      auto simp: tearDown_phase_def Let_def split: tdstate.split)

lemma row_kept_step:
  assumes inv: "stream_inv s" and k: "row_kept i row s" and net: "\<And>env. e = TearDown i env \<Longrightarrow> te_net env \<noteq> LostBefore"
  shows "row_kept i row (stream_step deps e s)"
proof -
  let ?s = "stream_step deps e s"
  have i: "i < nextSess s" "dbRowID (sess s i) = row" using k by (simp_all add: row_kept_def)
  have new: "i < nextSess ?s" "dbRowID (sess ?s i) = row" using step_session(1,3) [OF i(1)] i(2) by simp_all
  show ?thesis
  proof (cases "td (sess s i) = TdIdle")
    case True
    then show ?thesis using step_idle [OF i(1) True, of deps e] new by (auto simp: row_kept_def)
  next
    case False
    then obtain r where r: "td_reason (td (sess s i)) = Some r" "holds_row (td (sess s i)) \<or> row_closed_as (sdb s) row r"
      using k by (auto simp: row_kept_def)
    have "td_reason (td (sess ?s i)) = Some r \<and> (holds_row (td (sess ?s i)) \<or> row_closed_as (sdb ?s) row r)"
    proof (cases "is_phase i e")
      case True
      then obtain env where e: "e = TearDown i env" by (cases e) auto
      then show ?thesis
        using i r phase_reason [OF r(1)] phase_row_closed [OF inv i(1) r(1) _ net] row_closed_step [of s row r deps e] by auto
    next
      case False
      then show ?thesis using step_td_other [OF i(1) r(1) False] r row_closed_step [of s row r deps e] by auto
    qed
    then show ?thesis using new by (auto simp: row_kept_def)
  qed
qed

lemma live_kept: "live s i \<Longrightarrow> row_kept i (dbRowID (sess s i)) s"
  by (cases "td (sess s i)") (simp_all add: live_def row_kept_def)

section \<open>Owners of rows\<close>

lemma phase_handlers: "handlers (tearDown_phase env i s) = handlers s" "nextSess (tearDown_phase env i s) = nextSess s"
  by (auto simp: tearDown_phase_def Let_def split: tdstate.split)

lemma phase_holds: "holds_row (td (sess (tearDown_phase env i s) j)) \<Longrightarrow> holds_row (td (sess s j))"
  by (auto simp: tearDown_phase_def Let_def split: tdstate.splits if_splits)

lemma step_holds:
  assumes "i < nextSess s"
  shows "holds_row (td (sess (stream_step deps e s) i)) \<longrightarrow> holds_row (td (sess s i))"
  using assms by (cases e) (auto simp: step_defs tearDown_td dest: phase_holds split: step_splits)

lemma step_new_session:
  assumes "i < nextSess (stream_step deps e s)" "\<not> i < nextSess s"
  obtains h n t ch now row p where "e = PubAdd h n t" "h_stage (handlers s h) = GotEnc ch now row p"
    "sess (stream_step deps e s) i = newSession ch now row p (stateDir s)"
  using assms
  by (cases e) (auto simp: step_defs tearDown_frame phase_handlers split: stage.splits sum.splits prod.splits option.splits
      list.splits tdstate.splits if_splits)

lemma step_owns:
  assumes "owns (stream_step deps e s) z = Some (r, u)"
  shows "(\<exists>z0. owns s z0 = Some (r, u)) \<or> r = seq_stream (sdb s)"
proof (cases z)
  case (Pub h)
  have "stage_owns (h_stage (handlers (stream_step deps e s) h)) = Some (r, u) \<Longrightarrow>
      stage_owns (h_stage (handlers s h)) = Some (r, u) \<or> r = seq_stream (sdb s)"
    by (cases e) (auto simp: step_defs tearDown_frame phase_handlers stmt_def q_createStreamSession_def
        split: stage.splits sum.splits prod.splits option.splits list.splits tdstate.splits if_splits net.splits)
  then show ?thesis using assms Pub by (metis owns.simps(1))
next
  case (Sess i)
  show ?thesis
  proof (cases "i < nextSess s")
    case True
    then have "owns s (Sess i) = Some (r, u)"
      using assms step_session [OF True, of deps e] step_holds [OF True, of deps e] by (auto simp: Sess split: if_splits)
    then show ?thesis by blast
  next
    case False
    have "i < nextSess (stream_step deps e s)" using assms by (auto simp: Sess split: if_splits)
    then obtain h n t ch now row p where "h_stage (handlers s h) = GotEnc ch now row p"
      "sess (stream_step deps e s) i = newSession ch now row p (stateDir s)"
      using step_new_session [OF _ False] by metis
    then have "owns s (Pub h) = Some (r, u)" using assms by (auto simp: Sess newSession_def split: if_splits)
    then show ?thesis by blast
  qed
qed

text \<open>A row that nobody owns stays as it is.\<close>

definition abandoned :: "int \<Rightarrow> int \<Rightarrow> streamsvc \<Rightarrow> bool" where
  "abandoned row c s \<longleftrightarrow> row_open (sdb s) row c \<and> (\<forall>z t. owns s z \<noteq> Some (row, t))"

lemma abandoned_step:
  assumes inv: "stream_inv s" and a: "abandoned row c s"
  shows "abandoned row c (stream_step deps e s)"
proof -
  have "row < seq_stream (sdb s)" using inv a row_open_fresh
    by (auto simp: stream_inv_def tables_inv_def account_inv_def abandoned_def)
  then have "owns (stream_step deps e s) z \<noteq> Some (row, t)" for z t
    using step_owns [of deps e s z row t] a unfolding abandoned_def by blast
  moreover have "row_open (sdb (stream_step deps e s)) row c"
  proof (rule step_db [of deps e s])
    fix n r t q
    assume e: "sdb (stream_step deps e s) = snd (stmt n (q_endStreamSession r t q) (sdb s))"
      "\<exists>h ch now p. e = PubAdd h n t \<and> h_stage (handlers s h) = GotEnc ch now r p"
    then obtain h ch now p where "h_stage (handlers s h) = GotEnc ch now r p" by blast
    then have "owns s (Pub h) = Some (r, c_id ch, c_name ch)" by simp
    then have "row \<noteq> r" using a unfolding abandoned_def by metis
    then show ?thesis using a e by (simp add: abandoned_def row_open_end)
  next
    fix i env q
    assume e: "sdb (stream_step deps e s) = snd (stmt (te_net env) (q_endStreamSession (dbRowID (sess s i)) (te_now env) q) (sdb s))"
      "i < nextSess s" "td (sess s i) = TdRow q"
    then have "owns s (Sess i) = Some (dbRowID (sess s i), channelID (sess s i), channelName (sess s i))" by simp
    then have "row \<noteq> dbRowID (sess s i)" using a unfolding abandoned_def by metis
    then show ?thesis using a e by (simp add: abandoned_def row_open_end)
  next
    fix n c' t
    assume "sdb (stream_step deps e s) = snd (stmt n (q_createStreamSession c' t) (sdb s))"
    then show ?thesis using a stmt_db [of n "q_createStreamSession c' t" "sdb s"]
      by (auto simp: abandoned_def row_open_create)
  qed (use a in \<open>auto simp: abandoned_def\<close>)
  ultimately show ?thesis by (simp add: abandoned_def)
qed

text \<open>The row of session \<open>i\<close> when the database never gets its \<open>EndStreamSession\<close>.\<close>

definition row_unsent :: "sid \<Rightarrow> int \<Rightarrow> int \<Rightarrow> streamsvc \<Rightarrow> bool" where
  "row_unsent i row c s \<longleftrightarrow> i < nextSess s \<and> dbRowID (sess s i) = row \<and> channelID (sess s i) = c \<and>
     td_reason (td (sess s i)) \<noteq> None \<and> (holds_row (td (sess s i)) \<or> abandoned row c s)"

lemma row_unsent_open: "stream_inv s \<Longrightarrow> row_unsent i row c s \<Longrightarrow> row_open (sdb s) row c"
  using owned_row [of s "Sess i"] by (auto simp: row_unsent_def abandoned_def)

lemma unsent_abandons:
  assumes inv: "stream_inv s" and i: "i < nextSess s" "td (sess s i) = TdRow r" and net: "te_net env = LostBefore"
  shows "abandoned (dbRowID (sess s i)) (channelID (sess s i)) (tearDown_phase env i s)"
proof -
  let ?s = "tearDown_phase env i s"
  have own: "owns s (Sess i) = Some (dbRowID (sess s i), channelID (sess s i), channelName (sess s i))" using i by simp
  have db: "sdb ?s = sdb s" using i(2) net by (simp add: tearDown_phase_def stmt_def Let_def)
  have "owns ?s z = Some t \<Longrightarrow> owns s z = Some t \<and> z \<noteq> Sess i" for z t
    using i(2) by (cases z) (auto simp: phase_handlers phase_other, auto simp: tearDown_phase_def Let_def split: if_splits)
  then have "owns ?s z \<noteq> Some (dbRowID (sess s i), t)" for z t
    using own inv unfolding stream_inv_def owners_inv_def by metis
  then show ?thesis using owned_row [OF inv own] by (simp add: abandoned_def db)
qed

lemma row_unsent_step:
  assumes inv: "stream_inv s" and u: "row_unsent i row c s" and net: "\<And>env. e = TearDown i env \<Longrightarrow> te_net env = LostBefore"
  shows "row_unsent i row c (stream_step deps e s)"
proof -
  let ?s = "stream_step deps e s"
  have i: "i < nextSess s" "dbRowID (sess s i) = row" "channelID (sess s i) = c" using u by (simp_all add: row_unsent_def)
  obtain r where r: "td_reason (td (sess s i)) = Some r" using u by (auto simp: row_unsent_def)
  have "td_reason (td (sess ?s i)) = Some r \<and> (holds_row (td (sess ?s i)) \<or> abandoned row c ?s)"
  proof (cases "is_phase i e")
    case True
    then obtain env where e: "e = TearDown i env" by (cases e) auto
    show ?thesis
    proof (cases "\<exists>q. td (sess s i) = TdRow q")
      case True
      then show ?thesis using unsent_abandons [OF inv i(1) _ net [OF e]] phase_reason [OF r] i by (auto simp: e)
    next
      case False
      then have "holds_row (td (sess s i)) \<Longrightarrow> holds_row (td (sess ?s i))"
        using i(1) by (auto simp: e tearDown_phase_def Let_def split: tdstate.split)
      moreover have "abandoned row c s \<Longrightarrow> abandoned row c ?s" by (rule abandoned_step [OF inv])
      moreover have "td_reason (td (sess ?s i)) = Some r" using phase_reason [OF r] i(1) by (simp add: e)
      ultimately show ?thesis using u unfolding row_unsent_def by blast
    qed
  next
    case False
    then show ?thesis using step_td_other [OF i(1) r False] u r abandoned_step [OF inv] by (auto simp: row_unsent_def)
  qed
  then show ?thesis using step_session(1,3,5) [OF i(1)] i by (auto simp: row_unsent_def)
qed

section \<open>Streams end\<close>

text \<open>
  C9: a stream that starts to end does end, once and for the first reason given.  From any
  reachable state in which \<open>tearDown\<close> of a live session has started and its ffmpeg process has
  exited, every interleaving with at least six more moves of that \<open>tearDown\<close> finishes it and
  takes the session out of the registry, whatever faults occur and whatever \<open>OnClose\<close>, watchdog
  or shutdown add meanwhile.  If \<open>EndStreamSession\<close> reaches the database, the row is closed with
  the reason of the first caller; if it does not, the failure is only logged and the row stays
  open.
\<close>

theorem tearDown_completes:
  assumes "account_inv d" "1 \<le> seq_stream d"
    and s: "s = fold (stream_step deps) es (stream_NewService d dir bin)"
    and i: "live s i" "td_reason (td (sess s i)) = Some r" "proc_done (procs s (ffmpeg (sess s i)))"
    and fair: "6 \<le> length (filter (is_phase i) es')"
    and s': "s' = fold (stream_step deps) es' s"
  shows "td (sess s' i) = TdDone r \<and> i \<notin> fmran' (registry s') \<and>
    ((\<forall>env. TearDown i env \<in> set es' \<longrightarrow> te_net env \<noteq> LostBefore) \<longrightarrow> row_closed_as (sdb s') (dbRowID (sess s i)) r) \<and>
    ((\<forall>env. TearDown i env \<in> set es' \<longrightarrow> te_net env = LostBefore) \<longrightarrow>
       row_open (sdb s') (dbRowID (sess s i)) (channelID (sess s i)))"
proof -
  have inv: "stream_inv s" unfolding s by (rule streams.inv_run) (use assms(1,2) in \<open>auto simp: stream_boot_def\<close>)
  have inv': "stream_inv s'" using streams.inv_fold [OF inv] by (simp add: s')
  have less: "i < nextSess s" and h: "holds_row (td (sess s i))" and left: "td_left (td (sess s i)) \<le> 6"
    using i by (cases "td (sess s i)"; simp add: live_def)+
  have fin: "td (sess s' i) = TdDone r"
    unfolding s' using inv less i(2,3) by (rule tearDown_countdown) (use left fair in simp)
  moreover have "i \<notin> fmran' (registry s')"
    using inv' fin by (auto simp: stream_inv_def registry_inv_def live_def elim!: fmran'E)
  moreover have "row_closed_as (sdb s') (dbRowID (sess s i)) r"
    if "\<forall>env. TearDown i env \<in> set es' \<longrightarrow> te_net env \<noteq> LostBefore"
  proof -
    have "row_kept i (dbRowID (sess s i)) s'" unfolding s'
    proof (rule streams.fold_related [where P = "row_kept i (dbRowID (sess s i))", OF inv live_kept [OF i(1)]])
      fix e sa
      assume "stream_inv sa" "row_kept i (dbRowID (sess s i)) sa" "e \<in> set es'"
      then show "row_kept i (dbRowID (sess s i)) (stream_step deps e sa)" using that by (intro row_kept_step) auto
    qed
    then show ?thesis using fin by (auto simp: row_kept_def)
  qed
  moreover have "row_open (sdb s') (dbRowID (sess s i)) (channelID (sess s i))"
    if "\<forall>env. TearDown i env \<in> set es' \<longrightarrow> te_net env = LostBefore"
  proof -
    have start: "row_unsent i (dbRowID (sess s i)) (channelID (sess s i)) s" using less h i(2) by (simp add: row_unsent_def)
    have "row_unsent i (dbRowID (sess s i)) (channelID (sess s i)) s'" unfolding s'
    proof (rule streams.fold_related [where P = "row_unsent i (dbRowID (sess s i)) (channelID (sess s i))", OF inv start])
      fix e sa
      assume "stream_inv sa" "row_unsent i (dbRowID (sess s i)) (channelID (sess s i)) sa" "e \<in> set es'"
      then show "row_unsent i (dbRowID (sess s i)) (channelID (sess s i)) (stream_step deps e sa)"
        using that by (intro row_unsent_step) auto
    qed
    then show ?thesis using row_unsent_open [OF inv'] by blast
  qed
  ultimately show ?thesis by blast
qed

section \<open>A stream on a small installation\<close>

text \<open>One account with a stream key, and a publisher that gets on air.\<close>

definition demo_db :: db where
  "demo_db = withAccount emptyDB ''alice'' ''a@b'' ''hash'' (HashKey ''live_k'') 5000"

definition demo_deps :: stream_deps where
  "demo_deps = \<lparr>sd_decode = (\<lambda>_ b. Some b), sd_bcrypt = demo_bcrypt, sd_parse = (\<lambda>_. True)\<rparr>"

definition demo_td :: td_env where
  "demo_td = \<lparr>te_grace = False, te_net = NetOk, te_now = 9000, te_rmOk = True\<rparr>"

definition goLive :: "hid \<Rightarrow> string \<Rightarrow> stream_event list" where
  "goLive h key = [Publish h key NetOk, PubRow h NetOk 6000, PubMkdir h True, PubStart h None None None,
     PubEncoder h True, PubAdd h NetOk 7000]"

lemma demo_db_inv: "account_inv demo_db" "1 \<le> seq_stream demo_db"
proof -
  have "account_inv emptyDB" by (simp add: account_inv_def) (simp add: emptyDB_def)
  then show "account_inv demo_db" unfolding demo_db_def
    by (rule account_inv_add)
       (simp_all add: emptyDB_def validateUsername_def usernameRE_def username_char_def reservedNames_def)
qed (simp add: demo_db_def withAccount_def emptyDB_def)

lemmas demo_eval =
  goLive_def stream_NewService_def newHandler_def demo_td_def noSession_def noProc_def
  lookupChannelByStreamKey_def q_getChannelByStreamKeyHash_def HashKey_text stmt_def demo_db_def withAccount_def
  newChannel_def emptyDB_def one_row_def setStage_def setHandler_def setSess_def cancelProc_def
  q_createStreamSession_def startFFmpeg_def step_defs newSession_def tearDown_def tearDown_phase_def
  registry_remove_def

theorem tearDown_completes_witness:
  "\<exists>es es'. let s = fold (stream_step demo_deps) es (stream_NewService demo_db ''/s'' ''ffmpeg'');
                s' = fold (stream_step demo_deps) es' s
            in live s 0 \<and> td (sess s' 0) = TdDone ''crashed'' \<and> row_closed_as (sdb s') 1 ''crashed''"
proof -
  define es where "es = goLive 0 ''live_k'' @ [ProcExit 0 (Some ''exit status 1''), Watchdog 0]"
  define es' where "es' = [TearDown 0 demo_td, Closed 0, TearDown 0 demo_td, TearDown 0 demo_td, TearDown 0 demo_td,
     TearDown 0 demo_td, TearDown 0 demo_td]"
  define s where "s = fold (stream_step demo_deps) es (stream_NewService demo_db ''/s'' ''ffmpeg'')"
  have i: "live s 0" "td_reason (td (sess s 0)) = Some ''crashed''" "proc_done (procs s (ffmpeg (sess s 0)))"
    "dbRowID (sess s 0) = 1"
    by (simp_all add: s_def es_def live_def demo_eval)
  have n: "6 \<le> length (filter (is_phase 0) es')" "\<forall>env. TearDown 0 env \<in> set es' \<longrightarrow> te_net env \<noteq> LostBefore"
    by (auto simp: es'_def demo_td_def)
  from tearDown_completes [OF demo_db_inv s_def i(1-3) n(1) refl] i n(2) show ?thesis
    unfolding s_def Let_def by (intro exI [of _ es] exI [of _ es']) simp
qed

section \<open>Registry, rows and accounts\<close>

text \<open>
  C4: what viewers are shown is what is on air.  In every interleaving of publishers, media,
  crashes, shutdown and account operations, with any database faults: the registry holds exactly
  the sessions that have not been removed by their \<open>tearDown\<close>, one per channel name; each has an
  open row of its own in \<open>stream_sessions\<close>, of the channel with that name; and the tables keep
  their constraints.
\<close>

theorem streams_consistent:
  assumes "account_inv d" "1 \<le> seq_stream d" "s = fold (stream_step deps) es (stream_NewService d dir bin)"
  shows "(\<forall>nm i. fmlookup (registry s) nm = Some i \<longleftrightarrow> live s i \<and> channelName (sess s i) = nm) \<and>
    (\<forall>i. live s i \<longrightarrow> (\<exists>row\<in>set (stream_sessions (sdb s)). ss_id row = dbRowID (sess s i) \<and> ss_ended row = None \<and>
       (\<exists>ch\<in>set (channels (sdb s)). c_id ch = ss_channel_id row \<and> c_name ch = channelName (sess s i)))) \<and>
    (\<forall>i j. live s i \<longrightarrow> live s j \<longrightarrow> dbRowID (sess s i) = dbRowID (sess s j) \<longrightarrow> i = j) \<and>
    account_inv (sdb s)"
proof -
  have inv: "stream_inv s" unfolding assms(3) by (rule streams.inv_run) (use assms(1,2) in \<open>auto simp: stream_boot_def\<close>)
  have own: "owns s (Sess i) = Some (dbRowID (sess s i), channelID (sess s i), channelName (sess s i))" if "live s i" for i
    using that by (cases "td (sess s i)") (simp_all add: live_def)
  have "\<exists>row\<in>set (stream_sessions (sdb s)). ss_id row = dbRowID (sess s i) \<and> ss_ended row = None \<and>
       (\<exists>ch\<in>set (channels (sdb s)). c_id ch = ss_channel_id row \<and> c_name ch = channelName (sess s i))" if "live s i" for i
    using owned_row [OF inv own [OF that]] by (fastforce simp: row_open_def chan_known_def)
  moreover have "i = j" if "live s i" "live s j" "dbRowID (sess s i) = dbRowID (sess s j)" for i j
    using own [OF that(1)] own [OF that(2)] that(3) inv unfolding stream_inv_def owners_inv_def by (metis owner.inject(2))
  ultimately show ?thesis using inv by (auto simp: stream_inv_def registry_inv_def tables_inv_def)
qed

theorem streams_consistent_witness:
  "let s = fold (stream_step demo_deps) (goLive 0 ''live_k'') (stream_NewService demo_db ''/s'' ''ffmpeg'')
   in live s 0 \<and> fmlookup (registry s) ''alice'' = Some 0 \<and> account_inv (sdb s)"
proof -
  define s where "s = fold (stream_step demo_deps) (goLive 0 ''live_k'') (stream_NewService demo_db ''/s'' ''ffmpeg'')"
  have "live s 0" "channelName (sess s 0) = ''alice''" by (simp_all add: s_def live_def demo_eval)
  then show ?thesis using streams_consistent [OF demo_db_inv s_def] by (simp flip: s_def)
qed

section \<open>Rows and files that are lost\<close>

lemma settled_owns: "stage_owns st = Some t \<Longrightarrow> \<not> settled st"
  by (cases st) simp_all

lemma refusal_abandons:
  assumes inv: "stream_inv s" and own: "stage_owns (h_stage (handlers s h)) = Some (row, c, nm)"
    and ref: "h_stage (handlers (stream_step deps e s) h) = Refused err"
    and lost: "err \<noteq> ErrAlreadyLive \<or> (\<exists>t. e = PubAdd h LostBefore t)"
  shows "abandoned row c (stream_step deps e s)"
proof -
  have z: "owns s (Pub h) = Some (row, c, nm)" using own by simp
  have e: "(\<exists>ok. e = PubMkdir h ok) \<or> (\<exists>e1 e2 e3. e = PubStart h e1 e2 e3) \<or> (\<exists>ok. e = PubEncoder h ok) \<or>
      (\<exists>t. e = PubAdd h LostBefore t)"
    using lost settled_owns [OF own] own ref by (cases e) (auto simp: step_defs tearDown_frame phase_handlers
        split: stage.splits sum.splits prod.splits option.splits list.splits tdstate.splits if_splits)
  then have db: "sdb (stream_step deps e s) = sdb s"
    by (auto simp: step_defs stmt_def split: stage.split sum.split prod.split option.split)
  have sub: "owns (stream_step deps e s) z' = Some t \<Longrightarrow> owns s z' = Some t \<and> z' \<noteq> Pub h" for z' t
    using e ref by (cases z') (auto simp: step_defs split: stage.splits sum.splits option.splits prod.splits if_splits)
  have "owns (stream_step deps e s) z' \<noteq> Some (row, t)" for z' t
  proof
    assume "owns (stream_step deps e s) z' = Some (row, t)"
    from sub [OF this] z inv show False unfolding stream_inv_def owners_inv_def by metis
  qed
  then show ?thesis using owned_row [OF inv z] by (simp add: abandoned_def db)
qed

lemma lost_race_closes:
  assumes inv: "stream_inv s" and own: "stage_owns (h_stage (handlers s h)) = Some (row, c, nm)"
    and ref: "h_stage (handlers (stream_step deps e s) h) = Refused ErrAlreadyLive"
  obtains n t where "e = PubAdd h n t"
    "n \<noteq> LostBefore \<Longrightarrow> row_closed_as (sdb (stream_step deps e s)) row ''orphan_swept''"
proof -
  obtain n t where e: "e = PubAdd h n t"
    using settled_owns [OF own] own ref by (cases e) (auto simp: step_defs tearDown_frame phase_handlers
        split: stage.splits sum.splits prod.splits option.splits list.splits tdstate.splits if_splits)
  obtain ch now p where st: "h_stage (handlers s h) = GotEnc ch now row p"
    using own ref by (auto simp: e split: stage.splits)
  have "fmlookup (registry s) (c_name ch) \<noteq> None"
    using ref by (cases "fmlookup (registry s) (c_name ch)") (simp_all add: e st step_defs)
  then have "sdb (stream_step deps e s) = snd (stmt n (q_endStreamSession row t ''orphan_swept'') (sdb s))"
    by (auto simp: e st pub_add_db)
  moreover have "row_open (sdb s) row c" using owned_row [of s "Pub h"] inv own by simp
  ultimately have "n \<noteq> LostBefore \<Longrightarrow> row_closed_as (sdb (stream_step deps e s)) row ''orphan_swept''"
    by (simp add: stmt_sent end_closes end_reasons_def)
  with e that show thesis by blast
qed

lemma row_closed_run: "row_closed_as (sdb s) i r \<Longrightarrow> row_closed_as (sdb (fold (stream_step deps) es s)) i r"
  by (induction es arbitrary: s) (simp_all add: row_closed_step)

text \<open>
  C35: what becomes of the row of a publish command that fails after it was created.  When the
  output directory, the ffmpeg process or the FLV encoder cannot be set up, \<open>OnPublish\<close> returns
  without closing the row: whatever happens afterwards in this process, it stays open.  Only the
  publisher that loses the race for the channel name (\<open>ErrAlreadyLive\<close>) closes its row, as
  \<open>orphan_swept\<close>, and that row too stays open for good when the statement does not reach the
  database, since its error is dropped.
\<close>

theorem failed_publish_leaks_row:
  assumes "account_inv d" "1 \<le> seq_stream d" "s = fold (stream_step deps) es (stream_NewService d dir bin)"
    and own: "stage_owns (h_stage (handlers s h)) = Some (row, c, nm)"
    and ref: "h_stage (handlers (stream_step deps e s) h) = Refused err"
    and s': "s' = fold (stream_step deps) es' (stream_step deps e s)"
  shows "if err = ErrAlreadyLive
    then \<exists>n t. e = PubAdd h n t \<and> (if n = LostBefore then row_open (sdb s') row c else row_closed_as (sdb s') row ''orphan_swept'')
    else row_open (sdb s') row c"
proof -
  have inv: "stream_inv s" unfolding assms(3) by (rule streams.inv_run) (use assms(1,2) in \<open>auto simp: stream_boot_def\<close>)
  have leak: "row_open (sdb s') row c" if "err \<noteq> ErrAlreadyLive \<or> (\<exists>t. e = PubAdd h LostBefore t)"
  proof -
    have "abandoned row c s'" unfolding s'
      by (rule streams.fold_related [where P = "abandoned row c"])
         (use stream_inv_step [OF inv] refusal_abandons [OF inv own ref that] abandoned_step in auto)
    then show ?thesis by (simp add: abandoned_def)
  qed
  show ?thesis
  proof (cases "err = ErrAlreadyLive")
    case True
    then obtain n t where e: "e = PubAdd h n t"
      "n \<noteq> LostBefore \<Longrightarrow> row_closed_as (sdb (stream_step deps e s)) row ''orphan_swept''"
      using lost_race_closes [OF inv own] ref by metis
    then show ?thesis using True leak row_closed_run [of "stream_step deps e s"] by (auto simp: s')
  qed (use leak in simp)
qed

theorem failed_publish_leaks_row_witness:
  "\<exists>s. s = fold (stream_step demo_deps) (take 3 (goLive 0 ''live_k'')) (stream_NewService demo_db ''/s'' ''nowhere'') \<and>
     (\<forall>es'. row_open (sdb (fold (stream_step demo_deps) es'
        (stream_step demo_deps (PubStart 0 None None (Some ''not found'')) s))) 1 1)"
proof -
  define s where "s = fold (stream_step demo_deps) (take 3 (goLive 0 ''live_k'')) (stream_NewService demo_db ''/s'' ''nowhere'')"
  have o: "stage_owns (h_stage (handlers s 0)) = Some (1, 1, ''alice'')" by (simp add: s_def demo_eval)
  have "\<exists>err. h_stage (handlers (stream_step demo_deps (PubStart 0 None None (Some ''not found'')) s) 0) = Refused err \<and> err \<noteq> ErrAlreadyLive"
    by (simp add: s_def demo_eval)
  then obtain err where err: "h_stage (handlers (stream_step demo_deps (PubStart 0 None None (Some ''not found'')) s) 0) = Refused err"
    "err \<noteq> ErrAlreadyLive" by blast
  from failed_publish_leaks_row [OF demo_db_inv s_def o err(1) refl] err(2) s_def show ?thesis by auto
qed

text \<open>
  C36: ending one stream can delete the files of the next one.  \<open>tearDown\<close> takes the session out
  of the registry before it removes the channel directory, so a publisher of the same channel
  may already be on air: the late \<open>RemoveAll\<close> deletes the new stream's directory while the new
  session stays live, and ffmpeg can write no file into it any more.
\<close>

theorem late_removal_wipes_new_stream:
  assumes "td (sess s i) = TdFiles r" "i < nextSess s" "live s j"
    and "channelName (sess s j) = channelName (sess s i)" "sess_stateDir (sess s j) = sess_stateDir (sess s i)"
    and "sess_stateDir (sess s i) \<noteq> []" "te_rmOk env"
    and s': "s' = stream_step deps (TearDown i env) s"
  shows "live s' j \<and> sess s' j = sess s j \<and>
    ffilter (prefix (channelDir (sess_stateDir (sess s j)) (channelName (sess s j)))) (files s') = {||} \<and>
    files (stream_step deps (ProcWrite j f) s') = files s'"
proof -
  have ne: "i \<noteq> j" using assms(1,3) by (auto simp: live_def)
  have j: "sess s' j = sess s j" "nextSess s' = nextSess s" using ne assms(2) by (simp_all add: s' phase_other phase_handlers)
  have fs: "files s' = RemoveAll (channelDir (sess_stateDir (sess s i)) (channelName (sess s i))) (files s)"
    using assms(1,2,6,7) by (simp add: s' tearDown_phase_def Let_def)
  then have none: "ffilter (prefix (channelDir (sess_stateDir (sess s j)) (channelName (sess s j)))) (files s') = {||}"
    by (auto simp: assms(4,5) RemoveAll_def)
  then have "channelDir (sess_stateDir (sess s j)) (channelName (sess s j)) |\<notin>| files s'" by auto
  then show ?thesis using none assms(3) j by (auto simp: live_def proc_write_def Let_def)
qed

text \<open>The run: the first stream of the channel crashes, the second one starts before its files are removed.\<close>

theorem late_removal_wipes_new_stream_witness:
  "\<exists>es. let s = fold (stream_step demo_deps) es (stream_NewService demo_db ''/s'' ''ffmpeg'');
            s' = stream_step demo_deps (TearDown 0 demo_td) s
         in live s' 1 \<and> \<not> proc_done (procs s' (ffmpeg (sess s' 1))) \<and>
            channelDir ''/s'' ''alice'' |\<in>| files s \<and> channelDir ''/s'' ''alice'' |\<notin>| files s'"
proof -
  define es where "es = goLive 0 ''live_k'' @ [ProcExit 0 (Some ''exit status 1''), Watchdog 0] @
     [TearDown 0 demo_td, TearDown 0 demo_td, TearDown 0 demo_td] @ goLive 1 ''live_k'' @ [TearDown 0 demo_td]"
  define s where "s = fold (stream_step demo_deps) es (stream_NewService demo_db ''/s'' ''ffmpeg'')"
  have s: "td (sess s 0) = TdFiles ''crashed''" "0 < nextSess s" "live s 1" "channelName (sess s 1) = channelName (sess s 0)"
    "sess_stateDir (sess s 1) = sess_stateDir (sess s 0)" "sess_stateDir (sess s 0) \<noteq> []" "te_rmOk demo_td"
    "channelName (sess s 1) = ''alice''" "sess_stateDir (sess s 1) = ''/s''"
    "\<not> proc_done (procs s (ffmpeg (sess s 1)))" "files s = MkdirAll (channelDir ''/s'' ''alice'') (MkdirAll (channelDir ''/s'' ''alice'') {||})"
    by (simp_all add: s_def es_def live_def demo_eval q_endStreamSession_def)
  define s' where "s' = stream_step demo_deps (TearDown 0 demo_td) s"
  from late_removal_wipes_new_stream [OF s(1-7) s'_def, of "''f''"] s(8,9)
  have "live s' 1" "sess s' 1 = sess s 1" "ffilter (prefix (channelDir ''/s'' ''alice'')) (files s') = {||}" by simp_all
  moreover from this(3) have "channelDir ''/s'' ''alice'' |\<notin>| files s'" by auto
  moreover have "procs s' = procs s" using s(2) by (simp add: s'_def phase_procs)
  moreover have "channelDir ''/s'' ''alice'' |\<in>| files s" by (simp add: s(11) MkdirAll_def fset_of_list_elem)
  ultimately show ?thesis using s(10) unfolding s'_def s_def Let_def by (intro exI [of _ es]) simp
qed

section \<open>Publishing needs the current key\<close>

lemma find_map: "find P (map f xs) = map_option f (find (P \<circ> f) xs)"
  by (induction xs) simp_all

lemma find_only:
  assumes "x \<in> set xs" "P x" "\<And>y. y \<in> set xs \<Longrightarrow> P y \<Longrightarrow> y = x"
  shows "find P xs = Some x"
proof (cases "find P xs")
  case None
  then show ?thesis using assms(1,2) unfolding find_None_iff by blast
next
  case (Some y)
  then have "y \<in> set xs" "P y" unfolding find_Some_iff using nth_mem by blast+
  then show ?thesis using Some assms(3) by blast
qed

lemma lookup_NetOk:
  "lookupChannelByStreamKey NetOk k d =
     (case find (\<lambda>c. c_key_hash c = HashKey k) (channels d) of None \<Rightarrow> Inl ErrUnknownStreamKey | Some c \<Rightarrow> Inr c)"
  by (simp add: lookupChannelByStreamKey_def stmt_def q_getChannelByStreamKeyHash_def HashKey_text one_row_def
      split: option.split)

text \<open>
  C13: replacing a stream key revokes the old one.  After \<open>RegenerateStreamKey\<close> of a channel the
  new key admits a publisher to exactly that channel, every key that admitted to it before is
  refused as unknown, and every other key is answered as before.  Assumed: the hash of the new
  key is not yet in use, and no other channel has the hash of the old one.
\<close>

theorem rotated_key_revoked:
  assumes inv: "account_inv d" and ch: "ch \<in> set (channels d)"
    and reg: "RegenerateStreamKey (Some rnd) NetOk (c_id ch) d = (Inr key, d')"
    and new: "HashKey key \<notin> c_key_hash ` set (channels d)"
    and own: "\<forall>c\<in>set (channels d). c_key_hash c = c_key_hash ch \<longrightarrow> c = ch"
  shows "lookupChannelByStreamKey NetOk key d' = Inr (ch\<lparr>c_key_hash := HashKey key\<rparr>) \<and>
    (\<forall>k. lookupChannelByStreamKey NetOk k d = Inr ch \<longrightarrow> lookupChannelByStreamKey NetOk k d' = Inl ErrUnknownStreamKey) \<and>
    (\<forall>k. HashKey k \<noteq> HashKey key \<longrightarrow> lookupChannelByStreamKey NetOk k d \<noteq> Inr ch \<longrightarrow>
       lookupChannelByStreamKey NetOk k d' = lookupChannelByStreamKey NetOk k d)"
proof -
  define g where "g = (\<lambda>c :: Channel. if c_id c = c_id ch then c\<lparr>c_key_hash := HashKey key\<rparr> else c)"
  have d': "channels d' = map g (channels d)"
    using reg by (auto simp: RegenerateStreamKey_def GenerateKey_def stmt_def q_updateChannelStreamKey_def HashKey_text g_def Let_def)
  have "distinct (map c_id (channels d))" using inv by (simp add: account_inv_def db_inv_def)
  then have same: "c = ch" if "c \<in> set (channels d)" "c_id c = c_id ch" for c
    using that ch by (auto simp: distinct_map inj_on_def)
  then have g: "g c = (if c = ch then ch\<lparr>c_key_hash := HashKey key\<rparr> else c)" if "c \<in> set (channels d)" for c
    using that by (auto simp: g_def)
  have look: "lookupChannelByStreamKey NetOk k d'
      = (case find (\<lambda>c. c_key_hash (g c) = HashKey k) (channels d) of None \<Rightarrow> Inl ErrUnknownStreamKey | Some c \<Rightarrow> Inr (g c))" for k
    by (simp add: lookup_NetOk d' find_map comp_def split: option.split)
  have "find (\<lambda>c. c_key_hash (g c) = HashKey key) (channels d) = Some ch"
    using ch g new by (intro find_only) (auto simp: image_iff split: if_splits)
  then have "lookupChannelByStreamKey NetOk key d' = Inr (ch\<lparr>c_key_hash := HashKey key\<rparr>)" using g [OF ch] by (simp add: look)
  moreover have "lookupChannelByStreamKey NetOk k d' = Inl ErrUnknownStreamKey" if "lookupChannelByStreamKey NetOk k d = Inr ch" for k
  proof -
    have k: "c_key_hash ch = HashKey k" using lookup_known [OF that] by simp
    then have "HashKey key \<noteq> HashKey k" using new ch by force
    then have "find (\<lambda>c. c_key_hash (g c) = HashKey k) (channels d) = None"
      using own g k unfolding find_None_iff by (metis Channel.select_convs(5) Channel.surjective Channel.update_convs(5))
    then show ?thesis by (simp add: look)
  qed
  moreover have "lookupChannelByStreamKey NetOk k d' = lookupChannelByStreamKey NetOk k d"
    if k: "HashKey k \<noteq> HashKey key" "lookupChannelByStreamKey NetOk k d \<noteq> Inr ch" for k
  proof -
    have "c_key_hash ch \<noteq> HashKey k"
    proof
      assume "c_key_hash ch = HashKey k"
      then have "find (\<lambda>c. c_key_hash c = HashKey k) (channels d) = Some ch" using own ch by (intro find_only) metis+
      then show False using k(2) by (simp add: lookup_NetOk)
    qed
    then have f: "find (\<lambda>c. c_key_hash (g c) = HashKey k) (channels d) = find (\<lambda>c. c_key_hash c = HashKey k) (channels d)"
      using k(1) g by (intro find_cong) auto
    moreover have "g c = c" if "find (\<lambda>c. c_key_hash c = HashKey k) (channels d) = Some c" for c
      using that g \<open>c_key_hash ch \<noteq> HashKey k\<close> by (auto simp: find_Some_iff)
    ultimately show ?thesis by (simp add: look) (simp add: lookup_NetOk split: option.split)
  qed
  ultimately show ?thesis by blast
qed

theorem rotated_key_revoked_witness:
  "\<exists>key d'. RegenerateStreamKey (Some (replicate 32 CHR ''r'')) NetOk 1 alice_db = (Inr key, d') \<and>
     isOk (lookupChannelByStreamKey NetOk key d')"
proof -
  define ch where "ch = newChannel emptyDB ''alice'' ''h'' 5000"
  have c: "channels alice_db = [ch]" "c_id ch = 1" by (simp_all add: alice_db_def withAccount_def emptyDB_def ch_def newChannel_def)
  obtain key d' where r: "RegenerateStreamKey (Some (replicate 32 CHR ''r'')) NetOk (c_id ch) alice_db = (Inr key, d')"
    by (simp add: RegenerateStreamKey_def GenerateKey_def stmt_def q_updateChannelStreamKey_def HashKey_text Let_def)
  have "length (HashKey key) \<noteq> length (c_key_hash ch)" by (simp add: HashKey_length ch_def newChannel_def)
  then have "HashKey key \<notin> c_key_hash ` set (channels alice_db)" by (auto simp: c)
  from rotated_key_revoked [OF alice_db_inv _ r this] r show ?thesis by (auto simp: c)
qed

section \<open>Recovery at boot\<close>

lemma channelDir_child: "dir \<noteq> [] \<Longrightarrow> plain_name nm \<Longrightarrow> channelDir dir nm = clean_parts dir @ [nm]"
  by (simp add: channelDir_def clean_parts_Join)

lemma recover_loop_all:
  "dir \<noteq> [] \<Longrightarrow> list_all plain_name es \<Longrightarrow>
   recover_loop rmOk dir es fs = ffilter (\<lambda>q. \<not> (\<exists>e\<in>set es. rmOk e \<and> prefix (clean_parts dir @ [e]) q)) fs"
  by (induction es arbitrary: fs) (auto simp: RemoveAll_def channelDir_child)

lemma prefix_child: "prefix (p @ [x]) q \<longleftrightarrow> strict_prefix p q \<and> q ! length p = x"
proof
  assume "prefix (p @ [x]) q"
  then obtain zs where "q = p @ x # zs" by (auto elim: prefixE)
  then show "strict_prefix p q \<and> q ! length p = x" by (simp add: strict_prefix_def)
qed (auto elim: strict_prefixE')

lemma MkdirAll_below: "strict_prefix p q \<Longrightarrow> q |\<in>| MkdirAll p fs \<longleftrightarrow> q |\<in>| fs"
  by (auto simp: MkdirAll_def fset_of_list_elem prefix_order.less_le_not_le)



end
