(* ===== verification/Web_Props.thy ===== *)
theory Web_Props
  imports Web Stream_Life "HOL-Library.List_Lexorder" "HOL-Library.Char_ord"
begin

text \<open>
  Properties of the web server as a whole: who can change a channel, that logging in leads to
  the dashboard, what the pages show of the live streams, which files are reachable, and under
  which identity a viewer enters the chat.
\<close>

section \<open>The session of a request\<close>

definition session_user :: "req_env \<Rightarrow> web_request \<Rightarrow> db \<Rightarrow> User option" where
  "session_user env r d =
     (case r_Cookie SessionCookieName r of
        None \<Rightarrow> None
      | Some tok \<Rightarrow>
          if tok = '''' then None
          else case SessionUser (e_netSession env) tok (e_now env) d of Inl _ \<Rightarrow> None | Inr u \<Rightarrow> Some u)"

definition stale_cookie :: "req_env \<Rightarrow> web_request \<Rightarrow> db \<Rightarrow> bool" where
  "stale_cookie env r d \<longleftrightarrow> session_user env r d = None \<and> r_Cookie SessionCookieName r \<notin> {None, Some ''''}"

definition start_writer :: "req_env \<Rightarrow> web_request \<Rightarrow> db \<Rightarrow> web_response" where
  "start_writer env r d = (if stale_cookie env r d then clearSessionCookie False newWriter else newWriter)"

lemma r_Cookie_user [simp]: "r_Cookie nm (r\<lparr>rq_user := u\<rparr>) = r_Cookie nm r"
  by (simp add: r_Cookie_def)

lemma Middleware_eq:
  "Middleware env nxt (r\<lparr>rq_user := None\<rparr>) newWriter d
   = nxt (r\<lparr>rq_user := session_user env r d\<rparr>) (start_writer env r d) d"
  by (auto simp: Middleware_def session_user_def stale_cookie_def start_writer_def split: option.split sum.split)

lemma start_writer_simps [simp]: "body (start_writer env r d) = []" "sent (start_writer env r d) = None"
  by (simp_all add: start_writer_def clearSessionCookie_def addHeader_def newWriter_def)

lemma web_serve_mux:
  assumes "web_serve c env r a = Inr (w, a')"
  shows "mux_serve c env a (r\<lparr>rq_user := session_user (ae_req env) r (sdb (a_streams a))\<rparr>)
           (start_writer (ae_req env) r (sdb (a_streams a))) (sdb (a_streams a)) = (w, sdb (a_streams a'))"
  using assms unfolding web_serve_def Middleware_eq by (auto simp: Let_def split: prod.splits option.splits)

lemma mux_dispatch_handler:
  assumes "mux_dispatch routes r = Handler rt vs"
  shows "\<exists>p. (p, rt) \<in> set routes \<and> pat_match (rq_method r) (rq_segs r) p \<and> vs = wild_values (pt_segs p) (rq_segs r)"
  using assms mux_match_sound [of routes "rq_method r" "rq_segs r"]
  by (fastforce simp: mux_dispatch_def Let_def split: if_splits option.splits prod.splits list.splits)

lemma mux_dispatch_user [simp]: "mux_dispatch rs (r\<lparr>rq_user := u\<rparr>) = mux_dispatch rs r"
  by (simp add: mux_dispatch_def)

section \<open>Responses\<close>

lemma writer_simps [simp]:
  "body (addHeader h w) = body w" "sent (addHeader h w) = sent w" "hdr (addHeader h w) = hdr w @ [h]"
  "body (setHeader h w) = body w" "sent (setHeader h w) = sent w"
  "body (WriteHeader code w) = body w" "hdr (WriteHeader code w) = hdr w"
  "body (w_Write b w) = body w @ [b]"
  by (simp_all add: addHeader_def setHeader_def WriteHeader_def w_Write_def Let_def split: option.split)

lemma sent_WriteHeader: "sent (WriteHeader code w) = (case sent w of None \<Rightarrow> Some (code, hdr w) | Some x \<Rightarrow> Some x)"
  by (simp add: WriteHeader_def split: option.split)

lemma body_Error [simp]: "body (http_Error txt msg code w) = body w @ [txt msg]"
  "body (http_NotFound txt w) = body w @ [txt ''404 page not found'']"
  by (simp_all add: http_Error_def http_NotFound_def)

lemma body_Redirect: "body (http_Redirect txt r url code w) = body w \<or> body (http_Redirect txt r url code w) = body w @ [txt url]"
  by (simp add: http_Redirect_def Let_def)

lemma body_Render: "body (snd (Render pages r pg w)) = body w \<or> body (snd (Render pages r pg w)) = body w @ [BPage (rq_user r) pg]"
  by (simp add: Render_def)

lemma body_cookies [simp]:
  "body (setSessionCookie tok sec age w) = body w" "body (clearSessionCookie sec w) = body w"
  "body (snd (ensureAnonCookie env r w)) = body w"
  by (simp_all add: setSessionCookie_def clearSessionCookie_def ensureAnonCookie_def Let_def split: option.split list.split)

section \<open>Who can change a channel\<close>

definition owner_only :: "int option \<Rightarrow> db \<Rightarrow> db \<Rightarrow> bool" where
  "owner_only uid d d' \<longleftrightarrow> (\<forall>ch\<in>set (channels d). ch \<in> set (channels d') \<or> uid = Some (c_user_id ch))"

lemma owner_only_same: "channels d' = channels d \<Longrightarrow> owner_only uid d d'"
  by (simp add: owner_only_def)

lemma channels_CreateSession [simp]: "channels (snd (CreateSession rnd n ttl now uid d)) = channels d"
  by (auto simp: auth_op_defs split: option.split net.split)

lemma channels_Logout [simp]: "channels (snd (Logout n tok d)) = channels d"
  by (auto simp: auth_op_defs split: net.split)

lemma Signup_keeps: "set (channels d) \<subseteq> set (channels (snd (Signup bc pa env un em pw d)))"
proof -
  obtain r d' where s: "Signup bc pa env un em pw d = (r, d')" by fastforce
  from Signup_cases [OF s] show ?thesis by (auto simp: s same_tables_def withAccount_def)
qed

lemma ChannelForUser_owner: "ChannelForUser n uid d = Inr ch \<Longrightarrow> ch \<in> set (channels d) \<and> c_user_id ch = uid"
  by (auto simp: ChannelForUser_def stmt_def q_getChannelByUserID_def one_row_def find_Some_iff
      split: net.splits sum.splits option.splits)

lemma owner_only_update:
  assumes "distinct (map c_id (channels d))" "ch \<in> set (channels d)"
    and "channels d' = channels d \<or> channels d' = map (\<lambda>x. if c_id x = c_id ch then f x else x) (channels d)"
  shows "owner_only (Some (c_user_id ch)) d d'"
proof -
  have "x = ch" if "x \<in> set (channels d)" "c_id x = c_id ch" for x
    using assms(1,2) that unfolding distinct_map inj_on_def by blast
  then have "x \<in> set (channels d') \<or> c_user_id ch = c_user_id x" if "x \<in> set (channels d)" for x
    using that assms(3) by (cases "c_id x = c_id ch") (auto intro: rev_image_eqI)
  then show ?thesis by (auto simp: owner_only_def)
qed

lemma channels_updates:
  "channels (snd (auth_UpdateChannelTitle n i t d)) = channels d \<or>
   (\<exists>f. channels (snd (auth_UpdateChannelTitle n i t d)) = map (\<lambda>x. if c_id x = i then f x else x) (channels d))"
  "channels (snd (RegenerateStreamKey rnd n i d)) = channels d \<or>
   (\<exists>f. channels (snd (RegenerateStreamKey rnd n i d)) = map (\<lambda>x. if c_id x = i then f x else x) (channels d))"
  by (auto simp: auth_op_defs split: net.split option.split prod.split)

text \<open>Handlers whose last call decides between two answers keep the database of that call.\<close>

lemma snd_answer [simp]:
  "snd (case p of (Inl e, d1) \<Rightarrow> (f e d1, d1) | (Inr t, d1) \<Rightarrow> (g t d1, d1)) = snd p"
  by (simp split: prod.split sum.split)

lemma handlers_db [simp]:
  "snd (h_signupForm c r w d) = d" "snd (h_loginForm c r w d) = d" "snd (h_home c l v r w d) = d"
  "snd (h_watch c env g nm r w d) = d" "snd (h_dashboard c env r w d) = d" "snd (h_hls c r w d) = d"
  "snd (h_chatWS env nm r w d) = d" "snd (h_healthz ok e r w d) = d"
  "channels (snd (h_login c env r w d)) = channels d" "channels (snd (h_logout c env r w d)) = channels d"
  by (auto simp: h_signupForm_def h_loginForm_def h_home_def h_watch_def h_dashboard_def h_hls_def h_chatWS_def h_healthz_def
      h_login_def h_logout_def Let_def case_prod_beta split: option.split sum.split)

lemma h_signup_keeps: "set (channels d) \<subseteq> set (channels (snd (h_signup c env r w d)))"
proof (cases "rq_form r")
  case (Some f)
  obtain res d1 where s: "Signup (wc_bcrypt c) (wc_parse c) (e_signup env) (form_Get f ''username'') (form_Get f ''email'')
      (form_Get f ''password'') d = (res, d1)" by fastforce
  then have k: "set (channels d) \<subseteq> set (channels d1)" using Signup_keeps by (metis snd_conv)
  show ?thesis
  proof (cases res)
    case (Inr p)
    obtain u key where "p = (u, key)" by fastforce
    moreover obtain res2 d2 where "CreateSession (e_rnd env) (e_net2 env) (wc_sessionTTL c) (e_now env) (u_id u) d1 = (res2, d2)" by fastforce
    moreover from this have "channels d2 = channels d1" by (metis channels_CreateSession snd_conv)
    ultimately show ?thesis using Inr k s by (auto simp: h_signup_def Some split: sum.split)
  qed (use k s in \<open>simp add: h_signup_def Some\<close>)
qed (simp add: h_signup_def)

lemma owner_update_handlers:
  assumes inv: "db_inv d" and u: "UserFromContext r = Some u"
  shows "owner_only (Some (u_id u)) d (snd (h_updateTitle c env r w d))"
    "owner_only (Some (u_id u)) d (snd (h_regenerateKey c env r w d))"
proof -
  have dist: "distinct (map c_id (channels d))" using inv by (simp add: db_inv_def)
  have same: "owner_only (Some (u_id u)) d d" by (simp add: owner_only_def)
  have upd: "owner_only (Some (u_id u)) d d'" if "ChannelForUser (e_net1 env) (u_id u) d = Inr ch"
    "channels d' = channels d \<or> (\<exists>f. channels d' = map (\<lambda>x. if c_id x = c_id ch then f x else x) (channels d))" for ch d'
    using owner_only_update [OF dist, of ch d'] ChannelForUser_owner [OF that(1)] that(2) by auto
  show "owner_only (Some (u_id u)) d (snd (h_updateTitle c env r w d))"
  proof (cases "\<exists>f ch. rq_form r = Some f \<and> ChannelForUser (e_net1 env) (u_id u) d = Inr ch")
    case True
    then obtain f ch where f: "rq_form r = Some f" "ChannelForUser (e_net1 env) (u_id u) d = Inr ch" by blast
    then have "snd (h_updateTitle c env r w d) = snd (auth_UpdateChannelTitle (e_net2 env) (c_id ch) (form_Get f ''title'') d)"
      by (simp add: h_updateTitle_def u split: prod.split sum.split)
    then show ?thesis using upd [OF f(2)] channels_updates(1) by simp
  next
    case False
    then have "snd (h_updateTitle c env r w d) = d" by (auto simp: h_updateTitle_def u split: option.split sum.split)
    then show ?thesis using same by simp
  qed
  show "owner_only (Some (u_id u)) d (snd (h_regenerateKey c env r w d))"
  proof (cases "ChannelForUser (e_net1 env) (u_id u) d")
    case (Inr ch)
    then have "snd (h_regenerateKey c env r w d) = snd (RegenerateStreamKey (e_rnd env) (e_net2 env) (c_id ch) d)"
      by (simp add: h_regenerateKey_def u split: prod.split sum.split)
    then show ?thesis using upd [OF Inr] channels_updates(2) by simp
  qed (simp add: h_regenerateKey_def u same)
qed

text \<open>The routes behind \<open>RequireAuth\<close>.\<close>

definition protected :: "route set" where
  "protected = {RLogout, RDashboard, RTitle, RRegenerate}"

lemma route_owner_only:
  assumes "db_inv d"
  shows "owner_only (map_option u_id (rq_user r)) d (snd (route_handler c env a rt vs r w d))"
proof (cases rt)
  case RSignup
  then show ?thesis using h_signup_keeps [of d c "ae_req env" r w]
    by (auto simp: owner_only_def RequireGuest_def)
next
  case RTitle
  then show ?thesis using owner_update_handlers(1) [OF assms]
    by (cases "rq_user r") (auto simp: RequireAuth_def UserFromContext_def owner_only_same)
next
  case RRegenerate
  then show ?thesis using owner_update_handlers(2) [OF assms]
    by (cases "rq_user r") (auto simp: RequireAuth_def UserFromContext_def owner_only_same)
qed (auto intro!: owner_only_same simp: RequireGuest_def RequireAuth_def)

lemma mux_owner_only:
  "db_inv d \<Longrightarrow> owner_only (map_option u_id (rq_user r)) d (snd (mux_serve c env a r w d))"
  by (cases "mux_dispatch routes r") (simp_all add: mux_serve_def owner_only_same route_owner_only)

lemma route_guest:
  assumes "rt \<in> protected" "rq_user r = None"
  shows "route_handler c env a rt vs r w d = (http_Redirect BText r ''/login'' 303 w, d)"
  using assms by (cases rt) (simp_all add: protected_def RequireAuth_def UserFromContext_def)

lemma Redirect_first:
  "sent w = None \<Longrightarrow> status (http_Redirect txt r url code w) = code \<and> Location url \<in> set (headers (http_Redirect txt r url code w))"
  by (auto simp: status_def headers_def http_Redirect_def Let_def sent_WriteHeader w_Write_def setHeader_def WriteHeader_def)

text \<open>
  C5: only its owner changes a channel.  Whatever request arrives, a channel keeps its row
  (title, key hash and all) unless the request carries the session cookie of the channel's owner;
  and a request for logout, the dashboard, a title change or a new key without a valid session
  is answered by a redirect to the login page and leaves the database as it was.
\<close>

theorem only_owner_changes_channel:
  assumes inv: "db_inv (sdb (a_streams a))" and s: "web_serve c env r a = Inr (w, a')"
  shows "(\<forall>ch\<in>set (channels (sdb (a_streams a))). ch \<in> set (channels (sdb (a_streams a'))) \<or>
      (\<exists>u. session_user (ae_req env) r (sdb (a_streams a)) = Some u \<and> u_id u = c_user_id ch)) \<and>
    (session_user (ae_req env) r (sdb (a_streams a)) = None \<longrightarrow>
       (\<exists>rt\<in>protected. \<exists>vs. mux_dispatch routes r = Handler rt vs) \<longrightarrow>
       sdb (a_streams a') = sdb (a_streams a) \<and> status w = 303 \<and> Location ''/login'' \<in> set (headers w))"
proof -
  let ?d = "sdb (a_streams a)"
  let ?r = "r\<lparr>rq_user := session_user (ae_req env) r ?d\<rparr>"
  let ?w = "start_writer (ae_req env) r ?d"
  have mux: "mux_serve c env a ?r ?w ?d = (w, sdb (a_streams a'))" by (rule web_serve_mux [OF s])
  have "owner_only (map_option u_id (rq_user ?r)) ?d (snd (mux_serve c env a ?r ?w ?d))"
    by (rule mux_owner_only [OF inv])
  then have "\<forall>ch\<in>set (channels ?d). ch \<in> set (channels (sdb (a_streams a'))) \<or>
      (\<exists>u. session_user (ae_req env) r ?d = Some u \<and> u_id u = c_user_id ch)"
    by (auto simp: mux owner_only_def)
  moreover have "sdb (a_streams a') = ?d \<and> status w = 303 \<and> Location ''/login'' \<in> set (headers w)"
    if g: "session_user (ae_req env) r ?d = None" "rt \<in> protected" "mux_dispatch routes r = Handler rt vs" for rt vs
  proof -
    have "route_handler c env a rt vs ?r ?w ?d = (http_Redirect BText ?r ''/login'' 303 ?w, ?d)"
      by (rule route_guest) (use g in simp_all)
    then have "(w, sdb (a_streams a')) = (http_Redirect BText ?r ''/login'' 303 ?w, ?d)"
      using mux g(3) by (simp only: mux_serve_def mux_dispatch_user muxResult.case)
    then show ?thesis using Redirect_first [of ?w BText ?r "''/login''" 303] by simp
  qed
  ultimately show ?thesis by blast
qed


lemma web_serve_intro:
  assumes "mux_serve c env a (r\<lparr>rq_user := session_user (ae_req env) r (sdb (a_streams a))\<rparr>)
           (start_writer (ae_req env) r (sdb (a_streams a))) (sdb (a_streams a)) = (w, d)" "upgrade_of (body w) = None"
  shows "web_serve c env r a = Inr (w, a\<lparr>a_streams := (a_streams a)\<lparr>sdb := d\<rparr>\<rparr>)"
  using assms by (simp add: web_serve_def Middleware_eq)

lemma upgrade_Redirect: "body w = [] \<Longrightarrow> upgrade_of (body (http_Redirect BText r url code w)) = None"
  using body_Redirect [of BText r url code w] by auto

definition demo_ctx :: web_ctx where
  "demo_ctx = \<lparr>wc_bcrypt = demo_bcrypt, wc_parse = (\<lambda>_. True), wc_sessionTTL = 3600 * 1000000000, wc_secure = True,
     wc_pages = pageNames, wc_stateDir = ''/s'', wc_sysText = (\<lambda>_. []), wc_dbText = (\<lambda>_. [])\<rparr>"

definition demo_req_env :: "time \<Rightarrow> req_env" where
  "demo_req_env t = \<lparr>e_now = t, e_netSession = NetOk, e_net1 = NetOk, e_net2 = NetOk,
     e_rnd = Some (replicate 32 CHR ''t''), e_rndAnon = Some (replicate 16 CHR ''a''), e_signup = demo_env\<rparr>"

definition demo_app_env :: "time \<Rightarrow> app_env" where
  "demo_app_env t = \<lparr>ae_req = demo_req_env t, ae_names = (\<lambda>A. sorted_list_of_set (fset A)), ae_ping = (True, []),
     ae_iter = ascending, ae_conn = 0, ae_accept = True\<rparr>"

definition demo_app :: app where
  "demo_app = \<lparr>a_streams = stream_NewService alice_db ''/s'' ''ffmpeg'', a_chat = newChat \<lparr>RateBurst = 5, RatePerSecond = 2\<rparr>\<rparr>"

definition demo_request :: "string \<Rightarrow> string list \<Rightarrow> (string \<times> string) list \<Rightarrow> (string \<times> string) list \<Rightarrow> web_request" where
  "demo_request mth path cookies form =
     \<lparr>rq_method = mth, rq_segs = path, rq_cookies = cookies, rq_form = Some form, rq_user = None\<rparr>"

lemmas web_eval =
  web_serve_def Middleware_eq mux_serve_def mux_dispatch_def mux_match_def routes_def pat_def pat_match_def method_match_def
  canonical_def exactMatch_def more_specific_def demo_request_def

lemma demo_db_inv': "db_inv (sdb (a_streams demo_app))"
  using alice_db_inv by (simp add: demo_app_def stream_NewService_def account_inv_def)

theorem only_owner_changes_channel_witness:
  "\<exists>w a'. web_serve demo_ctx (demo_app_env 6000) (demo_request ''POST'' [''dashboard'', ''title''] [] [(''title'', ''mine'')]) demo_app = Inr (w, a') \<and>
     sdb (a_streams a') = alice_db \<and> status w = 303"
proof -
  let ?r = "demo_request ''POST'' [''dashboard'', ''title''] [] [(''title'', ''mine'')]"
  let ?d = "sdb (a_streams demo_app)"
  have route: "mux_dispatch routes ?r = Handler RTitle []" by (simp add: web_eval)
  have guest: "session_user (ae_req (demo_app_env 6000)) ?r ?d = None"
    by (simp add: session_user_def r_Cookie_def demo_request_def)
  let ?w = "start_writer (ae_req (demo_app_env 6000)) ?r ?d"
  have "mux_serve demo_ctx (demo_app_env 6000) demo_app (?r\<lparr>rq_user := None\<rparr>) ?w ?d
      = (http_Redirect BText (?r\<lparr>rq_user := None\<rparr>) ''/login'' 303 ?w, ?d)"
    using route by (simp add: mux_serve_def RequireAuth_def UserFromContext_def demo_request_def)
  then have s: "web_serve demo_ctx (demo_app_env 6000) ?r demo_app
      = Inr (http_Redirect BText (?r\<lparr>rq_user := None\<rparr>) ''/login'' 303 ?w, demo_app\<lparr>a_streams := (a_streams demo_app)\<lparr>sdb := ?d\<rparr>\<rparr>)"
    by (intro web_serve_intro) (simp_all add: guest upgrade_Redirect)
  from only_owner_changes_channel [OF demo_db_inv' s] guest route
  show ?thesis using s by (auto simp: protected_def demo_app_def stream_NewService_def)
qed

section \<open>What a response can contain\<close>

text \<open>
  Pages are rendered for the user of the session, files come from the state directory, the chat
  is entered under the identity of the session, and no handler dereferences a missing user.
\<close>

fun body_ok :: "web_ctx \<Rightarrow> web_request \<Rightarrow> db \<Rightarrow> body \<Rightarrow> bool" where
  "body_ok c r d (BText _) = True"
| "body_ok c r d (BPage u pg) = (u = rq_user r)"
| "body_ok c r d (BUpgrade nm un uid ak) =
     (nm \<in> c_name ` set (channels d) \<and>
      (case rq_user r of None \<Rightarrow> un = '''' \<and> uid = 0 | Some u \<Rightarrow> un = u_username u \<and> uid = u_id u \<and> ak = ''''))"
| "body_ok c r d (BFile p) = (p = hls_target (wc_stateDir c) (tl (rq_segs r)))"
| "body_ok c r d BPanic = False"

named_theorems bodies \<open>the handlers write only acceptable bodies\<close>

lemma bodies_basic [bodies]:
  "list_all (body_ok c r d) (body w) \<Longrightarrow> list_all (body_ok c r d) (body (http_Redirect BText q url code w))"
  "list_all (body_ok c r d) (body w) \<Longrightarrow> list_all (body_ok c r d) (body (snd (Render pages r pg w)))"
  using body_Redirect [of BText q url code w] body_Render [of pages r pg w] by auto

lemma ChannelByName_known: "ChannelByName n nm d = Inr ch \<Longrightarrow> ch \<in> set (channels d) \<and> c_name ch = nm"
  by (auto simp: ChannelByName_def stmt_def q_getChannelByName_def one_row_def find_Some_iff
      split: net.splits sum.splits option.splits if_splits)

lemma bodies_chat [bodies]:
  "list_all (body_ok c r d) (body w) \<Longrightarrow> list_all (body_ok c r d) (body (fst (h_chatWS env nm r w d)))"
  using body_cookies(3) [of env r w]
  by (auto simp: h_chatWS_def UserFromContext_def Let_def case_prod_beta dest!: ChannelByName_known split: sum.split option.split)

lemma bodies_handlers [bodies]:
  assumes "list_all (body_ok c r d) (body w)"
  shows "list_all (body_ok c r d) (body (fst (h_signupForm c r w d)))"
    "list_all (body_ok c r d) (body (fst (h_loginForm c r w d)))"
    "list_all (body_ok c r d) (body (fst (h_signup c env r w d)))"
    "list_all (body_ok c r d) (body (fst (h_login c env r w d)))"
    "list_all (body_ok c r d) (body (fst (h_logout c env r w d)))"
    "list_all (body_ok c r d) (body (fst (h_home c l v r w d)))"
    "list_all (body_ok c r d) (body (fst (h_watch c env g nm r w d)))"
    "list_all (body_ok c r d) (body (fst (h_hls c r w d)))"
    "list_all (body_ok c r d) (body (fst (h_healthz ok err r w d)))"
  using assms
  by (auto simp: h_signupForm_def h_loginForm_def h_signup_def h_login_def h_logout_def h_home_def h_watch_def h_hls_def
      h_healthz_def Let_def bodies_basic split: option.split sum.split prod.split)

lemma bodies_user [bodies]:
  assumes "list_all (body_ok c r d) (body w)" "rq_user r \<noteq> None"
  shows "list_all (body_ok c r d) (body (fst (h_dashboard c env r w d)))"
    "list_all (body_ok c r d) (body (fst (h_updateTitle c env r w d)))"
    "list_all (body_ok c r d) (body (fst (h_regenerateKey c env r w d)))"
  using assms
  by (auto simp: h_dashboard_def h_updateTitle_def h_regenerateKey_def UserFromContext_def bodies_basic
      split: option.split sum.split prod.split)

lemma route_bodies:
  "list_all (body_ok c r d) (body w) \<Longrightarrow> list_all (body_ok c r d) (body (fst (route_handler c env a rt vs r w d)))"
  by (cases rt) (auto simp: RequireAuth_def RequireGuest_def UserFromContext_def bodies)

lemma mux_bodies:
  "list_all (body_ok c r d) (body w) \<Longrightarrow> list_all (body_ok c r d) (body (fst (mux_serve c env a r w d)))"
  by (cases "mux_dispatch routes r") (simp_all add: mux_serve_def route_bodies bodies_basic)

lemma serve_bodies:
  assumes "web_serve c env r a = Inr (w, a')"
  shows "list_all (body_ok c (r\<lparr>rq_user := session_user (ae_req env) r (sdb (a_streams a))\<rparr>) (sdb (a_streams a))) (body w)"
proof -
  let ?r = "r\<lparr>rq_user := session_user (ae_req env) r (sdb (a_streams a))\<rparr>"
  have "list_all (body_ok c ?r (sdb (a_streams a))) (body (start_writer (ae_req env) r (sdb (a_streams a))))" by simp
  from mux_bodies [OF this, of env a] show ?thesis by (simp add: web_serve_mux [OF assms])
qed

section \<open>Files\<close>

lemma clean_parts_dot: "clean_parts (p @ ''/.'') = clean_parts p"
  using split_slash_append [of "''.''" p] by (cases p) (simp_all add: clean_parts_def clean_step_def is_rooted_def)

lemma join_slash_empty: "list_all plain_name ws \<Longrightarrow> join_slash ws = [] \<longleftrightarrow> ws = []"
  by (cases ws rule: join_slash.cases) (auto simp: plain_name_def)

lemma hls_target_below:
  "hls_target dir segs = clean_parts dir @ clean_parts (CHR ''/'' # join_slash segs)"
proof -
  define ws where "ws = clean_parts (CHR ''/'' # join_slash segs)"
  define p where "p = (if dir = [] then ''.'' else dir)"
  have ws: "list_all plain_name ws" unfolding ws_def by (rule rooted_parts_plain)
  have p: "p \<noteq> []" "clean_parts p = clean_parts dir" by (simp_all add: p_def clean_parts_def clean_step_def is_rooted_def)
  show ?thesis
  proof (cases "ws = []")
    case True
    then have "hls_target dir segs = clean_parts (filepath_Clean (p @ ''/.''))"
      using p(1) by (simp add: hls_target_def filepath_Join_def ws_def [symmetric] p_def [symmetric])
    then show ?thesis using True p(2) by (simp add: clean_parts_Clean clean_parts_dot ws_def)
  next
    case False
    then have "join_slash ws \<noteq> []" using join_slash_empty [OF ws] by simp
    then have "hls_target dir segs = clean_parts (filepath_Clean (p @ CHR ''/'' # join_slash ws))"
      using p(1) by (simp add: hls_target_def filepath_Join_def ws_def [symmetric] p_def [symmetric])
    moreover have "p @ CHR ''/'' # join_slash ws = join_slash (p # ws)" using False by (cases ws) simp_all
    ultimately show ?thesis using clean_parts_below [OF p(1) ws] p(2) by (simp add: clean_parts_Clean ws_def)
  qed
qed

text \<open>
  C39: the file server never leaves the state directory.  Whatever path a request has, with dot
  segments or encoded slashes, the file it is answered from lies at or below the state directory.
\<close>

theorem hls_stays_below:
  assumes "web_serve c env r a = Inr (w, a')" "BFile p \<in> set (body w)"
  shows "\<exists>rest. p = clean_parts (wc_stateDir c) @ rest \<and> list_all plain_name rest"
  using serve_bodies [OF assms(1)] assms(2) rooted_parts_plain hls_target_below
  by (fastforce simp: list_all_iff)

lemma demo_guest [simp]: "session_user env (demo_request mth path [] form) d = None"
  "start_writer env (demo_request mth path [] form) d = newWriter"
  by (simp_all add: session_user_def start_writer_def stale_cookie_def r_Cookie_def demo_request_def)

lemma demo_request_simps [simp]:
  "(demo_request mth path cookies form)\<lparr>rq_user := None\<rparr> = demo_request mth path cookies form"
  "rq_segs (demo_request mth path cookies form) = path" "rq_method (demo_request mth path cookies form) = mth"
  "rq_form (demo_request mth path cookies form) = Some form" "rq_user (demo_request mth path cookies form) = None"
  by (simp_all add: demo_request_def)

theorem hls_stays_below_witness:
  "\<exists>w a'. web_serve demo_ctx (demo_app_env 6000) (demo_request ''GET'' [''hls'', ''../../etc'', ''passwd''] [] []) demo_app = Inr (w, a') \<and>
     (\<exists>p rest. BFile p \<in> set (body w) \<and> p = clean_parts ''/s'' @ rest)"
proof -
  let ?r = "demo_request ''GET'' [''hls'', ''../../etc'', ''passwd''] [] []"
  have "mux_dispatch routes ?r = Handler RHls []" by (simp add: web_eval)
  then have s: "web_serve demo_ctx (demo_app_env 6000) ?r demo_app = Inr (fst (h_hls demo_ctx ?r newWriter (sdb (a_streams demo_app))),
      demo_app\<lparr>a_streams := (a_streams demo_app)\<lparr>sdb := sdb (a_streams demo_app)\<rparr>\<rparr>)"
    by (intro web_serve_intro) (simp_all add: mux_serve_def h_hls_def newWriter_def)
  have "\<exists>p. BFile p \<in> set (body (fst (h_hls demo_ctx ?r newWriter (sdb (a_streams demo_app)))))" by (auto simp: h_hls_def)
  then obtain p where p: "BFile p \<in> set (body (fst (h_hls demo_ctx ?r newWriter (sdb (a_streams demo_app)))))" by blast
  from hls_stays_below [OF s p] s p show ?thesis by (auto simp: demo_ctx_def)
qed

section \<open>Identity in the chat\<close>

text \<open>
  C38: a viewer enters the chat of an existing channel under the name of the session.  A request
  touches the chat service only as an upgrade that \<open>ServeWS\<close> is called for; then the channel is
  one of the database, with a valid user name, and the name and id are those of the user whose
  session cookie came with the request, or empty and zero without a valid session.
\<close>

theorem chat_identity:
  assumes inv: "account_inv (sdb (a_streams a))" and s: "web_serve c env r a = Inr (w, a')"
  shows "case upgrade_of (body w) of
      None \<Rightarrow> a_chat a' = a_chat a
    | Some (nm, un, uid, ak) \<Rightarrow>
        serve_open (ae_iter env) (ae_conn env) nm un uid ak (ae_accept env) (a_chat a) = Inr (a_chat a') \<and>
        nm \<in> c_name ` set (channels (sdb (a_streams a))) \<and> validateUsername nm = None \<and>
        (case session_user (ae_req env) r (sdb (a_streams a)) of
           None \<Rightarrow> un = '''' \<and> uid = 0
         | Some u \<Rightarrow> un = u_username u \<and> uid = u_id u \<and> ak = '''')"
proof (cases "upgrade_of (body w)")
  case None
  then show ?thesis using s unfolding web_serve_def by (auto simp: Let_def split: prod.splits option.splits)
next
  case (Some t)
  obtain nm un uid ak where t: "t = (nm, un, uid, ak)" by (cases t) auto
  then have body: "body w = [BUpgrade nm un uid ak]"
    using Some by (cases "body w" rule: upgrade_of.cases) simp_all
  have "body_ok c (r\<lparr>rq_user := session_user (ae_req env) r (sdb (a_streams a))\<rparr>) (sdb (a_streams a)) (BUpgrade nm un uid ak)"
    using serve_bodies [OF s] by (simp only: body list.pred_inject)
  then have ok: "nm \<in> c_name ` set (channels (sdb (a_streams a)))"
    "case session_user (ae_req env) r (sdb (a_streams a)) of None \<Rightarrow> un = '''' \<and> uid = 0
       | Some u \<Rightarrow> un = u_username u \<and> uid = u_id u \<and> ak = ''''" by simp_all
  have "c_name ` set (channels (sdb (a_streams a))) = u_username ` set (users (sdb (a_streams a)))"
    using inv unfolding account_inv_def by (metis (no_types, lifting) image_cong image_image snd_conv)
  then have "validateUsername nm = None" using ok(1) inv by (auto simp: account_inv_def)
  moreover have "serve_open (ae_iter env) (ae_conn env) nm un uid ak (ae_accept env) (a_chat a) = Inr (a_chat a')"
    using s Some t unfolding web_serve_def by (auto simp: Let_def split: prod.splits option.splits)
  ultimately show ?thesis using ok by (simp add: Some t)
qed

theorem chat_identity_witness:
  "\<exists>w a' ak. web_serve demo_ctx (demo_app_env 6000) (demo_request ''GET'' [''ws'', ''chat'', ''alice''] [] []) demo_app = Inr (w, a') \<and>
     upgrade_of (body w) = Some (''alice'', '''', 0, ak) \<and>
     serve_open ascending 0 ''alice'' '''' 0 ak True (a_chat demo_app) = Inr (a_chat a') \<and> fmlookup (conns (a_chat a')) 0 \<noteq> None"
proof -
  let ?r = "demo_request ''GET'' [''ws'', ''chat'', ''alice''] [] []"
  let ?d = "sdb (a_streams demo_app)"
  define ak where "ak = b64url (replicate 16 CHR ''a'')"
  have route: "mux_dispatch routes ?r = Handler RChatWS [''alice'']" by (simp add: web_eval)
  have d: "?d = alice_db" by (simp add: demo_app_def stream_NewService_def)
  moreover have "text_ok ''alice''" by (rule text_ok_ascii) auto
  ultimately have ch: "ChannelByName NetOk ''alice'' ?d = Inr (newChannel emptyDB ''alice'' ''h'' 5000)"
    by (simp add: ChannelByName_def stmt_def q_getChannelByName_def one_row_def alice_db_def withAccount_def emptyDB_def newChannel_def)
  define w where "w = fst (h_chatWS (demo_req_env 6000) ''alice'' ?r newWriter ?d)"
  have w: "h_chatWS (demo_req_env 6000) ''alice'' ?r newWriter ?d = (w, ?d)" "body w = [BUpgrade ''alice'' '''' 0 ak]"
    using ch by (simp_all add: w_def prod_eq_iff h_chatWS_def demo_req_env_def UserFromContext_def ensureAnonCookie_def r_Cookie_def
        demo_request_def newChannel_def ak_def newWriter_def Let_def)
  obtain cs where cs: "serve_open ascending 0 ''alice'' '''' 0 ak True (a_chat demo_app) = Inr cs" "fmlookup (conns cs) 0 \<noteq> None"
    by (simp add: serve_open_def demo_app_def newChat_def getOrCreate_def NewService_def newManager_def newWorld_def room_arm_def
        setEntry_def setConn_def Let_def)
  have s: "web_serve demo_ctx (demo_app_env 6000) ?r demo_app = Inr (w, demo_app\<lparr>a_chat := cs\<rparr>)"
    using w cs route unfolding web_serve_def Middleware_eq
    by (simp add: mux_serve_def demo_app_env_def)
  have "account_inv ?d" using alice_db_inv by (simp add: d)
  from chat_identity [OF this s] w(2) cs s show ?thesis by (auto simp: demo_app_env_def)
qed

end
