(* ===== verification/Web_Pages.thy ===== *)
theory Web_Pages
  imports Web_Props
begin

text \<open>
  The web server over the other components' interfaces: what the pages show of the live streams
  (through the laws of \<open>liveDirectory\<close>), and the way from the login form to the dashboard.
\<close>

section \<open>The live directory\<close>

text \<open>
  The interface \<open>liveDirectory\<close> of \<open>server.go\<close>: the listing has one entry per channel name, and
  looking a name up finds exactly the entry of the listing.
\<close>

locale live_directory =
  fixes inv :: "'s \<Rightarrow> bool"
    and listing :: "'s \<Rightarrow> LiveChannel list"
    and get :: "string \<Rightarrow> 's \<Rightarrow> LiveChannel option"
  assumes distinct_names: "inv s \<Longrightarrow> distinct (map lc_name (listing s))"
    and get_listed: "inv s \<Longrightarrow> get nm s = Some l \<longleftrightarrow> l \<in> set (listing s) \<and> lc_name l = nm"
begin

lemma cards_names: "map lcd_name (liveCards (listing s) v) = map lc_name (listing s)"
  by (simp add: liveCards_def)

lemma cards_distinct: "inv s \<Longrightarrow> distinct (map lcd_name (liveCards (listing s) v))"
  by (simp add: cards_names distinct_names)

lemma card_live:
  "inv s \<Longrightarrow> k \<in> set (liveCards (listing s) v) \<Longrightarrow>
   \<exists>l. get (lcd_name k) s = Some l \<and> lcd_title k = lc_title l \<and> lcd_viewers k = v (lc_name l)"
  using get_listed by (fastforce simp: liveCards_def)

lemma get_card: "inv s \<Longrightarrow> get nm s \<noteq> None \<longleftrightarrow> nm \<in> set (map lcd_name (liveCards (listing s) v))"
proof -
  assume "inv s"
  then have "get nm s \<noteq> None \<longleftrightarrow> (\<exists>l\<in>set (listing s). lc_name l = nm)"
    using get_listed [of s nm] by (auto simp: not_None_eq)
  then show ?thesis unfolding cards_names by auto
qed

end

text \<open>Ranging over the registry visits every name once, in some order.\<close>

locale name_range =
  fixes names :: "string fset \<Rightarrow> string list"
  assumes names: "set (names A) = fset A" "distinct (names A)"
begin

lemma snapshot_exact:
  "set (registry_snapshot names r) = {i. \<exists>nm. fmlookup r nm = Some i}"
  by (auto simp: registry_snapshot_def List.map_filter_def names fmdom'_alt_def [symmetric] image_iff)
     (metis fmdom'I option.sel)

end

sublocale name_range \<subseteq> dir: live_directory stream_inv "ListLive names" GetByName
proof
  fix s assume inv: "stream_inv s"
  have reg: "fmlookup (registry s) nm = Some i \<longleftrightarrow> live s i \<and> channelName (sess s i) = nm" for nm i
    using inv by (simp add: stream_inv_def registry_inv_def)
  have own: "i \<in> set (registry_snapshot names (registry s)) \<longleftrightarrow> fmlookup (registry s) (channelName (sess s i)) = Some i" for i
    using reg by (auto simp: snapshot_exact)
  have "map lc_name (ListLive names s) = filter (\<lambda>nm. fmlookup (registry s) nm \<noteq> None) (names (fmdom (registry s)))"
  proof -
    have "map (\<lambda>i. channelName (sess s i)) (List.map_filter (fmlookup (registry s)) xs)
        = filter (\<lambda>nm. fmlookup (registry s) nm \<noteq> None) xs" for xs
    proof (induction xs)
      case (Cons nm xs)
      have "channelName (sess s i) = nm" if "fmlookup (registry s) nm = Some i" for i using reg that by simp
      then show ?case using Cons by (cases "fmlookup (registry s) nm") (simp_all add: List.map_filter_simps)
    qed (simp add: List.map_filter_simps)
    then show ?thesis by (simp add: ListLive_def registry_snapshot_def toDTO_def comp_def)
  qed
  then show "distinct (map lc_name (ListLive names s))" using names(2) by simp
  show "GetByName nm s = Some l \<longleftrightarrow> l \<in> set (ListLive names s) \<and> lc_name l = nm" for nm l
  proof -
    have "GetByName nm s = Some l \<longleftrightarrow> (\<exists>i. fmlookup (registry s) nm = Some i \<and> l = toDTO (sess s i))"
      by (auto simp: GetByName_def registry_get_def split: option.split)
    also have "\<dots> \<longleftrightarrow> l \<in> set (ListLive names s) \<and> lc_name l = nm"
      using reg own by (auto simp: ListLive_def toDTO_def)
    finally show ?thesis .
  qed
qed

context name_range
begin

lemma listed_once: "stream_inv s \<Longrightarrow> distinct (map lcd_name (liveCards (ListLive names s) v))"
  by (rule dir.cards_distinct)

lemma get_listed_card: "stream_inv s \<Longrightarrow> GetByName nm s \<noteq> None \<longleftrightarrow> nm \<in> set (map lcd_name (liveCards (ListLive names s) v))"
  by (rule dir.get_card)

end

interpretation sorted_names: name_range "\<lambda>A. sorted_list_of_set (fset A)"
  by unfold_locales simp_all

section \<open>What viewers see\<close>

lemma Render_page:
  assumes "LoadTemplates parses = Inr pages" "sent w = None"
  shows "body (snd (Render pages r pg w)) = body w @ [BPage (rq_user r) pg]" "status (snd (Render pages r pg w)) = 200"
proof -
  have "page_name pg \<in> set pages" using Render_known [OF assms(1), of r pg w] by (auto simp: Render_def split: if_splits)
  then show "body (snd (Render pages r pg w)) = body w @ [BPage (rq_user r) pg]" "status (snd (Render pages r pg w)) = 200"
    using assms(2) by (simp_all add: Render_def status_def sent_WriteHeader w_Write_def setHeader_def WriteHeader_def)
qed

lemma serve_page:
  assumes "mux_serve c env a (r\<lparr>rq_user := session_user (ae_req env) r (sdb (a_streams a))\<rparr>)
      (start_writer (ae_req env) r (sdb (a_streams a))) (sdb (a_streams a))
      = (snd (Render pages (r\<lparr>rq_user := session_user (ae_req env) r (sdb (a_streams a))\<rparr>) pg w), sdb (a_streams a))"
    and "LoadTemplates parses = Inr pages" "sent w = None" "body w = []"
  shows "\<exists>w'. web_serve c env r a = Inr (w', a) \<and> status w' = 200 \<and>
    body w' = [BPage (session_user (ae_req env) r (sdb (a_streams a))) pg]"
  using web_serve_intro [OF assms(1)] Render_page [OF assms(2,3)] assms(4) by simp

lemma home_route: "rq_method r = ''GET'' \<Longrightarrow> rq_segs r = [''''] \<Longrightarrow> mux_dispatch routes r = Handler RHome []"
  by (simp add: web_eval)

lemma watch_route:
  "rq_method r = ''GET'' \<Longrightarrow> rq_segs r = [''c'', nm] \<Longrightarrow> plain_name nm \<Longrightarrow> mux_dispatch routes r = Handler RWatch [nm]"
  by (simp add: web_eval plain_name_def)

lemma channel_plain: "account_inv d \<Longrightarrow> ch \<in> set (channels d) \<Longrightarrow> plain_name (c_name ch) \<and> text_ok (c_name ch)"
proof -
  assume inv: "account_inv d" "ch \<in> set (channels d)"
  then have "(c_user_id ch, c_name ch) \<in> (\<lambda>u. (u_id u, u_username u)) ` set (users d)" unfolding account_inv_def by blast
  then have "validateUsername (c_name ch) = None" using inv by (auto simp: account_inv_def)
  then show ?thesis using validUsername_plain validUsername_text by blast
qed

lemma ChannelByName_present:
  assumes "account_inv d" "ch \<in> set (channels d)"
  shows "ChannelByName NetOk (c_name ch) d = Inr ch"
proof -
  have "distinct (map c_name (channels d))" using assms by (simp add: account_inv_def db_inv_def)
  from find_distinct [OF this assms(2)] channel_plain [OF assms] show ?thesis
    by (simp add: ChannelByName_def stmt_def q_getChannelByName_def one_row_def)
qed

lemma sent_anon [simp]: "sent (snd (ensureAnonCookie env r w)) = sent w"
  by (simp add: ensureAnonCookie_def Let_def split: option.split list.split)

text \<open>
  C37: the pages show exactly what is on air.  In every state the stream service can reach, the
  home page has one card for each live channel and no other, with that channel's viewer count,
  and the watch page of any channel says it is live if and only if it has a card; neither page
  changes anything.
\<close>

theorem pages_show_live:
  assumes "account_inv d" "1 \<le> seq_stream d" and a: "a_streams a = fold (stream_step deps) es (stream_NewService d dir bin)"
    and names: "\<forall>A. set (ae_names env A) = fset A \<and> distinct (ae_names env A)"
    and pages: "LoadTemplates parses = Inr (wc_pages c)"
    and r: "rq_method r = ''GET''" "rq_segs r = ['''']"
    and r': "rq_method r' = ''GET''" "rq_segs r' = [''c'', c_name ch]"
    and ch: "ch \<in> set (channels (sdb (a_streams a)))" and net: "e_net1 (ae_req env) = NetOk"
  shows "\<exists>w w' cards data. web_serve c env r a = Inr (w, a) \<and> status w = 200 \<and>
    body w = [BPage (session_user (ae_req env) r (sdb (a_streams a))) (PgHome cards)] \<and>
    distinct (map lcd_name cards) \<and>
    set (map lcd_name cards) = (\<lambda>i. channelName (sess (a_streams a) i)) ` {i. live (a_streams a) i} \<and>
    list_all (\<lambda>k. lcd_viewers k = ViewerCount (lcd_name k) (world_of (a_chat a))) cards \<and>
    web_serve c env r' a = Inr (w', a) \<and> status w' = 200 \<and>
    body w' = [BPage (session_user (ae_req env) r' (sdb (a_streams a))) (PgWatch data)] \<and>
    wd_name data = c_name ch \<and> (wd_live data \<longleftrightarrow> c_name ch \<in> set (map lcd_name cards))"
proof -
  let ?s = "a_streams a" and ?d = "sdb (a_streams a)"
  let ?v = "\<lambda>nm. ViewerCount nm (world_of (a_chat a))"
  have inv: "stream_inv ?s" unfolding a by (rule streams.inv_run) (use assms(1,2) in \<open>auto simp: stream_boot_def\<close>)
  have acc: "account_inv ?d" using inv by (simp add: stream_inv_def tables_inv_def)
  have reg: "fmlookup (registry ?s) nm = Some i \<longleftrightarrow> live ?s i \<and> channelName (sess ?s i) = nm" for nm i
    using inv by (simp add: stream_inv_def registry_inv_def)
  have nr: "name_range (ae_names env)" using names by unfold_locales auto
  define cards where "cards = liveCards (ListLive (ae_names env) ?s) ?v"
  have dist: "distinct (map lcd_name cards)"
    unfolding cards_def by (rule name_range.listed_once [OF nr inv])
  have get: "GetByName nm ?s \<noteq> None \<longleftrightarrow> nm \<in> set (map lcd_name cards)" for nm
    unfolding cards_def by (rule name_range.get_listed_card [OF nr inv])
  have lv: "GetByName nm ?s \<noteq> None \<longleftrightarrow> (\<exists>i. live ?s i \<and> channelName (sess ?s i) = nm)" for nm
    unfolding reg [symmetric] by (auto simp: GetByName_def registry_get_def split: option.split)
  have "nm \<in> set (map lcd_name cards) \<longleftrightarrow> nm \<in> (\<lambda>i. channelName (sess ?s i)) ` {i. live ?s i}" for nm
    unfolding get [symmetric] lv by auto
  then have set: "set (map lcd_name cards) = (\<lambda>i. channelName (sess ?s i)) ` {i. live ?s i}" by blast
  have "\<exists>w. web_serve c env r a = Inr (w, a) \<and> status w = 200 \<and>
      body w = [BPage (session_user (ae_req env) r ?d) (PgHome cards)]"
    by (rule serve_page [OF _ pages, where w = "start_writer (ae_req env) r ?d"]) (simp_all add: mux_serve_def home_route [OF r] h_home_def r cards_def)
  moreover define data where "data = (case GetByName (c_name ch) ?s of
      None \<Rightarrow> \<lparr>wd_name = c_name ch, wd_title = c_title ch, wd_live = False\<rparr>
    | Some l \<Rightarrow> \<lparr>wd_name = c_name ch, wd_title = lc_title l, wd_live = True\<rparr>)"
  have "c_name ch \<noteq> []" "plain_name (c_name ch)" using channel_plain [OF acc ch] by (auto simp: plain_name_def)
  then have "\<exists>w'. web_serve c env r' a = Inr (w', a) \<and> status w' = 200 \<and>
      body w' = [BPage (session_user (ae_req env) r' ?d) (PgWatch data)]"
    by (intro serve_page [OF _ pages, where w = "snd (ensureAnonCookie (ae_req env) (r'\<lparr>rq_user := session_user (ae_req env) r' ?d\<rparr>) (start_writer (ae_req env) r' ?d))"])
       (simp_all add: mux_serve_def watch_route [OF r'] h_watch_def net ChannelByName_present [OF acc ch] data_def Let_def)
  moreover have "wd_name data = c_name ch" "wd_live data \<longleftrightarrow> c_name ch \<in> set (map lcd_name cards)"
    using get [of "c_name ch"] by (auto simp: data_def split: option.split)
  moreover have "list_all (\<lambda>k. lcd_viewers k = ?v (lcd_name k)) cards"
    by (simp add: cards_def liveCards_def list_all_iff)
  ultimately show ?thesis using dist set by blast
qed

theorem pages_show_live_witness:
  "\<exists>w w' cards data a. a_streams a = fold (stream_step demo_deps) (goLive 0 ''live_k'') (stream_NewService demo_db ''/s'' ''ffmpeg'') \<and>
     web_serve demo_ctx (demo_app_env 8000) (demo_request ''GET'' [''''] [] []) a = Inr (w, a) \<and>
     body w = [BPage None (PgHome cards)] \<and> ''alice'' \<in> set (map lcd_name cards) \<and>
     web_serve demo_ctx (demo_app_env 8000) (demo_request ''GET'' [''c'', ''alice''] [] []) a = Inr (w', a) \<and>
     body w' = [BPage None (PgWatch data)] \<and> wd_live data"
proof -
  define s where "s = fold (stream_step demo_deps) (goLive 0 ''live_k'') (stream_NewService demo_db ''/s'' ''ffmpeg'')"
  define a where "a = \<lparr>a_streams = s, a_chat = newChat \<lparr>RateBurst = 5, RatePerSecond = 2\<rparr>\<rparr>"
  define ch where "ch = newChannel emptyDB ''alice'' (HashKey ''live_k'') 5000"
  have s: "live s 0" "channelName (sess s 0) = ''alice''" "ch \<in> set (channels (sdb s))"
    by (simp_all add: s_def live_def demo_eval ch_def)
  have nm: "c_name ch = ''alice''" by (simp add: ch_def newChannel_def)
  have as: "a_streams a = fold (stream_step demo_deps) (goLive 0 ''live_k'') (stream_NewService demo_db ''/s'' ''ffmpeg'')"
    "ch \<in> set (channels (sdb (a_streams a)))" using s(3) by (simp_all add: a_def s_def)
  have pg: "LoadTemplates (\<lambda>_. True) = Inr (wc_pages demo_ctx)" by (simp add: LoadTemplates_def demo_ctx_def pageNames_def)
  have env: "\<forall>A. set (ae_names (demo_app_env 8000) A) = fset A \<and> distinct (ae_names (demo_app_env 8000) A)"
    "e_net1 (ae_req (demo_app_env 8000)) = NetOk" by (simp_all add: demo_app_env_def demo_req_env_def)
  have r: "rq_method (demo_request ''GET'' [''''] [] []) = ''GET''" "rq_segs (demo_request ''GET'' [''''] [] []) = ['''']"
    "rq_method (demo_request ''GET'' [''c'', ''alice''] [] []) = ''GET''"
    "rq_segs (demo_request ''GET'' [''c'', ''alice''] [] []) = [''c'', c_name ch]" by (simp_all add: nm)
  obtain w w' cards data where p: "web_serve demo_ctx (demo_app_env 8000) (demo_request ''GET'' [''''] [] []) a = Inr (w, a)"
    "body w = [BPage None (PgHome cards)]" "set (map lcd_name cards) = (\<lambda>i. channelName (sess s i)) ` {i. live s i}"
    "web_serve demo_ctx (demo_app_env 8000) (demo_request ''GET'' [''c'', ''alice''] [] []) a = Inr (w', a)"
    "body w' = [BPage None (PgWatch data)]" "wd_live data \<longleftrightarrow> ''alice'' \<in> set (map lcd_name cards)"
    using pages_show_live [OF demo_db_inv as(1) env(1) pg r as(2) env(2)] unfolding demo_guest nm as(1) s_def [symmetric] by blast
  have "''alice'' \<in> set (map lcd_name cards)" unfolding p(3) using s(1,2) by (auto intro: rev_image_eqI)
  with p as(1) show ?thesis by blast
qed

section \<open>From the login form to the dashboard\<close>

lemma login_route: "rq_method r = ''POST'' \<Longrightarrow> rq_segs r = [''login''] \<Longrightarrow> mux_dispatch routes r = Handler RLogin []"
  by (simp add: web_eval)

lemma dashboard_route: "rq_method r = ''GET'' \<Longrightarrow> rq_segs r = [''dashboard''] \<Longrightarrow> mux_dispatch routes r = Handler RDashboard []"
  by (simp add: web_eval)

lemma Login_user: "Login bc n un pw d = Inr u \<Longrightarrow> u \<in> set (users d)"
  by (auto simp: Login_def stmt_def q_getUserByUsername_def one_row_def find_Some_iff
      split: net.splits sum.splits option.splits if_splits)

lemma CreateSession_new:
  assumes "u \<in> set (users d)" "b64url rnd \<notin> s_id ` set (sessions d)"
  shows "CreateSession (Some rnd) NetOk ttl now (u_id u) d =
     (Inr (b64url rnd), d\<lparr>sessions := sessions d @ [\<lparr>s_id = b64url rnd, s_user_id = u_id u, s_expires = to_ts (now + ttl),
        s_created = to_ts now\<rparr>]\<rparr>)"
  using assms by (simp add: CreateSession_def newSessionToken_def stmt_def q_createSession_def token_text Let_def)

lemma ChannelForUser_present:
  assumes "account_inv d" "u \<in> set (users d)"
  obtains ch where "ChannelForUser NetOk (u_id u) d = Inr ch" "c_user_id ch = u_id u"
proof -
  have "(u_id u, u_username u) \<in> (\<lambda>c. (c_user_id c, c_name c)) ` set (channels d)" using assms unfolding account_inv_def by auto
  then obtain ch where ch: "ch \<in> set (channels d)" "c_user_id ch = u_id u" by auto
  have "distinct (map c_user_id (channels d))" using assms by (simp add: account_inv_def db_inv_def)
  from find_distinct [OF this ch(1)] ch(2) have "ChannelForUser NetOk (u_id u) d = Inr ch"
    by (simp add: ChannelForUser_def stmt_def q_getChannelByUserID_def one_row_def)
  then show ?thesis using ch(2) that by blast
qed

lemma jar_after_login:
  assumes "rq_method r = ''POST''" "0 \<le> age"
  shows "jar_update (http_Redirect BText r url 303 (setSessionCookie tok sec age (start_writer env q d))) jar SessionCookieName = Some tok"
  using assms
  by (simp add: jar_update_def headers_def http_Redirect_def Let_def sent_WriteHeader setHeader_def setSessionCookie_def
      addHeader_def start_writer_def clearSessionCookie_def newWriter_def)

lemma session_of_token:
  assumes inv: "db_inv d" and u: "u \<in> set (users d)" and new: "b64url rnd \<notin> s_id ` set (sessions d)"
    and d': "d' = d\<lparr>sessions := sessions d @ [\<lparr>s_id = b64url rnd, s_user_id = u_id u, s_expires = ex, s_created = cr\<rparr>]\<rparr>"
    and t: "to_ts t < ex"
  shows "SessionUser NetOk (b64url rnd) t d' = Inr u"
proof -
  define x where "x = \<lparr>s_id = b64url rnd, s_user_id = u_id u, s_expires = ex, s_created = cr\<rparr>"
  have "db_inv d'" using inv u new by (auto simp: d' db_inv_def)
  moreover have "x \<in> set (sessions d')" "u \<in> set (users d')" "s_user_id x = u_id u" "text_ok (s_id x)"
    using u by (simp_all add: x_def d' token_text)
  ultimately show ?thesis using SessionUser_present [of d' x u t] t by (simp add: x_def)
qed

text \<open>
  C12: logging in leads to one's own dashboard.  If the credentials are accepted and the token is
  new, \<open>POST /login\<close> redirects to the dashboard, whatever stale session cookie the browser sent
  along; and the browser's next \<open>GET /dashboard\<close> before the session expires, with the cookies it
  then holds, shows that user the user's own channel.
\<close>

theorem login_reaches_dashboard:
  assumes inv: "account_inv (sdb (a_streams a))" and pages: "LoadTemplates parses = Inr (wc_pages c)"
    and r: "rq_method r = ''POST''" "rq_segs r = [''login'']" "rq_form r = Some f"
    and guest: "session_user (ae_req env) r (sdb (a_streams a)) = None"
    and cred: "Login (wc_bcrypt c) (e_net1 (ae_req env)) (form_Get f ''username'') (form_Get f ''password'') (sdb (a_streams a)) = Inr u"
    and tok: "e_rnd (ae_req env) = Some rnd" "length rnd = 32" "b64url rnd \<notin> s_id ` set (sessions (sdb (a_streams a)))"
    and net: "e_net2 (ae_req env) = NetOk" and age: "0 \<le> cookieMaxAge (wc_sessionTTL c)"
    and s: "web_serve c env r a = Inr (w, a1)"
    and r': "rq_method r' = ''GET''" "rq_segs r' = [''dashboard'']"
      "r_Cookie SessionCookieName r' = jar_update w jar SessionCookieName"
    and env': "e_netSession (ae_req env') = NetOk" "e_net1 (ae_req env') = NetOk"
      "to_ts (e_now (ae_req env')) < to_ts (e_now (ae_req env) + wc_sessionTTL c)"
  shows "status w = 303 \<and> Location ''/dashboard'' \<in> set (headers w) \<and>
    (\<exists>w' ch. web_serve c env' r' a1 = Inr (w', a1) \<and> status w' = 200 \<and>
       body w' = [BPage (Some u) (PgDashboard ch)] \<and> c_user_id ch = u_id u)"
proof -
  let ?d = "sdb (a_streams a)" and ?r = "r\<lparr>rq_user := None :: User option\<rparr>"
  let ?w = "setSessionCookie (b64url rnd) (wc_secure c) (cookieMaxAge (wc_sessionTTL c)) (start_writer (ae_req env) r (sdb (a_streams a)))"
  define d1 where "d1 = ?d\<lparr>sessions := sessions ?d @ [\<lparr>s_id = b64url rnd, s_user_id = u_id u,
      s_expires = to_ts (e_now (ae_req env) + wc_sessionTTL c), s_created = to_ts (e_now (ae_req env))\<rparr>]\<rparr>"
  have u: "u \<in> set (users ?d)" by (rule Login_user [OF cred])
  have dbi: "db_inv ?d" using inv by (simp add: account_inv_def)
  have "mux_serve c env a ?r (start_writer (ae_req env) r ?d) ?d = (http_Redirect BText ?r ''/dashboard'' 303 ?w, d1)"
    using r cred tok(1) net CreateSession_new [OF u tok(3)]
    by (simp add: mux_serve_def login_route RequireGuest_def UserFromContext_def h_login_def d1_def)
  then have w: "w = http_Redirect BText ?r ''/dashboard'' 303 ?w" "sdb (a_streams a1) = d1"
    using web_serve_mux [OF s] by (simp_all add: guest)
  have "sent ?w = None" by (simp add: setSessionCookie_def)
  then have "status w = 303 \<and> Location ''/dashboard'' \<in> set (headers w)" unfolding w(1) by (rule Redirect_first)
  moreover have "r_Cookie SessionCookieName r' = Some (b64url rnd)"
    using r'(3) jar_after_login [of ?r] r(1) age by (simp add: w(1))
  moreover have "b64url rnd \<noteq> []" using b64url_length [of rnd] tok(2) by auto
  ultimately have u': "session_user (ae_req env') r' (sdb (a_streams a1)) = Some u"
    using session_of_token [OF dbi u tok(3) d1_def env'(3)] env'(1) by (simp add: session_user_def w(2))
  have acc: "account_inv d1" using account_inv_updates(1) [OF inv, of NetOk "b64url rnd" "u_id u"] CreateSession_new [OF u tok(3)]
    inv u tok(3) by (auto simp: account_inv_def d1_def db_inv_def)
  then obtain ch where ch: "ChannelForUser NetOk (u_id u) d1 = Inr ch" "c_user_id ch = u_id u"
    using ChannelForUser_present [of d1 u] u by (auto simp: d1_def)
  have "\<exists>w'. web_serve c env' r' a1 = Inr (w', a1) \<and> status w' = 200 \<and>
      body w' = [BPage (session_user (ae_req env') r' (sdb (a_streams a1))) (PgDashboard ch)]"
    by (rule serve_page [OF _ pages, where w = "start_writer (ae_req env') r' (sdb (a_streams a1))"])
       (simp_all add: mux_serve_def dashboard_route [OF r'(1,2)] RequireAuth_def UserFromContext_def h_dashboard_def u' [unfolded w(2)] env'(2) ch w(2))
  then show ?thesis using \<open>status w = 303 \<and> _\<close> u' ch(2) by auto
qed

lemma dur_Seconds_nonneg: "0 \<le> d \<Longrightarrow> 0 \<le> dur_Seconds d"
proof -
  assume d: "0 \<le> d"
  then have "0 \<le> d - d div 1000000000 * 1000000000" by (simp add: minus_div_mult_eq_mod)
  with d show ?thesis by (simp add: dur_Seconds_def Let_def f64_nonneg pos_imp_zdiv_nonneg_iff)
qed

theorem login_reaches_dashboard_witness:
  "\<exists>w a1 w'. web_serve demo_ctx (demo_app_env 6000)
       (demo_request ''POST'' [''login''] [] [(''username'', ''alice''), (''password'', ''password1'')]) demo_app = Inr (w, a1) \<and>
     web_serve demo_ctx (demo_app_env 9000)
       (demo_request ''GET'' [''dashboard''] [(SessionCookieName, b64url (replicate 32 CHR ''t''))] []) a1 = Inr (w', a1) \<and>
     status w' = 200"
proof -
  let ?f = "[(''username'', ''alice''), (''password'', ''password1'')]"
  let ?r = "demo_request ''POST'' [''login''] [] ?f"
  let ?r' = "demo_request ''GET'' [''dashboard''] [(SessionCookieName, b64url (replicate 32 CHR ''t''))] []"
  let ?env = "demo_app_env 6000"
  let ?u = "newUser emptyDB ''alice'' ''a@b'' ''spassword1'' 5000"
  have d: "sdb (a_streams demo_app) = alice_db" by (simp add: demo_app_def stream_NewService_def)
  have inv: "account_inv (sdb (a_streams demo_app))" using alice_db_inv by (simp add: d)
  have pg: "LoadTemplates (\<lambda>_. True) = Inr (wc_pages demo_ctx)" by (simp add: LoadTemplates_def demo_ctx_def pageNames_def)
  have "text_ok ''alice''" by (rule text_ok_ascii) auto
  then have cred: "Login (wc_bcrypt demo_ctx) (e_net1 (ae_req ?env)) (form_Get ?f ''username'') (form_Get ?f ''password'')
      (sdb (a_streams demo_app)) = Inr ?u"
    by (simp add: Login_def stmt_def q_getUserByUsername_def one_row_def verifyPassword_def demo_ctx_def demo_bcrypt_def
        demo_app_env_def demo_req_env_def form_Get_def d alice_db_def withAccount_def emptyDB_def newUser_def)
  have env: "e_rnd (ae_req ?env) = Some (replicate 32 CHR ''t'')" "e_net2 (ae_req ?env) = NetOk"
    "e_netSession (ae_req (demo_app_env 9000)) = NetOk" "e_net1 (ae_req (demo_app_env 9000)) = NetOk"
    "to_ts (e_now (ae_req (demo_app_env 9000))) < to_ts (e_now (ae_req ?env) + wc_sessionTTL demo_ctx)"
    by (simp_all add: demo_app_env_def demo_req_env_def demo_ctx_def to_ts_def)
  have len: "length (replicate 32 CHR ''t'') = 32" by simp
  have new: "b64url (replicate 32 CHR ''t'') \<notin> s_id ` set (sessions (sdb (a_streams demo_app)))"
    by (simp add: d alice_db_def withAccount_def emptyDB_def)
  have age: "0 \<le> cookieMaxAge (wc_sessionTTL demo_ctx)"
    using dur_Seconds_nonneg [of "wc_sessionTTL demo_ctx"] by (simp add: cookieMaxAge_def Let_def demo_ctx_def)
  define w where "w = http_Redirect BText ?r ''/dashboard'' 303
      (setSessionCookie (b64url (replicate 32 CHR ''t'')) True (cookieMaxAge (wc_sessionTTL demo_ctx)) newWriter)"
  have "?u \<in> set (users (sdb (a_streams demo_app)))" by (rule Login_user [OF cred])
  note cs = CreateSession_new [OF this new]
  have "mux_dispatch routes ?r = Handler RLogin []" by (rule login_route) simp_all
  then obtain d1 where "mux_serve demo_ctx ?env demo_app ?r newWriter (sdb (a_streams demo_app)) = (w, d1)"
    using cred env(1,2) cs by (simp add: mux_serve_def RequireGuest_def UserFromContext_def h_login_def w_def)
       (simp add: demo_ctx_def)
  moreover have "upgrade_of (body w) = None" unfolding w_def by (rule upgrade_Redirect) (simp add: newWriter_def)
  ultimately obtain a1 where s: "web_serve demo_ctx ?env ?r demo_app = Inr (w, a1)"
    using web_serve_intro [of demo_ctx ?env demo_app ?r w d1] by simp
  have "jar_update w Map.empty SessionCookieName = Some (b64url (replicate 32 CHR ''t''))"
    using jar_after_login [of ?r "cookieMaxAge (wc_sessionTTL demo_ctx)" "''/dashboard''" _ True "ae_req ?env" ?r "sdb (a_streams demo_app)"] age
    by (simp add: w_def)
  then have jar: "r_Cookie SessionCookieName ?r' = jar_update w Map.empty SessionCookieName" by (simp add: r_Cookie_def demo_request_def)
  have rr: "rq_method ?r = ''POST''" "rq_segs ?r = [''login'']" "rq_form ?r = Some ?f"
    "session_user (ae_req ?env) ?r (sdb (a_streams demo_app)) = None" "rq_method ?r' = ''GET''" "rq_segs ?r' = [''dashboard'']" by simp_all
  from login_reaches_dashboard [OF inv pg rr(1-4) cred env(1) len new env(2) age s rr(5,6) jar env(3-5)] s show ?thesis by blast
qed

end
