(* ===== verification/Web_Steps.thy ===== *)
theory Web_Steps
  imports Web_Calls Web_Pages
begin

text \<open>
  Requests call by call: undisturbed, they are the requests of \<open>Web\<close>; in any interleaving a
  handler changes only the channel of its session user and enters the chat only as that user.
\<close>

section \<open>A request on its own\<close>

text \<open>Every handler makes finitely many calls, whatever the answers are.\<close>

definition next_prog :: "prog \<Rightarrow> prog \<Rightarrow> bool" where
  "next_prog q p \<longleftrightarrow> (\<forall>w. p \<noteq> Reply w) \<and> (\<exists>c env a. q = fst (call c env p a))"

lemma fst_on_db: "fst (on_db f k a) = k (fst (f (sdb (a_streams a))))"
  by (simp add: on_db_def split: prod.split)

lemma next_prog_induct:
  assumes "\<And>p. (\<And>q. next_prog q p \<Longrightarrow> P q) \<Longrightarrow> P p"
  shows "P p"
proof (induction p)
  case (Reply w)
  show ?case by (rule assms) (simp add: next_prog_def)
qed (rule assms, auto simp: next_prog_def fst_on_db)+

lemma wf_next_prog: "wfp next_prog"
  by (rule wfpUNIVI) (blast intro: next_prog_induct)

function run_prog :: "web_ctx \<Rightarrow> app_env \<Rightarrow> prog \<Rightarrow> app \<Rightarrow> web_response \<times> app" where
  "run_prog c env (Reply w) a = (w, a)"
| "\<forall>w. p \<noteq> Reply w \<Longrightarrow>
   run_prog c env p a = (let (q, a1) = call c env p a in run_prog c env q a1)"
  by (metis prod_cases4, auto)

termination
proof (relation "{((c', e', q, a'), (c, e, p, a)). next_prog q p}")
  show "wf {((c', e', q, a'), (c, e, p, a)). next_prog q p}"
    using wf_inv_image [OF wf_next_prog [unfolded wfp_def], of "\<lambda>(c, e, p, a). p"]
    by (rule wf_subset) (auto simp: inv_image_def)
qed (auto simp: next_prog_def, metis fst_conv)

definition run_pending :: "web_ctx \<Rightarrow> app_env \<Rightarrow> pending \<times> app \<Rightarrow> web_response \<times> app" where
  "run_pending c env x =
     (case x of
        (Running r p, a) \<Rightarrow> run_prog c env p a
      | (Authenticating r tok, a) \<Rightarrow>
          (case advance c env x of (Running r1 p, a1) \<Rightarrow> run_prog c env p a1 | (Authenticating _ _, a1) \<Rightarrow> (newWriter, a1)))"

text \<open>The effect of a handler on the tables, as an effect on the services.\<close>

definition on_app :: "(db \<Rightarrow> web_response \<times> db) \<Rightarrow> app \<Rightarrow> web_response \<times> app" where
  "on_app h a = (let (w, d) = h (sdb (a_streams a)) in (w, a\<lparr>a_streams := (a_streams a)\<lparr>sdb := d\<rparr>\<rparr>))"

lemma on_app_same [simp]: "on_app (\<lambda>d. (w, d)) a = (w, a)"
  by (simp add: on_app_def)

lemma run_signup: "run_prog c env (p_signup c r w) a = on_app (h_signup c (ae_req env) r w) a"
  by (simp add: p_signup_def h_signup_def on_app_def on_db_def Let_def split: option.split prod.split sum.split)

lemma run_login: "run_prog c env (p_login c r w) a = on_app (h_login c (ae_req env) r w) a"
  by (simp add: p_login_def h_login_def on_app_def on_db_def Let_def split: option.split prod.split sum.split)

lemma run_logout: "run_prog c env (p_logout c r w) a = on_app (h_logout c (ae_req env) r w) a"
  by (simp add: p_logout_def h_logout_def on_app_def on_db_def Let_def split: option.split prod.split)

lemma run_cards:
  "run_prog c env (p_cards chs cards k) a
   = run_prog c env (k (cards @ liveCards chs (\<lambda>nm. ViewerCount nm (world_of (a_chat a))))) a"
  by (induction chs arbitrary: cards) (simp_all add: liveCards_def)

lemma run_home:
  "run_prog c env (p_home c r w) a
   = on_app (h_home c (ListLive (ae_names env) (a_streams a)) (\<lambda>nm. ViewerCount nm (world_of (a_chat a))) r w) a"
  by (simp add: p_home_def h_home_def run_cards on_app_def)

lemma run_anon:
  "run_prog c env (p_anon r w k) a
   = (let (i, w1) = ensureAnonCookie (ae_req env) r w in run_prog c env (k i w1) a)"
  by (simp add: p_anon_def ensureAnonCookie_def Let_def split: option.split list.split)

lemma run_watch:
  "run_prog c env (p_watch c nm r w) a = on_app (h_watch c (ae_req env) (\<lambda>nm. GetByName nm (a_streams a)) nm r w) a"
  by (auto simp: p_watch_def h_watch_def on_app_def run_anon Let_def split: prod.split sum.split)

lemma run_dashboard: "run_prog c env (p_dashboard c r w) a = on_app (h_dashboard c (ae_req env) r w) a"
  by (simp add: p_dashboard_def h_dashboard_def on_app_def split: option.split sum.split)

lemma run_updateTitle: "run_prog c env (p_updateTitle c r w) a = on_app (h_updateTitle c (ae_req env) r w) a"
  by (simp add: p_updateTitle_def h_updateTitle_def on_app_def on_db_def Let_def split: option.split prod.split sum.split)

lemma run_regenerateKey: "run_prog c env (p_regenerateKey c r w) a = on_app (h_regenerateKey c (ae_req env) r w) a"
  by (simp add: p_regenerateKey_def h_regenerateKey_def on_app_def on_db_def Let_def split: option.split prod.split sum.split)

lemma run_chatWS: "run_prog c env (p_chatWS nm r w) a = on_app (h_chatWS (ae_req env) nm r w) a"
  by (auto simp: p_chatWS_def h_chatWS_def on_app_def run_anon Let_def split: option.split prod.split sum.split)

lemma run_healthz: "run_prog c env (p_healthz r w) a = on_app (h_healthz (fst (ae_ping env)) (snd (ae_ping env)) r w) a"
  by (simp add: p_healthz_def h_healthz_def on_app_def split: prod.split)

lemmas run_handlers = run_signup run_login run_logout run_home run_watch run_dashboard run_updateTitle
  run_regenerateKey run_chatWS run_healthz

lemma run_route: "run_prog c env (p_route c rt vs r w) a = on_app (route_handler c env a rt vs r w) a"
  by (cases rt)
     (auto simp: p_RequireAuth_def p_RequireGuest_def RequireAuth_def RequireGuest_def run_handlers p_page_def
       h_signupForm_def h_loginForm_def h_hls_def on_app_def)

lemma run_mux: "run_prog c env (p_mux c r w) a = on_app (mux_serve c env a r w) a"
  by (cases "mux_dispatch routes r") (simp_all add: p_mux_def mux_serve_def run_route on_app_def)

text \<open>
  Taking a handler apart changes nothing as long as nobody interferes.  The calls of a
  request, made one after the other, give the response, the tables and the chat connection that
  \<open>web_serve\<close> describes as one step; so what is proved of \<open>web_serve\<close> holds of a request whose
  calls no other goroutine separates.
\<close>

theorem undisturbed_request:
  "web_serve c env r a =
     (let (w, a1) = run_pending c env (accept_request c r, a)
      in bindE (respond env w a1) (\<lambda>a2. Inr (w, a2)))"
proof -
  have mux: "run_prog c env (p_mux c q w) a = on_app (mux_serve c env a q w) a" for q w by (rule run_mux)
  have "run_pending c env (accept_request c r, a)
      = on_app (Middleware (ae_req env) (mux_serve c env a) (r\<lparr>rq_user := None\<rparr>) newWriter) a"
    by (auto simp: run_pending_def accept_request_def advance_def Middleware_def mux on_app_def Let_def
        split: option.split sum.split)
  then show ?thesis
    by (auto simp: web_serve_def on_app_def respond_def bindE_def Let_def split: prod.split option.split sum.split)
qed

section \<open>What a handler may do\<close>

text \<open>
  \<open>obeys u p S\<close>: a handler that runs for the session user \<open>u\<close> and has been told the channels \<open>S\<close>
  changes only channels of \<open>S\<close>, asks only for the channel of \<open>u\<close>, and enters the chat only under
  the identity of \<open>u\<close>, whatever the answers to its calls are.
\<close>

definition reply_ok :: "User option \<Rightarrow> web_response \<Rightarrow> bool" where
  "reply_ok u w \<longleftrightarrow>
     (case upgrade_of (body w) of
        None \<Rightarrow> True
      | Some (ch, un, uid, ak) \<Rightarrow>
          (case u of None \<Rightarrow> un = '''' \<and> uid = 0 | Some v \<Rightarrow> un = u_username v \<and> uid = u_id v))"

primrec obeys :: "User option \<Rightarrow> prog \<Rightarrow> int set \<Rightarrow> bool" where
  "obeys u (Reply w) = (\<lambda>S. reply_ok u w)"
| "obeys u (CallSignup un em pw k) = (\<lambda>S. \<forall>x. obeys u (k x) S)"
| "obeys u (CallLogin un pw k) = (\<lambda>S. \<forall>x. obeys u (k x) S)"
| "obeys u (CallCreateSession i k) = (\<lambda>S. \<forall>x. obeys u (k x) S)"
| "obeys u (CallLogout tok p) = (\<lambda>S. obeys u p S)"
| "obeys u (CallChannelForUser i k) =
     (\<lambda>S. map_option u_id u = Some i \<and>
        (\<forall>x. obeys u (k x) (case x of Inl _ \<Rightarrow> S | Inr ch \<Rightarrow> insert (c_id ch) S)))"
| "obeys u (CallChannelByName nm k) = (\<lambda>S. \<forall>x. obeys u (k x) S)"
| "obeys u (CallTitle i t k) = (\<lambda>S. i \<in> S \<and> (\<forall>x. obeys u (k x) S))"
| "obeys u (CallRegenerate i k) = (\<lambda>S. i \<in> S \<and> (\<forall>x. obeys u (k x) S))"
| "obeys u (CallListLive k) = (\<lambda>S. \<forall>x. obeys u (k x) S)"
| "obeys u (CallGetByName nm k) = (\<lambda>S. \<forall>x. obeys u (k x) S)"
| "obeys u (CallViewerCount nm k) = (\<lambda>S. \<forall>x. obeys u (k x) S)"
| "obeys u (CallPing k) = (\<lambda>S. \<forall>x. obeys u (k x) S)"
| "obeys u (CallRand k) = (\<lambda>S. \<forall>x. obeys u (k x) S)"

lemma upgrade_page: "body w = [] \<Longrightarrow> upgrade_of (body (snd (Render pages r pg w))) = None"
  using body_Render [of pages r pg w] by auto

lemma reply_ok_text [simp]:
  "body w = [] \<Longrightarrow> reply_ok u (http_Error BText msg code w)"
  "body w = [] \<Longrightarrow> reply_ok u (http_NotFound BText w)"
  "body w = [] \<Longrightarrow> reply_ok u (http_Redirect BText r url code w)"
  "body w = [] \<Longrightarrow> reply_ok u (snd (Render pages r pg w))"
  "body w = [] \<Longrightarrow> reply_ok u (w_Write (BText t) w)"
  "body w = [] \<Longrightarrow> reply_ok u (w_Write (BFile p) w)"
  "body w = [] \<Longrightarrow> reply_ok u (w_Write BPanic w)"
  "body w = [] \<Longrightarrow> reply_ok None (w_Write (BUpgrade ch '''' 0 ak) w)"
  "body w = [] \<Longrightarrow> reply_ok (Some v) (w_Write (BUpgrade ch (u_username v) (u_id v) ak) w)"
  by (simp_all add: reply_ok_def upgrade_Redirect upgrade_page)

lemma obeys_cards: "(\<And>cards. obeys u (k cards) S) \<Longrightarrow> obeys u (p_cards chs cards k) S"
  by (induction chs arbitrary: cards) simp_all

lemma obeys_anon:
  "body w = [] \<Longrightarrow> (\<And>i w1. body w1 = [] \<Longrightarrow> obeys u (k i w1) S) \<Longrightarrow> obeys u (p_anon r w k) S"
  by (simp add: p_anon_def Let_def split: option.split list.split)

lemma obeys_handlers:
  assumes "body w = []"
  shows "obeys u (p_signup c r w) {}" "obeys u (p_login c r w) {}" "obeys u (p_logout c r w) {}"
    "obeys u (p_home c r w) {}" "obeys u (p_watch c nm r w) {}" "obeys u (p_healthz r w) {}"
    "obeys u (p_page (h_signupForm c) r w) {}" "obeys u (p_page (h_loginForm c) r w) {}" "obeys u (p_page (h_hls c) r w) {}"
    "obeys (rq_user r) (p_chatWS nm r w) {}"
  using assms
  by (auto simp: p_signup_def p_login_def p_logout_def p_home_def p_watch_def p_healthz_def p_page_def p_chatWS_def
      h_signupForm_def h_loginForm_def h_hls_def UserFromContext_def Let_def
      intro!: obeys_cards obeys_anon split: option.split sum.split)

lemma obeys_owner_handlers:
  assumes "body w = []" "rq_user r = Some v"
  shows "obeys (Some v) (p_dashboard c r w) {}" "obeys (Some v) (p_updateTitle c r w) {}"
    "obeys (Some v) (p_regenerateKey c r w) {}"
  using assms
  by (auto simp: p_dashboard_def p_updateTitle_def p_regenerateKey_def UserFromContext_def split: option.split sum.split)

lemma obeys_mux:
  assumes "body w = []"
  shows "obeys (rq_user r) (p_mux c r w) {}"
proof -
  have "obeys (rq_user r) (p_route c rt vs r w) {}" for rt vs
    by (cases rt; cases "rq_user r") (use obeys_handlers [OF assms] obeys_handlers(10) [OF assms, where r = r] obeys_owner_handlers [OF assms] assms
      in \<open>auto simp: p_RequireAuth_def p_RequireGuest_def UserFromContext_def\<close>)
  then show ?thesis using assms by (simp add: p_mux_def split: muxResult.split)
qed

section \<open>Calls on the tables\<close>

text \<open>Every call changes the tables by at most one operation of the auth service.\<close>

lemma snd_on_db: "snd (on_db f k a) = a\<lparr>a_streams := (a_streams a)\<lparr>sdb := snd (f (sdb (a_streams a)))\<rparr>\<rparr>"
  by (simp add: on_db_def split: prod.split)

lemma call_op:
  obtains "snd (call c env p a) = a"
  | op where "snd (call c env p a) = a\<lparr>a_streams := (a_streams a)\<lparr>sdb :=
      auth_exec (wc_bcrypt c) (wc_parse c) op (sdb (a_streams a))\<rparr>\<rparr>"
proof (cases p)
  case (CallSignup un em pw k)
  then show ?thesis using that(2) [of "OpSignup (e_signup (ae_req env)) un em pw"] by (simp add: snd_on_db)
next
  case (CallCreateSession i k)
  then show ?thesis
    using that(2) [of "OpCreateSession (e_rnd (ae_req env)) (e_net2 (ae_req env)) (wc_sessionTTL c) (e_now (ae_req env)) i"]
    by (simp add: snd_on_db)
next
  case (CallLogout tok q)
  then show ?thesis using that(2) [of "OpLogout (e_net1 (ae_req env)) tok"] by (simp add: snd_on_db)
next
  case (CallTitle i t k)
  then show ?thesis using that(2) [of "OpTitle (e_net2 (ae_req env)) i t"] by (simp add: snd_on_db)
next
  case (CallRegenerate i k)
  then show ?thesis
    using that(2) [of "OpRegenerate (e_rnd (ae_req env)) (e_net2 (ae_req env)) i"] by (simp add: snd_on_db)
qed (use that(1) in auto)

lemma advance_op:
  obtains "snd (advance c env (x, a)) = a"
  | op where "snd (advance c env (x, a)) = a\<lparr>a_streams := (a_streams a)\<lparr>sdb :=
      auth_exec (wc_bcrypt c) (wc_parse c) op (sdb (a_streams a))\<rparr>\<rparr>"
proof (cases x)
  case (Authenticating r tok)
  then show ?thesis using that(1) by (auto simp: advance_def Let_def split: sum.splits)
next
  case (Running r p)
  then have "snd (advance c env (x, a)) = snd (call c env p a)" by (simp add: advance_def split: prod.split)
  then show ?thesis using call_op [of c env p a thesis] that by simp
qed

text \<open>Which channels a call can change.\<close>

lemma call_channels:
  assumes inv: "db_inv (sdb (a_streams a))" and ch: "ch \<in> set (channels (sdb (a_streams a)))"
    and gone: "ch \<notin> set (channels (sdb (a_streams (snd (call c env p a)))))"
  shows "(\<exists>t k. p = CallTitle (c_id ch) t k) \<or> (\<exists>k. p = CallRegenerate (c_id ch) k)"
proof -
  let ?d = "sdb (a_streams a)"
  have upd: "c_id ch = i" if "channels d' = channels ?d \<or> (\<exists>f. channels d' = map (\<lambda>x. if c_id x = i then f x else x) (channels ?d))"
    "ch \<notin> set (channels d')" for d' i
    using that ch by (auto split: if_splits)
  show ?thesis
  proof (cases p)
    case (CallSignup un em pw k)
    then show ?thesis using gone subsetD [OF Signup_keeps ch] by (auto simp: snd_on_db)
  next
    case (CallTitle i t k)
    then show ?thesis using gone upd [OF channels_updates(1)] by (simp add: snd_on_db)
  next
    case (CallRegenerate i k)
    then show ?thesis using gone upd [OF channels_updates(2)] by (simp add: snd_on_db)
  next
    case (CallCreateSession i k)
    then show ?thesis using gone ch channels_CreateSession by (auto simp: snd_on_db)
  next
    case (CallLogout tok q)
    then show ?thesis using gone ch channels_Logout by (auto simp: snd_on_db)
  qed (use gone ch in auto)
qed

section \<open>What holds of a request in flight\<close>

definition chan_owner :: "db \<Rightarrow> int \<Rightarrow> int \<Rightarrow> bool" where
  "chan_owner d i uid \<longleftrightarrow> (\<exists>ch\<in>set (channels d). c_id ch = i \<and> c_user_id ch = uid)"

fun request_ok :: "db \<Rightarrow> pending \<Rightarrow> bool" where
  "request_ok d (Authenticating r tok) \<longleftrightarrow> rq_user r = None \<and> r_Cookie SessionCookieName r = Some tok"
| "request_ok d (Running r p) \<longleftrightarrow>
     (\<forall>u. rq_user r = Some u \<longrightarrow> u \<in> set (users d) \<and> r_Cookie SessionCookieName r \<noteq> None) \<and>
     (\<exists>S. obeys (rq_user r) p S \<and> (\<forall>i\<in>S. \<exists>u. rq_user r = Some u \<and> chan_owner d i (u_id u)))"

text \<open>The tables only gain users, and channels keep their owners.\<close>

definition tables_grow :: "db \<Rightarrow> db \<Rightarrow> bool" where
  "tables_grow d d' \<longleftrightarrow> set (users d) \<subseteq> set (users d') \<and> (\<forall>i uid. chan_owner d i uid \<longrightarrow> chan_owner d' i uid)"

lemma tables_grow_refl [simp]: "tables_grow d d"
  by (simp add: tables_grow_def)

lemma request_ok_grow: "request_ok d x \<Longrightarrow> tables_grow d d' \<Longrightarrow> request_ok d' x"
  by (cases x) (auto simp: tables_grow_def, blast)

lemma chan_owner_map:
  "(\<And>ch. c_id (g ch) = c_id ch) \<Longrightarrow> (\<And>ch. c_user_id (g ch) = c_user_id ch) \<Longrightarrow>
   chan_owner (d\<lparr>channels := map g (channels d)\<rparr>) i uid = chan_owner d i uid"
  by (auto simp: chan_owner_def)

lemma chan_owner_sessions: "chan_owner (d\<lparr>sessions := ss\<rparr>) i uid = chan_owner d i uid"
  by (simp add: chan_owner_def)

lemma auth_exec_users: "set (users d) \<subseteq> set (users (auth_exec bc pa op d))"
proof (cases op)
  case (OpSignup se un em pw)
  obtain r d' where s: "Signup bc pa se un em pw d = (r, d')" by fastforce
  from Signup_cases [OF s] show ?thesis by (auto simp: OpSignup s same_tables_def withAccount_def)
qed (auto simp: auth_op_defs split: net.split option.split prod.split)

lemma auth_exec_owner: "chan_owner d i uid \<Longrightarrow> chan_owner (auth_exec bc pa op d) i uid"
proof (cases op)
  case (OpSignup env un em pw)
  assume k: "chan_owner d i uid"
  obtain r d' where s: "Signup bc pa env un em pw d = (r, d')" by fastforce
  from Signup_cases [OF s] k show ?thesis by (auto simp: OpSignup s same_tables_def withAccount_def chan_owner_def)
qed (auto simp: auth_op_defs chan_owner_map chan_owner_sessions split: option.split sum.split prod.split net.split)

lemma auth_exec_grow: "tables_grow d (auth_exec bc pa op d)"
  by (simp add: tables_grow_def auth_exec_users auth_exec_owner)

lemma stream_tables_frame:
  "users (snd (stmt n (q_createStreamSession c t) d)) = users d"
  "channels (snd (stmt n (q_createStreamSession c t) d)) = channels d"
  "users (snd (stmt n (q_endStreamSession r t q) d)) = users d"
  "channels (snd (stmt n (q_endStreamSession r t q) d)) = channels d"
  by (cases n; simp add: stmt_def)+

lemma step_grow: "tables_grow (sdb s) (sdb (stream_step deps e s))"
  by (rule step_db [of deps e s])
     (simp_all add: auth_exec_grow, simp_all add: tables_grow_def stream_tables_frame chan_owner_def)

lemma step_channels: "\<forall>op. e \<noteq> Account op \<Longrightarrow> channels (sdb (stream_step deps e s)) = channels (sdb s)"
  by (rule step_db [of deps e s]) (simp_all add: stream_tables_frame)

lemma advance_grow: "tables_grow (sdb (a_streams a)) (sdb (a_streams (snd (advance c env (x, a)))))"
  by (rule advance_op [of c env x a]) (simp_all add: auth_exec_grow)

lemma join_rows_user: "x \<in> set (join_rows ss us) \<Longrightarrow> row_user x \<in> set us"
  by (induction ss) auto

lemma SessionUser_user: "SessionUser n tok now d = Inr u \<Longrightarrow> u \<in> set (users d)"
  by (auto simp: SessionUser_def stmt_def q_getSessionWithUser_def one_row_def find_Some_iff
      split: net.splits sum.splits option.splits if_splits dest!: nth_mem join_rows_user)

text \<open>A call keeps its handler within what it may do.\<close>

lemma call_obeys:
  assumes o: "obeys u p S" and S: "\<forall>i\<in>S. \<exists>v. u = Some v \<and> chan_owner (sdb (a_streams a)) i (u_id v)"
  shows "\<exists>S'. obeys u (fst (call c env p a)) S' \<and>
    (\<forall>i\<in>S'. \<exists>v. u = Some v \<and> chan_owner (sdb (a_streams a)) i (u_id v))"
proof (cases p)
  case (CallChannelForUser uid k)
  let ?res = "ChannelForUser (e_net1 (ae_req env)) uid (sdb (a_streams a))"
  from o obtain v where v: "u = Some v" "uid = u_id v" by (auto simp: CallChannelForUser)
  show ?thesis
  proof (cases ?res)
    case (Inl e)
    then show ?thesis using o S by (intro exI [of _ S]) (auto simp: CallChannelForUser dest: spec [of _ ?res])
  next
    case (Inr ch)
    have "chan_owner (sdb (a_streams a)) (c_id ch) uid" using ChannelForUser_owner [OF Inr] by (auto simp: chan_owner_def)
    then show ?thesis using o S v Inr
      by (intro exI [of _ "insert (c_id ch) S"]) (auto simp: CallChannelForUser dest: spec [of _ ?res])
  qed
next
  case (CallPing k)
  then have "obeys u (k (ae_ping env)) S" using o by (metis obeys.simps(13))
  then show ?thesis using S by (auto simp: CallPing)
qed (use o S in \<open>auto simp: fst_on_db intro!: exI [of _ S]\<close>)

lemma accept_ok: "request_ok d (accept_request c r)"
  using obeys_mux [of newWriter "r\<lparr>rq_user := None\<rparr>" c]
  by (auto simp: accept_request_def Let_def newWriter_def split: option.split)

lemma advance_ok:
  assumes "request_ok (sdb (a_streams a)) x"
  shows "request_ok (sdb (a_streams a)) (fst (advance c env (x, a)))"
proof (cases x)
  case (Authenticating r tok)
  have clear: "body (clearSessionCookie False newWriter :: web_response) = []" by (simp add: newWriter_def)
  show ?thesis
  proof (cases "SessionUser (e_netSession (ae_req env)) tok (e_now (ae_req env)) (sdb (a_streams a))")
    case (Inl e)
    then show ?thesis using assms Authenticating obeys_mux [OF clear, of r c] by (auto simp: advance_def)
  next
    case (Inr u)
    then show ?thesis using assms Authenticating SessionUser_user [OF Inr] obeys_mux [of newWriter "r\<lparr>rq_user := Some u\<rparr>" c]
      by (auto simp: advance_def Let_def newWriter_def)
  qed
next
  case (Running r p)
  then show ?thesis using assms call_obeys [of "rq_user r" p _ a c env] by (auto simp: advance_def split: prod.split)
qed

end
