(* ===== verification/Server.thy ===== *)
theory Server
  imports Config Web_Steps Chat_Messages
begin

text \<open>
  \<open>cmd/chtiwt/main.go\<close>: the whole process.  \<open>boot\<close> is \<open>run\<close> up to the point where the two
  servers listen; \<open>server_step\<close> is everything after it: the moves of the components (one call of
  one of the requests in flight, a move of the stream service, a move of the chat service) in any
  interleaving, and the moves of \<open>run\<close> itself, the \<open>select\<close> and the shutdown sequence behind it.
  A panic outside a request handler ends the process and is the left value.
\<close>

section \<open>Boot\<close>

datatype run_error =
    LoadConfigFailed config_error
  | MigrateFailed migrate_error
  | OpenFailed open_error
  | RecoverFailed recover_error
  | TemplatesFailed string
  | HttpServerFailed
  | RtmpServerFailed rtmp_error
  | HttpShutdownFailed

text \<open>What packages outside the repository decide, once for the process and once for each boot.\<close>

record deps =
  dp_stream :: stream_deps
  dp_unmarshal :: "bytes \<Rightarrow> string option"
  dp_sysText :: "string \<Rightarrow> string"
  dp_dbText :: "db_error \<Rightarrow> string"

record boot_env =
  be_getenv :: getenv
  be_srcOk :: bool
  be_newOk :: "string \<Rightarrow> bool"
  be_up :: up_result
  be_poolOk :: bool
  be_pingOk :: bool
  be_netSweep :: net
  be_nowSweep :: time
  be_netRecover :: net
  be_nowRecover :: time
  be_readDir :: "bool + string list"
  be_rmOk :: "string \<Rightarrow> bool"
  be_mkdirOk :: bool
  be_parses :: "string \<Rightarrow> bool"

text \<open>
  Where \<open>run\<close> stands: in its \<open>select\<close>, in \<open>srv.Shutdown\<close>, in \<open>ShutdownLive\<close>, before
  \<open>chatSvc.Shutdown\<close>, in its loop over the rooms it took, or returned.
\<close>

datatype phase =
    Serving
  | HttpDraining
  | LiveStopping
  | ChatStopping
  | ChatClosing "rid list"
  | Exited "run_error option"

record server =
  sv_ctx :: web_ctx
  sv_app :: app
  sv_pending :: "(nat, pending) fmap"
  sv_pool :: bool
  sv_phase :: phase

definition web_context :: "deps \<Rightarrow> Config \<Rightarrow> string list \<Rightarrow> web_ctx" where
  "web_context dp cfg pages =
     \<lparr>wc_bcrypt = sd_bcrypt (dp_stream dp), wc_parse = sd_parse (dp_stream dp), wc_sessionTTL = SessionTTL cfg,
      wc_secure = SecureCookies cfg, wc_pages = pages, wc_stateDir = StateDir cfg,
      wc_sysText = dp_sysText dp, wc_dbText = dp_dbText dp\<rparr>"

text \<open>
  The tables are those after the migration, the files those found below the state directory.  A
  failed session sweep is only logged.
\<close>

definition boot :: "deps \<Rightarrow> boot_env \<Rightarrow> db \<Rightarrow> string list fset \<Rightarrow> run_error + server" where
  "boot dp be d fs =
     (case Load (be_getenv be) of
        Inl e \<Rightarrow> Inl (LoadConfigFailed e)
      | Inr cfg \<Rightarrow>
          (case Migrate (be_srcOk be) (be_newOk be) (be_up be) (DatabaseURL cfg) of
             Inl e \<Rightarrow> Inl (MigrateFailed e)
           | Inr _ \<Rightarrow>
               (case store_Open (be_poolOk be) (be_pingOk be) of
                  (Inl e, _) \<Rightarrow> Inl (OpenFailed e)
                | (Inr _, pool) \<Rightarrow>
                    (let d1 = snd (SweepExpiredSessions (be_netSweep be) (be_nowSweep be) d);
                         st = (stream_NewService d1 (StateDir cfg) (FFmpegPath cfg))\<lparr>files := fs\<rparr>
                     in case RecoverOnBoot (be_netRecover be) (be_nowRecover be) (be_readDir be) (be_rmOk be)
                               (be_mkdirOk be) st of
                          (Inl e, _) \<Rightarrow> Inl (RecoverFailed e)
                        | (Inr _, st1) \<Rightarrow>
                            (case LoadTemplates (be_parses be) of
                               Inl nm \<Rightarrow> Inl (TemplatesFailed nm)
                             | Inr pages \<Rightarrow>
                                 Inr \<lparr>sv_ctx = web_context dp cfg pages,
                                      sv_app = \<lparr>a_streams = st1, a_chat = newChat \<lparr>RateBurst = 0, RatePerSecond = 0\<rparr>\<rparr>,
                                      sv_pending = fmempty, sv_pool = pool, sv_phase = Serving\<rparr>)))))"

section \<open>Serving and stopping\<close>

text \<open>
  What makes the \<open>select\<close> return: the signal, the end of \<open>ListenAndServe\<close> (\<open>True\<close> for an error
  other than \<open>ErrServerClosed\<close>), or the end of the RTMP server.
\<close>

datatype stop_cause =
    SignalReceived
  | HttpStopped bool
  | RtmpStopped bool serve_result

fun select_stop :: "stop_cause \<Rightarrow> run_error option" where
  "select_stop SignalReceived = None"
| "select_stop (HttpStopped failed) = (if failed then Some HttpServerFailed else None)"
| "select_stop (RtmpStopped listenOk served) = map_option RtmpServerFailed (ListenAndServeRTMP listenOk served)"

datatype server_event =
    Accept nat web_request
  | Advance nat app_env
  | Respond nat app_env
  | StreamMove stream_event
  | ChatMove ws_event
  | Select stop_cause
  | HttpShutdown bool "string fset \<Rightarrow> string list"
  | LiveShutdown
  | ChatShutdown "string fset \<Rightarrow> string list"
  | Return

text \<open>
  The moves the components make on their own: account operations and new chat connections come
  from requests, the shutdown calls from \<open>run\<close>.
\<close>

fun own_stream_move :: "stream_event \<Rightarrow> bool" where
  "own_stream_move (Shutdown1 _) = False"
| "own_stream_move ShutdownNext = False"
| "own_stream_move (Account _) = False"
| "own_stream_move _ = True"

fun own_chat_move :: "ws_event \<Rightarrow> bool" where
  "own_chat_move (WsOpen _ _ _ _ _ _) = False"
| "own_chat_move (RunShutdown _) = False"
| "own_chat_move _ = True"

definition running_phase :: "phase \<Rightarrow> bool" where
  "running_phase ph \<longleftrightarrow> (\<forall>e. ph \<noteq> Exited e)"

definition in_streams :: "(streamsvc \<Rightarrow> streamsvc) \<Rightarrow> server \<Rightarrow> server" where
  "in_streams f sv = sv\<lparr>sv_app := (sv_app sv)\<lparr>a_streams := f (a_streams (sv_app sv))\<rparr>\<rparr>"

definition in_chat :: "(chatsvc \<Rightarrow> panic + chatsvc) \<Rightarrow> server \<Rightarrow> panic + server" where
  "in_chat f sv =
     bindE (f (a_chat (sv_app sv))) (\<lambda>c. Inr (sv\<lparr>sv_app := (sv_app sv)\<lparr>a_chat := c\<rparr>\<rparr>))"

text \<open>The goroutine of request \<open>k\<close>: it starts, makes its next call, sends its reply.\<close>

definition serve_accept :: "nat \<Rightarrow> web_request \<Rightarrow> server \<Rightarrow> server" where
  "serve_accept k r sv =
     (if fmlookup (sv_pending sv) k = None
      then sv\<lparr>sv_pending := fmupd k (accept_request (sv_ctx sv) r) (sv_pending sv)\<rparr> else sv)"

definition serve_advance :: "nat \<Rightarrow> app_env \<Rightarrow> server \<Rightarrow> server" where
  "serve_advance k env sv =
     (case fmlookup (sv_pending sv) k of
        None \<Rightarrow> sv
      | Some x \<Rightarrow>
          (let (y, a) = advance (sv_ctx sv) env (x, sv_app sv)
           in sv\<lparr>sv_app := a, sv_pending := fmupd k y (sv_pending sv)\<rparr>))"

definition serve_respond :: "nat \<Rightarrow> app_env \<Rightarrow> server \<Rightarrow> panic + server" where
  "serve_respond k env sv =
     (case fmlookup (sv_pending sv) k of
        Some (Running r (Reply w)) \<Rightarrow>
          bindE (respond env w (sv_app sv))
            (\<lambda>a. Inr (sv\<lparr>sv_app := a, sv_pending := fmdrop k (sv_pending sv)\<rparr>))
      | _ \<Rightarrow> Inr sv)"

text \<open>\<open>run\<close> returns: the deferred \<open>db.Close\<close> closes the connection pool.\<close>

definition run_return :: "run_error option \<Rightarrow> server \<Rightarrow> server" where
  "run_return res sv = sv\<lparr>sv_phase := Exited res, sv_pool := store_Close (sv_pool sv)\<rparr>"

text \<open>
  \<open>srv.Shutdown\<close>: an error (the ten seconds are over, or a listener does not close) returns from
  \<open>run\<close> at once; otherwise it has waited until no request was in flight, and \<open>ShutdownLive\<close> takes its snapshot.
\<close>

definition http_Shutdown :: "bool \<Rightarrow> (string fset \<Rightarrow> string list) \<Rightarrow> server \<Rightarrow> server" where
  "http_Shutdown ok names sv =
     (if \<not> ok then run_return (Some HttpShutdownFailed) sv
      else (in_streams (ShutdownLive names) sv)\<lparr>sv_phase := LiveStopping\<rparr>)"

definition live_Shutdown :: "server \<Rightarrow> server" where
  "live_Shutdown sv =
     (if shutdownQueue (a_streams (sv_app sv)) = [] then sv\<lparr>sv_phase := ChatStopping\<rparr>
      else in_streams shutdown_next sv)"

definition chat_Shutdown :: "(string fset \<Rightarrow> string list) \<Rightarrow> server \<Rightarrow> server" where
  "chat_Shutdown names sv =
     (let c = a_chat (sv_app sv); w = world_of c; w1 = Shutdown (names (fmdom (rooms (mgr w)))) w
      in sv\<lparr>sv_app := (sv_app sv)\<lparr>a_chat := c\<lparr>world_of := w1\<rparr>\<rparr>,
            sv_phase := ChatClosing (drop (length (closing w)) (closing w1))\<rparr>)"

fun server_step :: "deps \<Rightarrow> iteration \<Rightarrow> server_event \<Rightarrow> server \<Rightarrow> panic + server" where
  "server_step dp iter (Accept k r) sv =
     (if sv_phase sv \<in> {Serving, HttpDraining} then Inr (serve_accept k r sv) else Inr sv)"
| "server_step dp iter (Advance k env) sv =
     (if sv_phase sv \<in> {Serving, HttpDraining} then Inr (serve_advance k env sv) else Inr sv)"
| "server_step dp iter (Respond k env) sv =
     (if sv_phase sv \<in> {Serving, HttpDraining} then serve_respond k env sv else Inr sv)"
| "server_step dp iter (StreamMove e) sv =
     (if running_phase (sv_phase sv) \<and> own_stream_move e then Inr (in_streams (stream_step (dp_stream dp) e) sv)
      else Inr sv)"
| "server_step dp iter (ChatMove e) sv =
     (if running_phase (sv_phase sv) \<and> own_chat_move e then in_chat (ws_step (dp_unmarshal dp) iter e) sv
      else Inr sv)"
| "server_step dp iter (Select cause) sv =
     (if sv_phase sv = Serving
      then Inr (case select_stop cause of None \<Rightarrow> sv\<lparr>sv_phase := HttpDraining\<rparr> | Some e \<Rightarrow> run_return (Some e) sv)
      else Inr sv)"
| "server_step dp iter (HttpShutdown ok names) sv =
     (if sv_phase sv = HttpDraining \<and> (ok \<longrightarrow> sv_pending sv = fmempty) then Inr (http_Shutdown ok names sv)
      else Inr sv)"
| "server_step dp iter LiveShutdown sv =
     (if sv_phase sv = LiveStopping then Inr (live_Shutdown sv) else Inr sv)"
| "server_step dp iter (ChatShutdown names) sv =
     (if sv_phase sv = ChatStopping then Inr (chat_Shutdown names sv) else Inr sv)"
| "server_step dp iter Return sv =
     (case sv_phase sv of
        ChatClosing rs \<Rightarrow>
          if set rs \<inter> set (closing (world_of (a_chat (sv_app sv)))) = {} then Inr (run_return None sv)
          else Inr sv
      | _ \<Rightarrow> Inr sv)"

text \<open>\<open>main\<close>: the exit status of the process.\<close>

definition exit_status :: "run_error option \<Rightarrow> int" where
  "exit_status res = (case res of None \<Rightarrow> 0 | Some _ \<Rightarrow> 1)"

end
