(* ===== verification/Chat_Stops.thy ===== *)
theory Chat_Stops
  imports Chat_Ws
begin

text \<open>
  Laws of the manager's world that hold whatever clients do: every stop channel is closed at
  most once, every room ever created is registered, about to be stopped or stopped, and a manager
  that was shut down stays empty.  The locale \<open>world_law\<close> carries such
  a law from the rooms and the manager to every move of every connection.
\<close>

section \<open>Stop channels\<close>

text \<open>
  Every registered room is one that nobody has taken to stop it, and each name has a room of its
  own.  This needs no assumption on the order in which clients join and leave.
\<close>

definition stops_inv :: "world \<Rightarrow> bool" where
  "stops_inv w \<longleftrightarrow>
     (\<forall>nm e. fmlookup (rooms (mgr w)) nm = Some e \<longrightarrow>
        re_room e < nextRoom w \<and> re_room e \<notin> set (closing w @ stopClosed w) \<and>
        (\<forall>nm' e'. fmlookup (rooms (mgr w)) nm' = Some e' \<longrightarrow> re_room e' = re_room e \<longrightarrow> nm' = nm)) \<and>
     distinct (closing w @ stopClosed w) \<and> (\<forall>i \<in> set (closing w @ stopClosed w). i < nextRoom w)"

lemma stops_inv_cong:
  "rooms (mgr w') = rooms (mgr w) \<Longrightarrow> nextRoom w' = nextRoom w \<Longrightarrow> closing w' = closing w \<Longrightarrow>
   stopClosed w' = stopClosed w \<Longrightarrow> stops_inv w' = stops_inv w"
  by (simp add: stops_inv_def)

lemma stops_timer [simp]: "stops_inv (timerStop t w) = stops_inv w"
  by (rule stops_inv_cong) (simp_all add: timerStop_def split: option.split)

lemma stops_setEntry:
  assumes "stops_inv w" "fmlookup (rooms (mgr w)) nm = Some e" "re_room e' = re_room e"
  shows "stops_inv (setEntry nm e' w)"
  using assms unfolding stops_inv_def setEntry_def by (auto split: if_splits)

lemma stops_take:
  assumes "stops_inv w" "fmlookup (rooms (mgr w)) nm = Some e"
  shows "stops_inv (takeEntry nm e w)"
  using assms unfolding stops_inv_def takeEntry_def by (auto split: if_splits)

lemma rooms_timer [simp]: "rooms (mgr (timerStop t w)) = rooms (mgr w)"
  by (simp add: timerStop_def split: option.split)

lemma stops_new:
  assumes "stops_inv w"
  shows "stops_inv (setEntry nm \<lparr>re_room = nextRoom w, reapTimer = None\<rparr> (w\<lparr>roomObj := f, nextRoom := nextRoom w + 1\<rparr>))"
proof -
  let ?w = "w\<lparr>roomObj := f, nextRoom := nextRoom w + 1\<rparr>"
  have lt: "re_room e < nextRoom w" "re_room e \<notin> set (closing w @ stopClosed w)" "re_room e \<noteq> nextRoom w"
    "fmlookup (rooms (mgr w)) m' = Some e' \<Longrightarrow> re_room e' = re_room e \<Longrightarrow> m' = m"
    if "fmlookup (rooms (mgr w)) m = Some e" for m e m' e'
    using assms that unfolding stops_inv_def by (blast, blast, metis less_irrefl, blast)
  have old: "distinct (closing w @ stopClosed w)" "\<And>i. i \<in> set (closing w @ stopClosed w) \<Longrightarrow> i < nextRoom w"
    "\<And>i. i \<in> set (closing w) \<Longrightarrow> i < nextRoom w" "\<And>i. i \<in> set (stopClosed w) \<Longrightarrow> i < nextRoom w"
    using assms by (auto simp: stops_inv_def)
  have eq: "rooms (mgr (setEntry nm e ?w)) = fmupd nm e (rooms (mgr w))" "closing (setEntry nm e ?w) = closing w"
    "stopClosed (setEntry nm e ?w) = stopClosed w" "nextRoom (setEntry nm e ?w) = nextRoom w + 1" for e
    by (simp_all add: setEntry_def)
  show ?thesis unfolding stops_inv_def eq fmupd_lookup
    using lt(2,4) old(1) by (auto simp: less_Suc_eq dest: lt(1) old(3,4) split: if_splits)
qed

lemma stops_get: "stops_inv w \<Longrightarrow> stops_inv (snd (getOrCreate nm w))"
proof (cases "fmlookup (rooms (mgr w)) nm")
  case None
  assume inv: "stops_inv w"
  show ?thesis using inv stops_new [OF inv] by (simp add: getOrCreate_def None Let_def)
next
  case (Some e)
  assume inv: "stops_inv w"
  have "stops_inv (setEntry nm (e\<lparr>reapTimer := None\<rparr>) (timerStop (reapTimer e) w))"
    by (rule stops_setEntry [where e = e]) (simp_all add: inv Some)
  then show ?thesis using inv Some by (simp add: getOrCreate_def)
qed

lemma stops_schedule: "stops_inv w \<Longrightarrow> stops_inv (scheduleReap nm w)"
proof (cases "fmlookup (rooms (mgr w)) nm")
  case (Some e)
  assume inv: "stops_inv w"
  let ?w = "(timerStop (reapTimer e) w)\<lparr>armed := armed (timerStop (reapTimer e) w) @ [(nextTimer (timerStop (reapTimer e) w), nm)],
    nextTimer := nextTimer (timerStop (reapTimer e) w) + 1\<rparr>"
  have "stops_inv ?w" using inv by (subst stops_inv_cong [of _ "timerStop (reapTimer e) w"]) simp_all
  then have "stops_inv (setEntry nm (e\<lparr>reapTimer := Some (nextTimer (timerStop (reapTimer e) w))\<rparr>) ?w)"
    by (rule stops_setEntry [where e = e]) (simp_all add: Some)
  then show ?thesis by (simp add: scheduleReap_def Some Let_def)
qed (simp add: scheduleReap_def)

lemma stops_arm: "stops_inv w \<Longrightarrow> room_arm iter i ev w = Inr w' \<Longrightarrow> stops_inv w'"
proof -
  assume inv: "stops_inv w" "room_arm iter i ev w = Inr w'"
  have "stops_inv (w\<lparr>roomObj := f\<rparr>)" for f using inv(1) by (simp add: stops_inv_def)
  then show ?thesis using inv(2) by (auto simp: room_arm_def Let_def stops_schedule split: if_splits)
qed

lemma stops_reap: "stops_inv w \<Longrightarrow> stops_inv (reap nm w)"
  by (simp add: reap_def stops_take split: option.split)

lemma stops_shutdown: "stops_inv w \<Longrightarrow> stops_inv (shutdownAll nms w)"
proof -
  have loop: "stops_inv w \<Longrightarrow> stops_inv (shutdown_loop nms w)" for w
    by (induction nms w rule: shutdown_loop.induct) (simp_all add: stops_take split: option.split)
  assume "stops_inv w"
  then have "stops_inv (w\<lparr>mgr := (mgr w)\<lparr>stopped := True\<rparr>\<rparr>)" by (simp add: stops_inv_def)
  then show ?thesis by (simp add: shutdownAll_def loop)
qed

lemma stops_close: "stops_inv w \<Longrightarrow> r \<in> set (closing w) \<Longrightarrow> \<exists>w'. closeStop r w = Inr w' \<and> stops_inv w'"
  unfolding stops_inv_def closeStop_def by (auto dest: in_set_remove1 [THEN iffD1, rotated] notin_set_remove1 set_remove1_subset [THEN subsetD])

lemma stops_mgr: "stops_inv w \<Longrightarrow> mgr_step iter e w = Inr w' \<Longrightarrow> stops_inv w'"
proof (cases e)
  case (CloseStop r)
  then show "stops_inv w \<Longrightarrow> mgr_step iter e w = Inr w' \<Longrightarrow> stops_inv w'" using stops_close [of w r] by (auto split: if_splits)
next
  case (Expire t)
  have "stops_inv ((timerStop (Some t) w)\<lparr>firing := f\<rparr>) = stops_inv w" for f
    by (subst stops_inv_cong [of _ "timerStop (Some t) w"]) simp_all
  then show "stops_inv w \<Longrightarrow> mgr_step iter e w = Inr w' \<Longrightarrow> stops_inv w'" by (auto simp: Expire split: option.splits)
next
  case (Reap nm)
  have "stops_inv (w\<lparr>firing := f\<rparr>) = stops_inv w" for f by (rule stops_inv_cong) simp_all
  then show "stops_inv w \<Longrightarrow> mgr_step iter e w = Inr w' \<Longrightarrow> stops_inv w'" by (auto simp: Reap stops_reap split: if_splits)
next
  case (Allow u t0 t1)
  have "stops_inv (snd (allowUser u t0 t1 w)) = stops_inv w"
    by (rule stops_inv_cong) (simp_all add: allowUser_def split_beta)
  then show "stops_inv w \<Longrightarrow> mgr_step iter e w = Inr w' \<Longrightarrow> stops_inv w'" by (auto simp: Allow)
qed (auto simp: stops_get stops_arm stops_shutdown)

text \<open>A manager that was shut down has no rooms, and gets none.\<close>

definition closed_down :: "world \<Rightarrow> bool" where
  "closed_down w \<longleftrightarrow> stopped (mgr w) \<and> rooms (mgr w) = fmempty"

lemma closed_down_arm: "closed_down w \<Longrightarrow> room_arm iter i ev w = Inr w' \<Longrightarrow> closed_down w'"
  by (auto simp: closed_down_def room_arm_def scheduleReap_def Let_def split: if_splits)

lemma closed_down_mgr: "closed_down w \<Longrightarrow> mgr_step iter e w = Inr w' \<Longrightarrow> closed_down w'"
proof (cases e)
  case (InRoom i ev)
  then show "closed_down w \<Longrightarrow> mgr_step iter e w = Inr w' \<Longrightarrow> closed_down w'" using closed_down_arm by simp
next
  case (ShutdownAll nms)
  moreover have "closed_down w \<Longrightarrow> closed_down (shutdownAll nms w)"
    unfolding shutdownAll_eq closed_down_def setStopped_simps shutdown_loop_rooms by simp
  ultimately show "closed_down w \<Longrightarrow> mgr_step iter e w = Inr w' \<Longrightarrow> closed_down w'" by auto
qed (auto simp: closed_down_def getOrCreate_def reap_def closeStop_def allowUser_def timerStop_def Let_def
    split: option.splits if_splits prod.splits)

lemma closed_down_Shutdown:
  "set (names (fmdom (rooms (mgr w)))) = fset (fmdom (rooms (mgr w))) \<Longrightarrow>
   closed_down (Shutdown (names (fmdom (rooms (mgr w)))) w)"
  unfolding Shutdown_def closed_down_def by (simp add: shutdown_all_rooms shutdownAll_eq)

text \<open>Every room ever created is registered, about to be stopped, or stopped.\<close>

definition all_placed :: "world \<Rightarrow> bool" where
  "all_placed w \<longleftrightarrow>
     (\<forall>i < nextRoom w. i \<in> set (closing w @ stopClosed w) \<or> (\<exists>nm e. fmlookup (rooms (mgr w)) nm = Some e \<and> re_room e = i))"

lemma placed_cong:
  "rooms (mgr w') = rooms (mgr w) \<Longrightarrow> nextRoom w' = nextRoom w \<Longrightarrow> closing w' = closing w \<Longrightarrow>
   stopClosed w' = stopClosed w \<Longrightarrow> all_placed w' = all_placed w"
  by (simp add: all_placed_def)

lemma placed_timer [simp]: "all_placed (timerStop t w) = all_placed w"
  by (rule placed_cong) (simp_all add: timerStop_def split: option.split)

lemma placed_setEntry:
  "all_placed w \<Longrightarrow> fmlookup (rooms (mgr w)) nm = Some e \<Longrightarrow> re_room e' = re_room e \<Longrightarrow> all_placed (setEntry nm e' w)"
  unfolding all_placed_def setEntry_def by simp (metis option.inject)

lemma placed_take: "all_placed w \<Longrightarrow> fmlookup (rooms (mgr w)) nm = Some e \<Longrightarrow> all_placed (takeEntry nm e w)"
  unfolding all_placed_def takeEntry_def by simp (metis option.inject)

lemma placed_get: "all_placed w \<Longrightarrow> all_placed (snd (getOrCreate nm w))"
proof (cases "fmlookup (rooms (mgr w)) nm")
  case None
  assume "all_placed w"
  then show ?thesis using None unfolding all_placed_def getOrCreate_def setEntry_def Let_def
    by (simp add: less_Suc_eq) (metis option.distinct(1))
next
  case (Some e)
  assume w: "all_placed w"
  then have "all_placed (setEntry nm (e\<lparr>reapTimer := None\<rparr>) (timerStop (reapTimer e) w))"
    by (intro placed_setEntry [where e = e]) (simp_all add: Some)
  then show ?thesis using w Some by (simp add: getOrCreate_def)
qed

lemma placed_schedule: "all_placed w \<Longrightarrow> all_placed (scheduleReap nm w)"
proof (cases "fmlookup (rooms (mgr w)) nm")
  case (Some e)
  assume w: "all_placed w"
  let ?w = "(timerStop (reapTimer e) w)\<lparr>armed := armed (timerStop (reapTimer e) w) @ [(nextTimer (timerStop (reapTimer e) w), nm)],
    nextTimer := nextTimer (timerStop (reapTimer e) w) + 1\<rparr>"
  have "all_placed ?w" using w by (subst placed_cong [of _ "timerStop (reapTimer e) w"]) simp_all
  then have "all_placed (setEntry nm (e\<lparr>reapTimer := Some (nextTimer (timerStop (reapTimer e) w))\<rparr>) ?w)"
    by (rule placed_setEntry [where e = e]) (simp_all add: Some)
  then show ?thesis by (simp add: scheduleReap_def Some Let_def)
qed (simp add: scheduleReap_def)

lemma placed_arm: "all_placed w \<Longrightarrow> room_arm iter i ev w = Inr w' \<Longrightarrow> all_placed w'"
proof -
  assume w: "all_placed w" "room_arm iter i ev w = Inr w'"
  have "all_placed (w\<lparr>roomObj := f\<rparr>)" for f using w(1) by (simp add: all_placed_def)
  then show ?thesis using w(2) by (auto simp: room_arm_def Let_def placed_schedule split: if_splits)
qed

lemma placed_shutdown: "all_placed w \<Longrightarrow> all_placed (shutdownAll nms w)"
proof -
  have loop: "all_placed w \<Longrightarrow> all_placed (shutdown_loop nms w)" for w
    by (induction nms w rule: shutdown_loop.induct) (simp_all add: placed_take split: option.split)
  assume "all_placed w"
  then have "all_placed (w\<lparr>mgr := (mgr w)\<lparr>stopped := True\<rparr>\<rparr>)" by (simp add: all_placed_def)
  then show ?thesis by (simp add: shutdownAll_def loop)
qed

lemma placed_mgr: "all_placed w \<Longrightarrow> mgr_step iter e w = Inr w' \<Longrightarrow> all_placed w'"
proof (cases e)
  case (CloseStop r)
  have "set (remove1 r (closing w)) \<union> {r} \<supseteq> set (closing w)" using in_set_remove1 [of _ r "closing w"] by blast
  then show "all_placed w \<Longrightarrow> mgr_step iter e w = Inr w' \<Longrightarrow> all_placed w'"
    by (auto simp: CloseStop closeStop_def all_placed_def split: if_splits) blast
next
  case (Expire t)
  have "all_placed ((timerStop (Some t) w)\<lparr>firing := f\<rparr>) = all_placed w" for f
    by (subst placed_cong [of _ "timerStop (Some t) w"]) simp_all
  then show "all_placed w \<Longrightarrow> mgr_step iter e w = Inr w' \<Longrightarrow> all_placed w'" by (auto simp: Expire split: option.splits)
next
  case (Reap nm)
  have "all_placed (w\<lparr>firing := f\<rparr>) = all_placed w" for f by (rule placed_cong) simp_all
  then show "all_placed w \<Longrightarrow> mgr_step iter e w = Inr w' \<Longrightarrow> all_placed w'"
    by (auto simp: Reap reap_def placed_take split: if_splits option.splits)
next
  case (Allow u t0 t1)
  have "all_placed (snd (allowUser u t0 t1 w)) = all_placed w"
    by (rule placed_cong) (simp_all add: allowUser_def split_beta)
  then show "all_placed w \<Longrightarrow> mgr_step iter e w = Inr w' \<Longrightarrow> all_placed w'" by (auto simp: Allow)
qed (auto simp: placed_get placed_arm placed_shutdown)

lemma world_frame:
  "world_of (setConn k c s) = world_of s" "world_of (setChans i ch s) = world_of s" "world_of (tryLeave i k s) = world_of s"
  by (simp_all add: setConn_def setChans_def tryLeave_def Let_def)

section \<open>Laws of the manager's world\<close>

text \<open>
  A predicate that the arms of the rooms and the critical sections of the manager keep is kept by
  every move of every connection.
\<close>

locale world_law =
  fixes law :: "world \<Rightarrow> bool"
  assumes law_arm: "law w \<Longrightarrow> room_arm iter i ev w = Inr w' \<Longrightarrow> law w'"
    and law_mgr: "law w \<Longrightarrow> mgr_step iter e w = Inr w' \<Longrightarrow> law w'"
begin

lemma law_get: "law w \<Longrightarrow> law (snd (getOrCreate nm w))"
  using law_mgr [of w _ "GetRoom nm"] by simp

lemma law_allow: "law w \<Longrightarrow> law (snd (allowUser u t0 t1 w))"
  using law_mgr [of w _ "Allow u t0 t1"] by simp

lemma law_open: "law (world_of c) \<Longrightarrow> serve_open iter k ch u uid ak ok c = Inr c' \<Longrightarrow> law (world_of c')"
proof -
  assume c: "law (world_of c)" "serve_open iter k ch u uid ak ok c = Inr c'"
  obtain ri w where g: "getOrCreate ch (world_of c) = (ri, w)" by fastforce
  have "law w" using law_get [OF c(1), of ch] g by simp
  then show ?thesis using c g
    by (cases ri) (auto simp: serve_open_def setConn_def split: if_splits dest: law_arm)
qed

lemma law_frame: "law w \<Longrightarrow> law (snd (readLoop_frame um c data t0 t1 w))"
  using law_allow [of w "userID c" t0 t1] by (auto simp: readLoop_frame_def Let_def split: option.splits prod.splits)

lemma law_read_frame: "law (world_of c) \<Longrightarrow> law (world_of (read_frame um k cn data t0 t1 c))"
  using law_frame [of "world_of c" um "heap_at c (conn_room cn) k" data t0 t1]
  by (auto simp: read_frame_def read_error_def world_frame split: prod.splits verdict.splits)

lemma law_move: "law (world_of c) \<Longrightarrow> mgr_move iter e c = Inr c' \<Longrightarrow> law (world_of c')"
  by (auto simp: mgr_move_def dest: law_mgr)

lemma law_ws: "law (world_of c) \<Longrightarrow> ws_step um iter e c = Inr c' \<Longrightarrow> law (world_of c')"
proof (cases e)
  case (WsOpen k ch u uid ak ok)
  then show "law (world_of c) \<Longrightarrow> ws_step um iter e c = Inr c' \<Longrightarrow> law (world_of c')"
    using law_open by (auto split: if_splits)
qed (auto simp: with_conn_def serve_join_def serve_ctxDone_def serve_write_def serve_finish_def read_error_def read_send_def
    read_cancel_def pick_join_def pick_leave_def pick_send_def pick_stop_def Let_def law_read_frame world_frame
    dest: law_arm law_move simp del: mgr_step.simps split: option.splits if_splits reader.splits list.splits)

end

interpretation stops: world_law stops_inv
  by unfold_locales (auto intro: stops_arm stops_mgr)

interpretation placed: world_law all_placed
  by unfold_locales (auto intro: placed_arm placed_mgr)

interpretation closed: world_law closed_down
  by unfold_locales (auto intro: closed_down_arm closed_down_mgr)

end
