(* ===== verification/Server_Props.thy ===== *)
theory Server_Props
  imports Server Chat_Stops
begin

text \<open>
  The whole process from boot on: one invariant over the tables, the streams, the chat and the
  requests in flight is kept by every step of the server (the interpretation \<open>servers\<close>).
\<close>

section \<open>The chat behind the web server\<close>

definition known_user :: "db \<Rightarrow> string \<Rightarrow> bool" where
  "known_user d nm \<longleftrightarrow> nm \<in> u_username ` set (users d)"

lemma known_user_grow: "tables_grow d d' \<Longrightarrow> known_user d nm \<Longrightarrow> known_user d' nm"
  by (auto simp: known_user_def tables_grow_def)

lemma good_chat_mono:
  assumes "good_chat P s" "\<And>u. P u \<Longrightarrow> Q u"
  shows "good_chat Q s"
  using assms unfolding good_chat_def good_world_def good_room_def good_inbound_def good_msg_def by meson

text \<open>A connection enters the chat under the name of the account of its session.\<close>

lemma respond_chat:
  assumes r: "respond env w a = Inr a'" and w: "reply_ok u w" and u: "\<And>v. u = Some v \<Longrightarrow> v \<in> set (users d)"
    and chat: "good_chat (known_user d) (a_chat a)" "stops_inv (world_of (a_chat a))" "all_placed (world_of (a_chat a))"
  shows "good_chat (known_user d) (a_chat a') \<and> stops_inv (world_of (a_chat a')) \<and> all_placed (world_of (a_chat a')) \<and>
    a_streams a' = a_streams a"
proof (cases "upgrade_of (body w)")
  case None
  then show ?thesis using r chat by (simp add: respond_def)
next
  case (Some p)
  obtain ch un uid ak where p: "p = (ch, un, uid, ak)" by (cases p) auto
  obtain cs where cs: "serve_open (ae_iter env) (ae_conn env) ch un uid ak (ae_accept env) (a_chat a) = Inr cs"
    "a' = a\<lparr>a_chat := cs\<rparr>" using r Some by (auto simp: respond_def p)
  have "uid \<noteq> 0 \<longrightarrow> known_user d un"
    using w u Some by (auto simp: reply_ok_def p known_user_def split: option.splits)
  then show ?thesis
    using good_chat_open [OF chat(1) cs(1)] stops.law_open [OF chat(2) cs(1)] placed.law_open [OF chat(3) cs(1)] by (simp add: cs(2))
qed

section \<open>The process keeps every invariant\<close>

definition server_inv :: "deps \<Rightarrow> server \<Rightarrow> bool" where
  "server_inv dp sv \<longleftrightarrow>
     wc_bcrypt (sv_ctx sv) = sd_bcrypt (dp_stream dp) \<and> wc_parse (sv_ctx sv) = sd_parse (dp_stream dp) \<and>
     stream_inv (a_streams (sv_app sv)) \<and> stops_inv (world_of (a_chat (sv_app sv))) \<and>
     all_placed (world_of (a_chat (sv_app sv))) \<and>
     good_chat (known_user (sdb (a_streams (sv_app sv)))) (a_chat (sv_app sv)) \<and>
     (\<forall>k x. fmlookup (sv_pending sv) k = Some x \<longrightarrow> request_ok (sdb (a_streams (sv_app sv))) x)"

definition booted :: "deps \<Rightarrow> server \<Rightarrow> bool" where
  "booted dp sv \<longleftrightarrow> (\<exists>be d fs. account_inv d \<and> 1 \<le> seq_stream d \<and> boot dp be d fs = Inr sv)"

lemma stream_inv_fresh:
  assumes "registry s = fmempty" "nextSess s = 0" "sess s = (\<lambda>_. noSession)" "handlers s = (\<lambda>_. newHandler)"
    "shutdownQueue s = []" "tables_inv s"
  shows "stream_inv s"
  using assms by (auto simp: stream_inv_def registry_inv_def owners_inv_def procs_inv_def live_def newHandler_def
      noSession_def elim!: owns.elims)

lemma RecoverOnBoot_frame:
  assumes "RecoverOnBoot n now rd rm mk s = (res, s')"
  shows "registry s' = registry s" "nextSess s' = nextSess s" "sess s' = sess s" "handlers s' = handlers s"
    "shutdownQueue s' = shutdownQueue s" "sdb s' = snd (stmt n (q_markOpenStreamSessionsOrphaned now) (sdb s))"
  using assms by (auto simp: RecoverOnBoot_def Let_def split: prod.splits sum.splits if_splits)

lemma tables_inv_recover:
  assumes "account_inv d" "1 \<le> seq_stream d"
  shows "account_inv (snd (stmt n (q_markOpenStreamSessionsOrphaned now) d))"
    "1 \<le> seq_stream (snd (stmt n (q_markOpenStreamSessionsOrphaned now) d))"
proof -
  show "account_inv (snd (stmt n (q_markOpenStreamSessionsOrphaned now) d))"
    by (rule account_inv_stmt [OF assms(1)]) (simp_all add: query_inv, simp_all add: q_markOpenStreamSessionsOrphaned_def)
  show "1 \<le> seq_stream (snd (stmt n (q_markOpenStreamSessionsOrphaned now) d))"
    using assms(2) by (cases n) (simp_all add: stmt_def q_markOpenStreamSessionsOrphaned_def)
qed

lemma boot_result:
  assumes "boot dp be d fs = Inr sv"
  obtains cfg pages st d1 where "Load (be_getenv be) = Inr cfg" "LoadTemplates (be_parses be) = Inr pages"
    "d1 = auth_exec (sd_bcrypt (dp_stream dp)) (sd_parse (dp_stream dp)) (OpSweep (be_netSweep be) (be_nowSweep be)) d"
    "RecoverOnBoot (be_netRecover be) (be_nowRecover be) (be_readDir be) (be_rmOk be) (be_mkdirOk be)
       ((stream_NewService d1 (StateDir cfg) (FFmpegPath cfg))\<lparr>files := fs\<rparr>) = (Inr (), st)"
    "sv = \<lparr>sv_ctx = web_context dp cfg pages, sv_app = \<lparr>a_streams = st, a_chat = newChat \<lparr>RateBurst = 0, RatePerSecond = 0\<rparr>\<rparr>,
       sv_pending = fmempty, sv_pool = True, sv_phase = Serving\<rparr>"
  using assms by (auto simp: store_Open_def boot_def Let_def split: sum.splits prod.splits if_splits)

lemma good_chat_new: "good_chat P (newChat opts)"
  by (simp add: good_chat_def newChat_def good_world_def NewService_def newWorld_def Let_def inv_intros)

lemma stops_inv_new: "stops_inv (world_of (newChat opts))"
  by (simp add: stops_inv_def newChat_def NewService_def newWorld_def newManager_def Let_def)

lemma all_placed_new: "all_placed (world_of (newChat opts))"
  by (simp add: all_placed_def newChat_def NewService_def newWorld_def Let_def)

lemma server_inv_booted: "booted dp sv \<Longrightarrow> server_inv dp sv"
proof -
  assume "booted dp sv"
  then obtain be d fs where d: "account_inv d" "1 \<le> seq_stream d" and b: "boot dp be d fs = Inr sv"
    by (auto simp: booted_def)
  show ?thesis
  proof (rule boot_result [OF b])
    fix cfg pages st d1
    assume d1: "d1 = auth_exec (sd_bcrypt (dp_stream dp)) (sd_parse (dp_stream dp)) (OpSweep (be_netSweep be) (be_nowSweep be)) d"
      and st: "RecoverOnBoot (be_netRecover be) (be_nowRecover be) (be_readDir be) (be_rmOk be) (be_mkdirOk be)
        ((stream_NewService d1 (StateDir cfg) (FFmpegPath cfg))\<lparr>files := fs\<rparr>) = (Inr (), st)"
      and sv: "sv = \<lparr>sv_ctx = web_context dp cfg pages,
        sv_app = \<lparr>a_streams = st, a_chat = newChat \<lparr>RateBurst = 0, RatePerSecond = 0\<rparr>\<rparr>,
        sv_pending = fmempty, sv_pool = True, sv_phase = Serving\<rparr>"
    have "account_inv d1" "1 \<le> seq_stream d1"
      unfolding d1 by (rule account_inv_exec [OF d(1)], rule order_trans [OF d(2) auth_exec_seq])
    then have "tables_inv st"
      using RecoverOnBoot_frame(6) [OF st] tables_inv_recover by (simp add: tables_inv_def stream_NewService_def)
    then have "stream_inv st"
      by (intro stream_inv_fresh) (simp_all add: RecoverOnBoot_frame [OF st] stream_NewService_def)
    then show ?thesis by (simp add: sv server_inv_def web_context_def good_chat_new stops_inv_new all_placed_new)
  qed
qed

lemma server_inv_stream:
  assumes "server_inv dp sv"
  shows "server_inv dp (in_streams (stream_step (dp_stream dp) e) sv)"
proof -
  let ?s = "a_streams (sv_app sv)"
  have g: "tables_grow (sdb ?s) (sdb (stream_step (dp_stream dp) e ?s))" by (rule step_grow)
  have "good_chat (known_user (sdb (stream_step (dp_stream dp) e ?s))) (a_chat (sv_app sv))"
    using assms by (auto simp: server_inv_def intro: good_chat_mono known_user_grow [OF g])
  moreover have "request_ok (sdb (stream_step (dp_stream dp) e ?s)) x" if "fmlookup (sv_pending sv) k = Some x" for k x
    using assms that request_ok_grow [OF _ g] by (auto simp: server_inv_def)
  ultimately show ?thesis using assms stream_inv_step by (auto simp: server_inv_def in_streams_def)
qed

lemma server_inv_chat:
  assumes "server_inv dp sv" "ws_step um iter e (a_chat (sv_app sv)) = Inr c" "\<And>P. open_ok P e"
  shows "server_inv dp (sv\<lparr>sv_app := (sv_app sv)\<lparr>a_chat := c\<rparr>\<rparr>)"
  using assms good_chat_step [OF _ assms(3,2)] stops.law_ws [OF _ assms(2)] placed.law_ws [OF _ assms(2)]
  by (simp add: server_inv_def)

lemma server_inv_pending:
  "server_inv dp sv \<Longrightarrow> request_ok (sdb (a_streams (sv_app sv))) x \<Longrightarrow>
   server_inv dp (sv\<lparr>sv_pending := fmupd k x (sv_pending sv)\<rparr>)"
  by (simp add: server_inv_def)

lemma server_inv_accept: "server_inv dp sv \<Longrightarrow> server_inv dp (serve_accept k r sv)"
  by (simp add: serve_accept_def server_inv_pending accept_ok)

lemma advance_stream_step:
  assumes "server_inv dp sv" "advance (sv_ctx sv) env (x, sv_app sv) = (y, a)"
  obtains "sv\<lparr>sv_app := a\<rparr> = sv" | op where "sv\<lparr>sv_app := a\<rparr> = in_streams (stream_step (dp_stream dp) (Account op)) sv"
proof -
  have c: "wc_bcrypt (sv_ctx sv) = sd_bcrypt (dp_stream dp)" "wc_parse (sv_ctx sv) = sd_parse (dp_stream dp)"
    using assms(1) by (simp_all add: server_inv_def)
  show thesis
    by (rule advance_op [of "sv_ctx sv" env x "sv_app sv"])
       (simp add: assms(2) that(1), rule that(2), simp add: assms(2) in_streams_def c)
qed

lemma server_inv_advance:
  assumes inv: "server_inv dp sv"
  shows "server_inv dp (serve_advance k env sv)"
proof (cases "fmlookup (sv_pending sv) k")
  case (Some x)
  obtain y a where adv: "advance (sv_ctx sv) env (x, sv_app sv) = (y, a)" by fastforce
  have "server_inv dp (sv\<lparr>sv_app := a\<rparr>)"
    by (rule advance_stream_step [OF inv adv]) (use inv server_inv_stream [OF inv] in simp_all)
  moreover have "request_ok (sdb (a_streams a)) y"
    using request_ok_grow [OF advance_ok advance_grow] inv Some adv unfolding server_inv_def by (metis fst_conv snd_conv)
  ultimately show ?thesis using server_inv_pending [of dp "sv\<lparr>sv_app := a\<rparr>" y k] Some adv
    by (simp add: serve_advance_def)
qed (use inv in \<open>simp add: serve_advance_def\<close>)

lemma server_inv_respond:
  assumes inv: "server_inv dp sv" and step: "serve_respond k env sv = Inr sv'"
  shows "server_inv dp sv'"
proof (cases "\<exists>r w. fmlookup (sv_pending sv) k = Some (Running r (Reply w))")
  case True
  then obtain r w where x: "fmlookup (sv_pending sv) k = Some (Running r (Reply w))" by blast
  then obtain a where a: "respond env w (sv_app sv) = Inr a" "sv' = sv\<lparr>sv_app := a, sv_pending := fmdrop k (sv_pending sv)\<rparr>"
    using step by (auto simp: serve_respond_def)
  have "request_ok (sdb (a_streams (sv_app sv))) (Running r (Reply w))"
    using inv x unfolding server_inv_def by blast
  then have "reply_ok (rq_user r) w" "\<And>v. rq_user r = Some v \<Longrightarrow> v \<in> set (users (sdb (a_streams (sv_app sv))))" by auto
  from respond_chat [OF a(1) this] inv show ?thesis by (auto simp: server_inv_def a(2))
next
  case False
  then have "sv' = sv" using step by (auto simp: serve_respond_def split: option.splits pending.splits prog.splits)
  then show ?thesis using inv by simp
qed

lemma own_chat_open: "own_chat_move e \<Longrightarrow> open_ok P e"
  by (cases e) auto

lemma ShutdownLive_step: "ShutdownLive names = stream_step deps (Shutdown1 names)" "shutdown_next = stream_step deps ShutdownNext"
  by (simp_all add: fun_eq_iff)

lemma chat_Shutdown_step:
  obtains c where "ws_step um iter (RunShutdown (names (fmdom (rooms (mgr (world_of (a_chat (sv_app sv)))))))) (a_chat (sv_app sv)) = Inr c"
    "sv_app (chat_Shutdown names sv) = (sv_app sv)\<lparr>a_chat := c\<rparr>" "sv_ctx (chat_Shutdown names sv) = sv_ctx sv"
    "sv_pending (chat_Shutdown names sv) = sv_pending sv"
  by (simp add: chat_Shutdown_def mgr_move_def Let_def Shutdown_def)

lemma server_inv_phase [simp]:
  "server_inv dp (sv\<lparr>sv_phase := ph\<rparr>) = server_inv dp sv" "server_inv dp (run_return res sv) = server_inv dp sv"
  by (simp_all add: server_inv_def run_return_def)

lemma server_inv_step:
  assumes inv: "server_inv dp sv" and step: "server_step dp iter e sv = Inr sv'"
  shows "server_inv dp sv'"
proof (cases e)
  case (Accept k r)
  then show ?thesis using inv step server_inv_accept by (auto split: if_splits)
next
  case (Advance k env)
  then show ?thesis using inv step server_inv_advance by (auto split: if_splits)
next
  case (Respond k env)
  then show ?thesis using inv step server_inv_respond by (auto split: if_splits)
next
  case (StreamMove e)
  then show ?thesis using inv step server_inv_stream by (auto split: if_splits)
next
  case (ChatMove e)
  then show ?thesis using inv step server_inv_chat [of dp sv] own_chat_open by (auto simp: in_chat_def split: if_splits)
next
  case (Select cause)
  then show ?thesis using inv step by (auto split: if_splits option.splits)
next
  case (HttpShutdown ok names)
  then show ?thesis using inv step server_inv_stream [OF inv, of "Shutdown1 names"]
    by (auto simp: http_Shutdown_def ShutdownLive_step(1) [of names "dp_stream dp"] split: if_splits)
next
  case LiveShutdown
  then show ?thesis using inv step server_inv_stream [OF inv, of ShutdownNext]
    by (auto simp: live_Shutdown_def ShutdownLive_step(2) [of "dp_stream dp"] split: if_splits)
next
  case (ChatShutdown names)
  obtain c where c: "ws_step (dp_unmarshal dp) iter (RunShutdown (names (fmdom (rooms (mgr (world_of (a_chat (sv_app sv))))))))
      (a_chat (sv_app sv)) = Inr c"
    "sv_app (chat_Shutdown names sv) = (sv_app sv)\<lparr>a_chat := c\<rparr>" "sv_ctx (chat_Shutdown names sv) = sv_ctx sv"
    "sv_pending (chat_Shutdown names sv) = sv_pending sv"
    by (rule chat_Shutdown_step)
  have "server_inv dp (chat_Shutdown names sv)"
    using server_inv_chat [OF inv c(1)] by (simp add: server_inv_def c(2-4))
  then show ?thesis using inv step ChatShutdown by (auto split: if_splits)
next
  case Return
  then show ?thesis using inv step by (auto split: phase.splits if_splits)
qed

interpretation servers: partial_system "booted dp" "server_step dp iter" "server_inv dp" for dp iter
  by unfold_locales (auto intro: server_inv_booted server_inv_step)

section \<open>What holds while the server runs\<close>

text \<open>
  C1: the process keeps its promises from boot to exit.  Whatever requests arrive, however
  publishers, viewers, timers, database faults and the shutdown interleave, as long as no
  room has panicked: the tables keep their constraints; the registry that feeds the pages holds
  exactly the streams on air, one per name; and every chat message that is stored, queued or
  delivered is non-empty, at most 500 runes long and carries the name of an existing account.
  Right after the boot no stream row is open.
\<close>

theorem server_consistent:
  assumes "account_inv d" "1 \<le> seq_stream d" and b: "boot dp be d fs = Inr sv0"
    and run: "runE (server_step dp iter) es sv0 = Inr sv"
  shows "account_inv (sdb (a_streams (sv_app sv))) \<and>
    (\<forall>nm i. fmlookup (registry (a_streams (sv_app sv))) nm = Some i \<longleftrightarrow>
       live (a_streams (sv_app sv)) i \<and> channelName (sess (a_streams (sv_app sv)) i) = nm) \<and>
    (\<forall>i m. m \<in> room_msgs (roomObj (world_of (a_chat (sv_app sv))) i) \<longrightarrow> Type m = KindMessage \<longrightarrow>
       User m \<in> u_username ` set (users (sdb (a_streams (sv_app sv)))) \<and> Body m \<noteq> '''' \<and> runeCount (Body m) \<le> 500) \<and>
    (be_netRecover be = NetOk \<longrightarrow> (\<forall>x\<in>set (stream_sessions (sdb (a_streams (sv_app sv0)))). ss_ended x \<noteq> None))"
proof -
  have "server_inv dp sv0" by (rule server_inv_booted) (use assms(1,2) b in \<open>auto simp: booted_def\<close>)
  then have inv: "server_inv dp sv" using run by (rule servers.inv_runE)
  have "User m \<in> u_username ` set (users (sdb (a_streams (sv_app sv)))) \<and> Body m \<noteq> '''' \<and> runeCount (Body m) \<le> 500"
    if "m \<in> room_msgs (roomObj (world_of (a_chat (sv_app sv))) i)" "Type m = KindMessage" for i m
  proof -
    have "good_msg (known_user (sdb (a_streams (sv_app sv)))) m"
      using inv that by (auto simp: server_inv_def good_chat_def good_world_def good_room_def user_msgs_def)
    then show ?thesis by (simp add: good_msg_def known_user_def good_body_def)
  qed
  moreover have "\<forall>x\<in>set (stream_sessions (sdb (a_streams (sv_app sv0)))). ss_ended x \<noteq> None" if "be_netRecover be = NetOk"
    by (rule boot_result [OF b], drule RecoverOnBoot_frame(6))
       (auto simp: that stmt_def q_markOpenStreamSessionsOrphaned_def)
  ultimately show ?thesis using inv
    by (auto simp: server_inv_def stream_inv_def registry_inv_def tables_inv_def)
qed

section \<open>A small installation\<close>

definition demo_boot :: boot_env where
  "demo_boot = \<lparr>be_getenv = demo_getenv, be_srcOk = True, be_newOk = (\<lambda>_. True), be_up = UpDone, be_poolOk = True,
     be_pingOk = True, be_netSweep = NetOk, be_nowSweep = 1000, be_netRecover = NetOk, be_nowRecover = 2000,
     be_readDir = Inl True, be_rmOk = (\<lambda>_. True), be_mkdirOk = True, be_parses = (\<lambda>_. True)\<rparr>"

definition demo_server_deps :: deps where
  "demo_server_deps = \<lparr>dp_stream = demo_deps, dp_unmarshal = Some, dp_sysText = (\<lambda>_. []), dp_dbText = (\<lambda>_. [])\<rparr>"

lemma demo_boots_on:
  assumes sweep: "snd (SweepExpiredSessions NetOk 1000 d) = d"
    and mark: "q_markOpenStreamSessionsOrphaned 2000 d = (Inr (), d)"
  obtains sv where "boot demo_server_deps demo_boot d {||} = Inr sv" "sv_phase sv = Serving" "sv_pending sv = fmempty"
    "a_streams (sv_app sv) = (stream_NewService d ''./state'' ''ffmpeg'')
       \<lparr>files := MkdirAll (clean_parts ''./state'') {||}\<rparr>"
proof -
  obtain cfg where cfg: "Load demo_getenv = Inr cfg" "StateDir cfg = ''./state''" "FFmpegPath cfg = ''ffmpeg''"
    by (simp add: Load_def Let_def demo_getenv_def envOr_def)
  have pages: "LoadTemplates (\<lambda>_. True) = Inr pageNames" by (simp add: LoadTemplates_def pageNames_def)
  show ?thesis
    by (rule that, (simp add: boot_def demo_boot_def cfg sweep mark pages Migrate_def store_Open_def RecoverOnBoot_def
        stmt_def stream_NewService_def Let_def) [1], simp_all add: stream_NewService_def)
qed

lemma demo_boots:
  obtains sv where "boot demo_server_deps demo_boot demo_db {||} = Inr sv" "sv_phase sv = Serving" "sv_pending sv = fmempty"
    "a_streams (sv_app sv) = (stream_NewService demo_db ''./state'' ''ffmpeg'')
       \<lparr>files := MkdirAll (clean_parts ''./state'') {||}\<rparr>"
proof (rule demo_boots_on [of demo_db])
  show "snd (SweepExpiredSessions NetOk 1000 demo_db) = demo_db"
    by (simp add: SweepExpiredSessions_def stmt_def q_deleteExpiredSessions_def demo_db_def withAccount_def emptyDB_def)
  show "q_markOpenStreamSessionsOrphaned 2000 demo_db = (Inr (), demo_db)"
    by (simp add: q_markOpenStreamSessionsOrphaned_def demo_db_def withAccount_def emptyDB_def)
qed (rule that)

lemma run_stream_moves:
  "running_phase (sv_phase sv) \<Longrightarrow> list_all own_stream_move es \<Longrightarrow>
   runE (server_step dp iter) (map StreamMove es) sv = Inr (in_streams (fold (stream_step (dp_stream dp)) es) sv)"
proof (induction es arbitrary: sv)
  case Nil
  then show ?case by (simp add: in_streams_def)
next
  case (Cons e es)
  then show ?case by (simp add: in_streams_def)
qed

lemma demo_on_air:
  obtains sv0 sv where "boot demo_server_deps demo_boot demo_db {||} = Inr sv0"
    "runE (server_step demo_server_deps ascending) (map StreamMove (goLive 0 ''live_k'') @ [Select SignalReceived]) sv0 = Inr sv"
    "sv_phase sv = HttpDraining" "sv_pending sv = fmempty" "live (a_streams (sv_app sv)) 0" "dbRowID (sess (a_streams (sv_app sv)) 0) = 1"
proof -
  obtain sv0 where b: "boot demo_server_deps demo_boot demo_db {||} = Inr sv0" "sv_phase sv0 = Serving"
    "sv_pending sv0 = fmempty" "a_streams (sv_app sv0) = (stream_NewService demo_db ''./state'' ''ffmpeg'')
       \<lparr>files := MkdirAll (clean_parts ''./state'') {||}\<rparr>"
    by (rule demo_boots)
  define sv1 where "sv1 = in_streams (fold (stream_step demo_deps) (goLive 0 ''live_k'')) sv0"
  have "runE (server_step demo_server_deps ascending) (map StreamMove (goLive 0 ''live_k'')) sv0 = Inr sv1"
    using run_stream_moves [of sv0 "goLive 0 ''live_k''" demo_server_deps ascending] b(2)
    by (simp add: sv1_def running_phase_def goLive_def demo_server_deps_def)
  moreover have "sv_phase sv1 = Serving" "sv_pending sv1 = fmempty" using b(2,3) by (simp_all add: sv1_def in_streams_def)
  moreover have "live (a_streams (sv_app sv1)) 0" "dbRowID (sess (a_streams (sv_app sv1)) 0) = 1"
    by (simp_all add: sv1_def in_streams_def b(4) live_def demo_eval)
  ultimately show ?thesis using b(1) that [of sv0 "sv1\<lparr>sv_phase := HttpDraining\<rparr>"] by (simp add: runE_append)
qed

theorem server_consistent_witness:
  "\<exists>sv0 sv. boot demo_server_deps demo_boot demo_db {||} = Inr sv0 \<and>
     runE (server_step demo_server_deps ascending) (map StreamMove (goLive 0 ''live_k'') @ [Select SignalReceived]) sv0 = Inr sv \<and>
     live (a_streams (sv_app sv)) 0 \<and>
     fmlookup (registry (a_streams (sv_app sv))) (channelName (sess (a_streams (sv_app sv)) 0)) = Some 0"
proof -
  obtain sv0 sv1 where b: "boot demo_server_deps demo_boot demo_db {||} = Inr sv0"
    "runE (server_step demo_server_deps ascending) (map StreamMove (goLive 0 ''live_k'') @ [Select SignalReceived]) sv0 = Inr sv1"
    "live (a_streams (sv_app sv1)) 0" by (rule demo_on_air)
  from server_consistent [OF demo_db_inv b(1,2)] b show ?thesis by blast
qed

end
