(* ===== verification/Server_Requests.thy ===== *)
theory Server_Requests
  imports Server_Props
begin

text \<open>
  Requests in flight, many at a time: each of them comes to its reply whatever the others do, and
  a channel changes only by a call of a request whose session belongs to the owner.
\<close>

section \<open>Moves of one request\<close>

lemma advance_Running: "\<forall>w. p \<noteq> Reply w \<Longrightarrow> \<exists>q. fst (advance c env (Running r p, a)) = Running r q \<and> next_prog q p"
  by (auto simp: advance_def next_prog_def split: prod.split intro!: exI [of _ c] exI [of _ env] exI [of _ a])

lemma advance_Authenticating: "\<exists>r' p. fst (advance c env (Authenticating r tok, a)) = Running r' p"
  by (simp add: advance_def Let_def split: sum.split)

lemma respond_refused: "\<exists>a'. respond (env\<lparr>ae_accept := False\<rparr>) w a = Inr a'"
  by (simp add: respond_def serve_open_def split: option.split)

lemma respond_streams: "respond env w a = Inr a' \<Longrightarrow> a_streams a' = a_streams a"
  by (auto simp: respond_def split: option.splits)

section \<open>Every request is answered\<close>

text \<open>Request \<open>x\<close> after \<open>n\<close> of its calls; the \<open>i\<close>-th call finds the services in the state \<open>a i\<close>.\<close>

primrec after_calls :: "web_ctx \<Rightarrow> (nat \<Rightarrow> app_env) \<Rightarrow> (nat \<Rightarrow> app) \<Rightarrow> pending \<Rightarrow> nat \<Rightarrow> pending" where
  "after_calls c env a x 0 = x"
| "after_calls c env a x (Suc n) = fst (advance c (env n) (after_calls c env a x n, a n))"

text \<open>
  A request always comes to its reply.  Whatever the services answer, whatever faults its
  calls meet and whatever the other goroutines do to the tables, the registry and the rooms
  between two of its calls, a handler makes finitely many calls: no handler loops on a changing
  database, and nothing another request does can keep it from answering.
\<close>

theorem request_terminates: "\<exists>n q w. after_calls c env a (accept_request c r) n = Running q (Reply w)"
proof -
  let ?x = "after_calls c env a (accept_request c r)"
  have run: "?x n = Running q p \<Longrightarrow> \<exists>m q w. ?x m = Running q (Reply w)" for n q p
  proof (induction p arbitrary: n q rule: next_prog_induct)
    case (1 p)
    show ?case
    proof (cases "\<exists>w. p = Reply w")
      case False
      then obtain p' where "?x (Suc n) = Running q p'" "next_prog p' p"
        using advance_Running [of p c "env n" q "a n"] 1(2) by auto
      then show ?thesis using 1(1) by blast
    qed (use 1(2) in blast)
  qed
  show ?thesis
  proof (cases "?x 0")
    case (Authenticating q tok)
    then show ?thesis using run [of "Suc 0"] advance_Authenticating [of c "env 0" q tok "a 0"] by auto
  qed (rule run)
qed

text \<open>In the process, too: request \<open>k\<close> alone, with the rest standing still, comes to its end.\<close>

abbreviation own_moves :: "nat \<Rightarrow> server_event set" where
  "own_moves k \<equiv> range (Advance k) \<union> range (Respond k)"

lemma running_finishes:
  "sv_phase sv \<in> {Serving, HttpDraining} \<Longrightarrow> fmlookup (sv_pending sv) k = Some (Running r p) \<Longrightarrow>
   \<exists>es sv'. set es \<subseteq> own_moves k \<and> runE (server_step dp iter) es sv = Inr sv' \<and>
     sv_phase sv' = sv_phase sv \<and> sv_pending sv' = fmdrop k (sv_pending sv)"
proof (induction p arbitrary: sv rule: next_prog_induct)
  case (1 p)
  fix env :: app_env
  show ?case
  proof (cases "\<exists>w. p = Reply w")
    case True
    then obtain w where w: "p = Reply w" by blast
    obtain a where a: "respond (env\<lparr>ae_accept := False\<rparr>) w (sv_app sv) = Inr a" using respond_refused by blast
    then have "server_step dp iter (Respond k (env\<lparr>ae_accept := False\<rparr>)) sv
        = Inr (sv\<lparr>sv_app := a, sv_pending := fmdrop k (sv_pending sv)\<rparr>)"
      using 1(2,3) w by (simp add: serve_respond_def)
    then show ?thesis by (intro exI [of _ "[Respond k (env\<lparr>ae_accept := False\<rparr>)]"]) simp
  next
    case False
    obtain q a where q: "advance (sv_ctx sv) env (Running r p, sv_app sv) = (Running r q, a)" "next_prog q p"
      using advance_Running [of p "sv_ctx sv" env r "sv_app sv"] False by (metis fst_conv surj_pair)
    define sv1 where "sv1 = sv\<lparr>sv_app := a, sv_pending := fmupd k (Running r q) (sv_pending sv)\<rparr>"
    have s: "server_step dp iter (Advance k env) sv = Inr sv1" using 1(2,3) q(1) by (simp add: serve_advance_def sv1_def)
    obtain es sv' where e: "set es \<subseteq> own_moves k" "runE (server_step dp iter) es sv1 = Inr sv'"
      "sv_phase sv' = sv_phase sv" "sv_pending sv' = fmdrop k (sv_pending sv1)"
      using 1(1) [OF q(2), of sv1] 1(2) by (auto simp: sv1_def)
    have "fmdrop k (sv_pending sv1) = fmdrop k (sv_pending sv)" by (rule fmap_ext) (simp add: sv1_def)
    with s e show ?thesis by (intro exI [of _ "Advance k env # es"]) auto
  qed
qed

lemma request_finishes:
  assumes "sv_phase sv \<in> {Serving, HttpDraining}" "fmlookup (sv_pending sv) k = Some x"
  shows "\<exists>es sv'. set es \<subseteq> own_moves k \<and> runE (server_step dp iter) es sv = Inr sv' \<and>
     sv_phase sv' = sv_phase sv \<and> sv_pending sv' = fmdrop k (sv_pending sv)"
proof (cases x)
  case (Running r p)
  then show ?thesis using running_finishes [OF assms(1)] assms(2) by simp
next
  case (Authenticating r tok)
  fix env :: app_env
  obtain r' p a where q: "advance (sv_ctx sv) env (x, sv_app sv) = (Running r' p, a)"
    using advance_Authenticating [of "sv_ctx sv" env r tok "sv_app sv"] Authenticating by (metis fst_conv surj_pair)
  define sv1 where "sv1 = sv\<lparr>sv_app := a, sv_pending := fmupd k (Running r' p) (sv_pending sv)\<rparr>"
  have s: "server_step dp iter (Advance k env) sv = Inr sv1" using assms q by (simp add: serve_advance_def sv1_def)
  obtain es sv' where e: "set es \<subseteq> own_moves k" "runE (server_step dp iter) es sv1 = Inr sv'"
    "sv_phase sv' = sv_phase sv" "sv_pending sv' = fmdrop k (sv_pending sv1)"
    using running_finishes [of sv1 k r' p dp iter] assms(1) by (auto simp: sv1_def)
  have "fmdrop k (sv_pending sv1) = fmdrop k (sv_pending sv)" by (rule fmap_ext) (simp add: sv1_def)
  with s e show ?thesis by (intro exI [of _ "Advance k env # es"]) auto
qed

lemma requests_drain:
  "sv_phase sv \<in> {Serving, HttpDraining} \<Longrightarrow>
   \<exists>es sv'. set es \<subseteq> (\<Union>k. own_moves k) \<and> runE (server_step dp iter) es sv = Inr sv' \<and>
     sv_phase sv' = sv_phase sv \<and> sv_pending sv' = fmempty"
proof (induction "fcard (fmdom (sv_pending sv))" arbitrary: sv rule: less_induct)
  case less
  show ?case
  proof (cases "sv_pending sv = fmempty")
    case True
    then show ?thesis by (intro exI [of _ "[]"]) simp
  next
    case False
    then obtain k x where k: "fmlookup (sv_pending sv) k = Some x"
      by (metis fmempty_lookup fmap_ext not_None_eq)
    obtain es sv1 where e: "set es \<subseteq> own_moves k" "runE (server_step dp iter) es sv = Inr sv1"
      "sv_phase sv1 = sv_phase sv" "sv_pending sv1 = fmdrop k (sv_pending sv)"
      using request_finishes [OF less(2) k] by blast
    have "fcard (fmdom (sv_pending sv1)) < fcard (fmdom (sv_pending sv))"
      unfolding e(4) fmdom_drop by (rule fcard_fminus1_less [OF fmdomI [OF k]])
    then obtain es' sv' where "set es' \<subseteq> (\<Union>k. own_moves k)" "runE (server_step dp iter) es' sv1 = Inr sv'"
      "sv_phase sv' = sv_phase sv" "sv_pending sv' = fmempty"
      using less(1) [of sv1] less(2) e(3) by auto
    moreover have "set es \<subseteq> (\<Union>k. own_moves k)" using e(1) by blast
    ultimately show ?thesis using e(2,3) by (intro exI [of _ "es @ es'"]) (simp add: runE_append)
  qed
qed

section \<open>Who changes a channel\<close>

lemma obeys_change:
  assumes ok: "request_ok d (Running r p)" and p: "(\<exists>t q. p = CallTitle i t q) \<or> (\<exists>q. p = CallRegenerate i q)"
  shows "\<exists>u. rq_user r = Some u \<and> u \<in> set (users d) \<and> chan_owner d i (u_id u) \<and> r_Cookie SessionCookieName r \<noteq> None"
proof -
  obtain S where S: "obeys (rq_user r) p S" "\<forall>i\<in>S. \<exists>u. rq_user r = Some u \<and> chan_owner d i (u_id u)"
    using ok by auto
  then have "i \<in> S" using p by auto
  then show ?thesis using S(2) ok by auto
qed

lemma chan_owner_unique:
  assumes inv: "db_inv d" and o: "chan_owner d (c_id ch) uid" and ch: "ch \<in> set (channels d)"
  shows "c_user_id ch = uid"
proof -
  obtain ch' where c: "ch' \<in> set (channels d)" "c_id ch' = c_id ch" "c_user_id ch' = uid" using o by (auto simp: chan_owner_def)
  have "inj_on c_id (set (channels d))" using inv by (simp add: db_inv_def distinct_map)
  then have "ch' = ch" using inj_onD c(1,2) ch by metis
  then show ?thesis using c(3) by simp
qed

lemma advance_owner:
  assumes inv: "db_inv (sdb (a_streams a))" and ok: "request_ok (sdb (a_streams a)) x"
    and ch: "ch \<in> set (channels (sdb (a_streams a)))" "ch \<notin> set (channels (sdb (a_streams (snd (advance c env (x, a))))))"
  obtains r p u where "x = Running r p" "rq_user r = Some u" "u \<in> set (users (sdb (a_streams a)))" "u_id u = c_user_id ch"
    "r_Cookie SessionCookieName r \<noteq> None" "(\<exists>t q. p = CallTitle (c_id ch) t q) \<or> (\<exists>q. p = CallRegenerate (c_id ch) q)"
proof (cases x)
  case (Authenticating r tok)
  then show ?thesis using ch by (auto simp: advance_def Let_def split: sum.splits)
next
  case (Running r p)
  have p: "(\<exists>t q. p = CallTitle (c_id ch) t q) \<or> (\<exists>q. p = CallRegenerate (c_id ch) q)"
    by (rule call_channels [OF inv ch(1)]) (use ch(2) Running in \<open>simp add: advance_def case_prod_beta\<close>)
  with obeys_change [of _ r p "c_id ch"] ok Running obtain u where "rq_user r = Some u" "u \<in> set (users (sdb (a_streams a)))"
    "chan_owner (sdb (a_streams a)) (c_id ch) (u_id u)" "r_Cookie SessionCookieName r \<noteq> None" by blast
  with that [OF Running] p chan_owner_unique [OF inv _ ch(1)] show ?thesis by simp
qed

lemma own_stream_account: "own_stream_move e \<Longrightarrow> \<forall>op. e \<noteq> Account op"
  by auto

lemma step_only_advance:
  assumes s: "server_step dp iter e sv = Inr sv'" and n: "\<forall>k env. e \<noteq> Advance k env"
  shows "channels (sdb (a_streams (sv_app sv'))) = channels (sdb (a_streams (sv_app sv)))"
proof (cases e)
  case (StreamMove m)
  then show ?thesis using s step_channels [OF own_stream_account, of m] by (auto simp: in_streams_def split: if_splits)
next
  case (HttpShutdown ok names)
  then show ?thesis using s step_channels [of "Shutdown1 names" "dp_stream dp"]
    by (auto simp: http_Shutdown_def run_return_def in_streams_def split: if_splits)
next
  case LiveShutdown
  then show ?thesis using s step_channels [of ShutdownNext "dp_stream dp"]
    by (auto simp: live_Shutdown_def in_streams_def split: if_splits)
next
  case (Respond k env)
  then show ?thesis using s
    by (auto simp: serve_respond_def split: if_splits option.splits pending.splits prog.splits dest!: respond_streams)
qed (use s n in \<open>auto simp: serve_accept_def in_chat_def run_return_def chat_Shutdown_def Let_def split: if_splits option.splits phase.splits\<close>)

text \<open>
  C3: only its owner changes a channel, whatever else is going on.  Along every run of the booted
  process, with any number of requests in flight at once, each between any two of its calls: a
  step after which a channel row is no longer what it was (its title, its key hash, its stamp)
  is a call of a title change or a key rotation for exactly that channel, made by a request that
  carries a session cookie, for which the session lookup found the account that owns the channel.
\<close>

theorem channels_change_by_owner:
  assumes "account_inv d" "1 \<le> seq_stream d" "boot dp be d fs = Inr sv0"
    and run: "runE (server_step dp iter) es sv0 = Inr sv" and step: "server_step dp iter e sv = Inr sv'"
    and ch: "ch \<in> set (channels (sdb (a_streams (sv_app sv))))" "ch \<notin> set (channels (sdb (a_streams (sv_app sv'))))"
  shows "\<exists>k env r p u. e = Advance k env \<and> fmlookup (sv_pending sv) k = Some (Running r p) \<and>
    ((\<exists>t q. p = CallTitle (c_id ch) t q) \<or> (\<exists>q. p = CallRegenerate (c_id ch) q)) \<and>
    rq_user r = Some u \<and> u \<in> set (users (sdb (a_streams (sv_app sv)))) \<and> u_id u = c_user_id ch \<and>
    r_Cookie SessionCookieName r \<noteq> None"
proof -
  have "server_inv dp sv0" by (rule server_inv_booted) (use assms(1-3) in \<open>auto simp: booted_def\<close>)
  then have inv: "server_inv dp sv" using run by (rule servers.inv_runE)
  then have d: "db_inv (sdb (a_streams (sv_app sv)))"
    by (simp add: server_inv_def stream_inv_def tables_inv_def account_inv_def)
  obtain k env where e: "e = Advance k env" using step_only_advance [OF step] ch by metis
  then obtain x where x: "fmlookup (sv_pending sv) k = Some x"
    using step ch by (auto simp: serve_advance_def split: if_splits option.splits)
  then have ok: "request_ok (sdb (a_streams (sv_app sv))) x" using inv unfolding server_inv_def by blast
  have "ch \<notin> set (channels (sdb (a_streams (snd (advance (sv_ctx sv) env (x, sv_app sv))))))"
    using step ch x by (auto simp: e serve_advance_def split: if_splits prod.splits)
  from advance_owner [OF d ok ch(1) this] e x show ?thesis by metis
qed

text \<open>An installation whose only user is signed in, and changes the title from the dashboard.\<close>

definition demo_signed_db :: db where
  "demo_signed_db = demo_db\<lparr>sessions := [\<lparr>s_id = ''t'', s_user_id = 1, s_expires = 900000, s_created = 5000\<rparr>]\<rparr>"

definition demo_title_request :: web_request where
  "demo_title_request = demo_request ''POST'' [''dashboard'', ''title''] [(SessionCookieName, ''t'')] [(''title'', ''mine'')]"

lemmas demo_tables = demo_signed_db_def demo_db_def withAccount_def emptyDB_def newUser_def newChannel_def

lemma demo_signed_inv: "account_inv demo_signed_db" "1 \<le> seq_stream demo_signed_db"
proof -
  have "db_inv demo_db" using demo_db_inv(1) by (simp add: account_inv_def)
  then have "db_inv demo_signed_db" unfolding db_inv_def by (simp add: demo_tables)
  then show "account_inv demo_signed_db"
    by (rule account_inv_frame [OF demo_db_inv(1)]) (simp_all add: demo_signed_db_def)
qed (use demo_db_inv(2) in \<open>simp add: demo_signed_db_def\<close>)

lemma demo_signed_boots:
  obtains sv0 where "boot demo_server_deps demo_boot demo_signed_db {||} = Inr sv0" "sv_phase sv0 = Serving"
    "sv_pending sv0 = fmempty" "sdb (a_streams (sv_app sv0)) = demo_signed_db"
proof (rule demo_boots_on [of demo_signed_db])
  show "snd (SweepExpiredSessions NetOk 1000 demo_signed_db) = demo_signed_db"
    by (simp add: SweepExpiredSessions_def stmt_def q_deleteExpiredSessions_def demo_tables to_ts_def)
  show "q_markOpenStreamSessionsOrphaned 2000 demo_signed_db = (Inr (), demo_signed_db)"
    by (simp add: q_markOpenStreamSessionsOrphaned_def demo_tables)
qed (use that in \<open>simp add: stream_NewService_def\<close>)

lemma demo_title_handler:
  "p_mux c (demo_title_request\<lparr>rq_user := Some u\<rparr>) newWriter
   = p_updateTitle c (demo_title_request\<lparr>rq_user := Some u\<rparr>) newWriter"
  by (simp add: p_mux_def web_eval demo_title_request_def p_RequireAuth_def UserFromContext_def)

lemma demo_title_advances:
  assumes d: "sdb (a_streams a) = demo_signed_db"
  obtains r r1 p k where "accept_request c demo_title_request = Authenticating r ''t''"
    "advance c (demo_app_env 6000) (Authenticating r ''t'', a) = (Running r1 p, a)"
    "advance c (demo_app_env 6000) (Running r1 p, a) = (Running r1 (CallTitle 1 ''mine'' k), a)"
proof -
  have t: "text_ok ''t''" by (rule text_ok_ascii) auto
  have u: "SessionUser NetOk ''t'' 6000 demo_signed_db = Inr (newUser emptyDB ''alice'' ''a@b'' ''hash'' 5000)"
    by (simp add: SessionUser_def stmt_def q_getSessionWithUser_def one_row_def t demo_tables to_ts_def)
  have ch: "ChannelForUser NetOk 1 demo_signed_db = Inr (newChannel emptyDB ''alice'' (HashKey ''live_k'') 5000)"
    by (simp add: ChannelForUser_def stmt_def q_getChannelByUserID_def one_row_def demo_tables)
  show thesis
    by (rule that [of demo_title_request "demo_title_request\<lparr>rq_user := Some (newUser emptyDB ''alice'' ''a@b'' ''hash'' 5000)\<rparr>"])
       (simp add: accept_request_def demo_title_request_def demo_request_def r_Cookie_def,
        simp add: advance_def demo_app_env_def demo_req_env_def d u demo_title_handler Let_def,
        simp add: advance_def demo_app_env_def demo_req_env_def d ch p_updateTitle_def demo_title_request_def
          demo_request_def UserFromContext_def form_Get_def newUser_def newChannel_def emptyDB_def)
qed

theorem channels_change_by_owner_witness:
  "\<exists>sv0 sv r p u. boot demo_server_deps demo_boot demo_signed_db {||} = Inr sv0 \<and>
     runE (server_step demo_server_deps ascending)
       [Accept 0 demo_title_request, Advance 0 (demo_app_env 6000), Advance 0 (demo_app_env 6000)] sv0 = Inr sv \<and>
     fmlookup (sv_pending sv) 0 = Some (Running r p) \<and> rq_user r = Some u \<and> u \<in> set (users demo_signed_db) \<and> u_id u = 1"
proof -
  let ?env = "demo_app_env 6000"
  let ?step = "server_step demo_server_deps ascending"
  let ?es = "[Accept 0 demo_title_request, Advance 0 ?env, Advance 0 ?env]"
  let ?ch = "newChannel emptyDB ''alice'' (HashKey ''live_k'') 5000"
  obtain sv0 where b: "boot demo_server_deps demo_boot demo_signed_db {||} = Inr sv0" "sv_phase sv0 = Serving"
    "sv_pending sv0 = fmempty" and d: "sdb (a_streams (sv_app sv0)) = demo_signed_db" by (rule demo_signed_boots)
  from d obtain r r1 p k where adv: "accept_request (sv_ctx sv0) demo_title_request = Authenticating r ''t''"
    "advance (sv_ctx sv0) ?env (Authenticating r ''t'', sv_app sv0) = (Running r1 p, sv_app sv0)"
    "advance (sv_ctx sv0) ?env (Running r1 p, sv_app sv0) = (Running r1 (CallTitle 1 ''mine'' k), sv_app sv0)"
    by (rule demo_title_advances)
  obtain sv where sv: "runE ?step ?es sv0 = Inr sv" "sv_phase sv = Serving" "sv_app sv = sv_app sv0"
    "fmlookup (sv_pending sv) 0 = Some (Running r1 (CallTitle 1 ''mine'' k))"
    using b(2,3) adv by (simp add: serve_accept_def serve_advance_def)
  have t: "text_ok ''mine''" by (rule text_ok_ascii) auto
  obtain sv' where sv': "?step (Advance 0 ?env) sv = Inr sv'"
    "channels (sdb (a_streams (sv_app sv'))) = [?ch\<lparr>c_title := ''mine''\<rparr>]"
    using sv(2,4) d
    by (simp add: serve_advance_def advance_def on_db_def auth_UpdateChannelTitle_def stmt_def q_updateChannelTitle_def t sv(3)
        demo_app_env_def demo_req_env_def case_prod_beta) (simp add: demo_tables)
  have ch: "?ch \<in> set (channels (sdb (a_streams (sv_app sv))))" "?ch \<notin> set (channels (sdb (a_streams (sv_app sv'))))"
    by (simp add: sv(3) d demo_tables, simp add: sv'(2) newChannel_def)
  have "c_user_id ?ch = 1" by (simp add: newChannel_def emptyDB_def)
  with channels_change_by_owner [OF demo_signed_inv b(1) sv(1) sv'(1) ch] b(1) sv(1,3,4) d show ?thesis by auto
qed

end
