(* ===== verification/Server_Shutdown.thy ===== *)
theory Server_Shutdown
  imports Server_Requests
begin

text \<open>
  The shutdown sequence of \<open>run\<close>: what it owes every stream that is live when it starts, that it
  pays this in any interleaving, and that every run can be brought to its end.
\<close>

section \<open>Shutdown\<close>

lemma step_queue:
  assumes "own_stream_move e"
  shows "shutdownQueue (stream_step deps e s) = shutdownQueue s"
  using assms by (cases e; auto simp: step_defs tearDown_frame split: step_splits;
      auto simp: tearDown_phase_def Let_def split: tdstate.split)

text \<open>A finished \<open>tearDown\<close> stays finished, and a session in the queue leaves it only finished.\<close>

lemma done_stays:
  assumes "i < nextSess s" "td (sess s i) = TdDone r"
  shows "td (sess (stream_step deps e s) i) = TdDone r"
proof (cases "is_phase i e")
  case True
  then obtain env where "e = TearDown i env" by (cases e) auto
  then show ?thesis using assms by (simp add: tearDown_phase_def Let_def)
qed (use step_td_other [of i s r] assms in simp)

text \<open>What the shutdown owes session \<open>i\<close>: it waits for it, or has ended it.\<close>

definition owed :: "sid \<Rightarrow> server \<Rightarrow> bool" where
  "owed i sv \<longleftrightarrow>
     i < nextSess (a_streams (sv_app sv)) \<and>
     (sv_phase sv = LiveStopping \<and> i \<in> set (shutdownQueue (a_streams (sv_app sv))) \<or>
      (\<exists>r. td (sess (a_streams (sv_app sv)) i) = TdDone r)) \<and>
     sv_phase sv \<notin> {Serving, HttpDraining}"

definition chat_owed :: "server \<Rightarrow> bool" where
  "chat_owed sv \<longleftrightarrow>
     ((\<exists>rs. sv_phase sv = ChatClosing rs) \<or> sv_phase sv = Exited None \<longrightarrow> closed_down (world_of (a_chat (sv_app sv))))"

section \<open>The steps pay what is owed\<close>

definition stopping :: "phase \<Rightarrow> bool" where
  "stopping ph \<longleftrightarrow> ph = LiveStopping \<or> ph = ChatStopping \<or> (\<exists>rs. ph = ChatClosing rs) \<or> ph = Exited None"

text \<open>
  \<open>Shutdown\<close> of the chat ranges over the map of rooms: every key is visited, in some order.  An
  event of a good day moreover has its \<open>EndStreamSession\<close> executed and acknowledged.
\<close>

fun ranges_all :: "server_event \<Rightarrow> bool" where
  "ranges_all (ChatShutdown names) = (\<forall>A. set (names A) = fset A)"
| "ranges_all _ = True"

fun tidy :: "server_event \<Rightarrow> bool" where
  "tidy (StreamMove (TearDown i env)) = (te_net env = NetOk)"
| "tidy (ChatShutdown names) = (\<forall>A. set (names A) = fset A)"
| "tidy _ = True"

lemma tidy_ranges: "tidy e \<Longrightarrow> ranges_all e"
  by (cases e) simp_all

lemma owed_streams:
  assumes o: "owed i sv" and e: "own_stream_move e"
  shows "owed i (in_streams (stream_step deps e) sv)"
proof -
  let ?s = "a_streams (sv_app sv)"
  have i: "i < nextSess ?s" using o by (simp add: owed_def)
  show ?thesis
    using o step_session(1) [OF i, of deps e] done_stays [OF i, of _ deps e] step_queue [OF e, of deps ?s]
    by (auto simp: owed_def in_streams_def)
qed

lemma owed_live_Shutdown:
  assumes o: "owed i sv" and ph: "sv_phase sv = LiveStopping"
  shows "owed i (live_Shutdown sv)"
proof (cases "shutdownQueue (a_streams (sv_app sv))")
  case Nil
  then show ?thesis using o by (auto simp: live_Shutdown_def owed_def)
next
  case (Cons j q)
  let ?s = "a_streams (sv_app sv)"
  have i: "i < nextSess ?s" using o by (simp add: owed_def)
  have "i \<in> set (shutdownQueue (shutdown_next ?s)) \<or> (\<exists>r. td (sess (shutdown_next ?s) i) = TdDone r)"
  proof (cases "\<exists>r. td (sess ?s i) = TdDone r")
    case True
    then show ?thesis using done_stays [OF i, of _ undefined ShutdownNext] by auto
  next
    case False
    then have "i \<in> set (shutdownQueue ?s)" using o by (auto simp: owed_def)
    with False Cons show ?thesis by (cases "td (sess ?s j)") (auto simp: shutdown_next_def tearDown_frame)
  qed
  then show ?thesis using step_session(1) [OF i, of undefined ShutdownNext] Cons ph
    by (auto simp: live_Shutdown_def owed_def in_streams_def)
qed

lemma owed_frame:
  assumes "owed i sv" "a_streams (sv_app sv') = a_streams (sv_app sv)"
    "sv_phase sv' = sv_phase sv \<or> sv_phase sv \<noteq> LiveStopping \<and> stopping (sv_phase sv')"
  shows "owed i sv'"
  using assms by (auto simp: owed_def stopping_def)

lemma owed_step:
  assumes o: "owed i sv" and step: "server_step dp iter e sv = Inr sv'"
  shows "owed i sv'"
proof (cases e)
  case (StreamMove e')
  then show ?thesis using o step owed_streams [OF o] by (auto split: if_splits)
next
  case LiveShutdown
  then show ?thesis using owed_live_Shutdown [OF o] o step by (auto split: if_splits)
next
  case (ChatMove e')
  then show ?thesis using o step by (auto simp: in_chat_def split: if_splits intro: owed_frame [OF o])
next
  case (ChatShutdown names)
  then show ?thesis using o step
    by (auto simp: chat_Shutdown_def Let_def stopping_def split: if_splits intro!: owed_frame [OF o])
next
  case Return
  then show ?thesis using o step
    by (auto simp: stopping_def run_return_def split: phase.splits if_splits intro!: owed_frame [OF o])
qed (use o step in \<open>auto simp: owed_def split: if_splits\<close>)

text \<open>Behind \<open>srv.Shutdown\<close> the streams change by their own moves and by the loop of \<open>ShutdownLive\<close> only.\<close>

lemma stopping_streams:
  assumes "stopping (sv_phase sv)" "server_step dp iter e sv = Inr sv'"
  obtains "a_streams (sv_app sv') = a_streams (sv_app sv)"
  | "e = LiveShutdown" "a_streams (sv_app sv') = stream_step (dp_stream dp) ShutdownNext (a_streams (sv_app sv))"
  | e' where "e = StreamMove e'" "a_streams (sv_app sv') = stream_step (dp_stream dp) e' (a_streams (sv_app sv))"
  using assms by (cases e) (auto simp: stopping_def in_streams_def in_chat_def live_Shutdown_def chat_Shutdown_def
      run_return_def Let_def split: if_splits phase.splits)

lemma row_kept_server:
  assumes "server_inv dp sv" "stopping (sv_phase sv)" "row_kept i row (a_streams (sv_app sv))"
    and step: "server_step dp iter e sv = Inr sv'"
    and net: "\<And>env. e = StreamMove (TearDown i env) \<Longrightarrow> te_net env \<noteq> LostBefore"
  shows "row_kept i row (a_streams (sv_app sv'))"
proof -
  have k: "row_kept i row (stream_step (dp_stream dp) e' (a_streams (sv_app sv)))"
    if "\<And>env. e' = TearDown i env \<Longrightarrow> te_net env \<noteq> LostBefore" for e'
    by (rule row_kept_step) (use assms(1,3) that in \<open>auto simp: server_inv_def\<close>)
  show ?thesis
    by (rule stopping_streams [OF assms(2) step]) (use assms(3) k k [of ShutdownNext] net in auto)
qed

lemma chat_owed_step:
  assumes o: "chat_owed sv" "stopping (sv_phase sv)" and t: "ranges_all e" and step: "server_step dp iter e sv = Inr sv'"
  shows "chat_owed sv' \<and> stopping (sv_phase sv')"
proof (cases e)
  case (ChatMove e')
  then show ?thesis using o step closed.law_ws
    by (auto simp: chat_owed_def in_chat_def split: if_splits)
next
  case (ChatShutdown names)
  then show ?thesis using o t step closed_down_Shutdown [of names]
    by (auto simp: chat_owed_def chat_Shutdown_def stopping_def Let_def split: if_splits)
next
  case LiveShutdown
  then show ?thesis using o step
    by (auto simp: chat_owed_def live_Shutdown_def stopping_def in_streams_def split: if_splits)
qed (use o step in \<open>auto simp: chat_owed_def stopping_def in_streams_def run_return_def split: if_splits phase.splits\<close>)

lemma exited_run: "runE (server_step dp iter) es sv = Inr sv' \<Longrightarrow> sv_phase sv = Exited res \<Longrightarrow> sv' = sv"
proof (induction es arbitrary: sv)
  case (Cons e es)
  have "server_step dp iter e sv = Inr sv" using Cons.prems(2) by (cases e) (auto simp: running_phase_def)
  then show ?case using Cons by auto
qed simp

lemma snapshot_live:
  assumes "stream_inv s" "set (names (fmdom (registry s))) = fset (fmdom (registry s))" "live s i"
  shows "i \<in> set (registry_snapshot names (registry s))"
proof -
  have "fmlookup (registry s) (channelName (sess s i)) = Some i"
    using assms(1,3) by (simp add: stream_inv_def registry_inv_def)
  moreover from this have "channelName (sess s i) \<in> set (names (fmdom (registry s)))"
    using assms(2) by (simp add: fmdomI)
  ultimately show ?thesis by (auto simp: registry_snapshot_def List.map_filter_def intro: rev_image_eqI)
qed

section \<open>The shutdown never gets stuck\<close>

text \<open>ffmpeg exits, and the phases of \<open>tearDown\<close> follow.\<close>

definition wind_down :: "sid \<Rightarrow> pid \<Rightarrow> stream_event list" where
  "wind_down i p = ProcExit p None # replicate 6 (TearDown i \<lparr>te_grace = False, te_net = NetOk, te_now = 0, te_rmOk = True\<rparr>)"

lemma wind_down_own: "list_all own_stream_move (wind_down i p)" "list_all tidy (map StreamMove (wind_down i p))"
  by (simp_all add: wind_down_def numeral_eq_Suc)

lemma wind_down_done:
  assumes inv: "stream_inv s" "i < nextSess s" and r: "td_reason (td (sess s i)) = Some r"
  shows "td (sess (fold (stream_step deps) (wind_down i (ffmpeg (sess s i))) s) i) = TdDone r"
proof -
  let ?e = "ProcExit (ffmpeg (sess s i)) None"
  let ?s = "stream_step deps ?e s"
  have p: "ffmpeg (sess s i) < nextProc s" using inv by (simp add: stream_inv_def procs_inv_def)
  have td: "td (sess ?s i) = td (sess s i)" by (rule step_td_other [OF inv(2) r]) simp
  have "proc_done (procs ?s (ffmpeg (sess ?s i)))" using p by (simp add: proc_exit_def)
  moreover have "td_left (td (sess ?s i)) \<le> 6" using r td by (cases "td (sess s i)") simp_all
  ultimately show ?thesis
    unfolding wind_down_def fold_simps comp_def using td r
    by (intro tearDown_countdown [OF stream_inv_step [OF inv(1)] step_session(1) [OF inv(2)]])
       (simp_all add: numeral_eq_Suc)
qed

lemma fold_queue: "list_all own_stream_move es \<Longrightarrow> shutdownQueue (fold (stream_step deps) es s) = shutdownQueue s"
  by (induction es arbitrary: s) (simp_all add: step_queue)

lemma fold_nextSess: "i < nextSess s \<Longrightarrow> i < nextSess (fold (stream_step deps) es s)"
  by (induction es arbitrary: s) (simp_all add: step_session(1))

abbreviation queue :: "server \<Rightarrow> sid list" where
  "queue sv \<equiv> shutdownQueue (a_streams (sv_app sv))"

text \<open>One session of the snapshot: the loop starts its \<open>tearDown\<close>, waits, and goes on.\<close>

lemma pop_session:
  assumes inv: "server_inv dp sv" and ph: "sv_phase sv = LiveStopping" and q: "queue sv = j # q"
  shows "\<exists>es sv'. list_all tidy es \<and> runE (server_step dp iter) es sv = Inr sv' \<and>
    sv_phase sv' = LiveStopping \<and> queue sv' = q"
proof -
  let ?s = "a_streams (sv_app sv)"
  have s: "stream_inv ?s" "j < nextSess ?s" using inv q by (auto simp: server_inv_def stream_inv_def registry_inv_def)
  show ?thesis
  proof (cases "\<exists>r. td (sess ?s j) = TdDone r")
    case True
    then have "server_step dp iter LiveShutdown sv = Inr (in_streams (\<lambda>s. s\<lparr>shutdownQueue := q\<rparr>) sv)"
      using ph q by (auto simp: live_Shutdown_def in_streams_def shutdown_next_def)
    then show ?thesis using ph by (intro exI [of _ "[LiveShutdown]"]) (simp add: in_streams_def)
  next
    case False
    define sv1 where "sv1 = in_streams shutdown_next sv"
    let ?s1 = "a_streams (sv_app sv1)"
    have s1: "?s1 = stream_step (dp_stream dp) ShutdownNext ?s" by (simp add: sv1_def in_streams_def)
    have i1: "stream_inv ?s1" "j < nextSess ?s1"
      unfolding s1 by (rule stream_inv_step [OF s(1)], rule step_session(1) [OF s(2)])
    have q1: "queue sv1 = j # q" and r: "\<exists>r. td_reason (td (sess ?s1 j)) = Some r"
      using False q by (cases "td (sess ?s j)"; simp add: sv1_def in_streams_def shutdown_next_def tearDown_frame;
          simp add: tearDown_def)+
    from r obtain r where r: "td_reason (td (sess ?s1 j)) = Some r" ..
    let ?es = "wind_down j (ffmpeg (sess ?s1 j))"
    define sv2 where "sv2 = in_streams (fold (stream_step (dp_stream dp)) ?es) sv1"
    have ph1: "sv_phase sv1 = LiveStopping" using ph by (simp add: sv1_def in_streams_def)
    have run: "runE (server_step dp iter) (map StreamMove ?es) sv1 = Inr sv2"
      unfolding sv2_def by (rule run_stream_moves) (simp_all add: ph1 running_phase_def wind_down_own)
    have d2: "td (sess (a_streams (sv_app sv2)) j) = TdDone r" "queue sv2 = j # q" "sv_phase sv2 = LiveStopping"
      using wind_down_done [OF i1 r] fold_queue [OF wind_down_own(1)] q1 ph1 by (simp_all add: sv2_def in_streams_def)
    have "server_step dp iter LiveShutdown sv = Inr sv1" using ph q by (simp add: live_Shutdown_def sv1_def)
    moreover have "server_step dp iter LiveShutdown sv2 = Inr (in_streams (\<lambda>s. s\<lparr>shutdownQueue := q\<rparr>) sv2)"
      using d2 by (simp add: live_Shutdown_def in_streams_def shutdown_next_def)
    ultimately have "runE (server_step dp iter) (LiveShutdown # map StreamMove ?es @ [LiveShutdown]) sv
        = Inr (in_streams (\<lambda>s. s\<lparr>shutdownQueue := q\<rparr>) sv2)"
      using run by (simp add: runE_append)
    moreover have "list_all tidy (LiveShutdown # map StreamMove ?es @ [LiveShutdown])" using wind_down_own(2) by simp
    moreover have "sv_phase (in_streams (\<lambda>s. s\<lparr>shutdownQueue := q\<rparr>) sv2) = LiveStopping"
      "queue (in_streams (\<lambda>s. s\<lparr>shutdownQueue := q\<rparr>) sv2) = q" using d2(3) by (simp_all add: in_streams_def)
    ultimately show ?thesis by blast
  qed
qed

lemma finish_live:
  "server_inv dp sv \<Longrightarrow> sv_phase sv = LiveStopping \<Longrightarrow>
   \<exists>es sv'. list_all tidy es \<and> runE (server_step dp iter) es sv = Inr sv' \<and> sv_phase sv' = ChatStopping"
proof (induction "queue sv" arbitrary: sv)
  case Nil
  then show ?case by (intro exI [of _ "[LiveShutdown]"]) (simp add: live_Shutdown_def)
next
  case (Cons j q)
  obtain es sv1 where e: "list_all tidy es" "runE (server_step dp iter) es sv = Inr sv1"
    "sv_phase sv1 = LiveStopping" "queue sv1 = q"
    using pop_session [OF Cons.prems] Cons.hyps(2) by metis
  have "server_inv dp sv1" using Cons.prems(1) e(2) by (rule servers.inv_runE)
  then obtain es' sv' where "list_all tidy es'" "runE (server_step dp iter) es' sv1 = Inr sv'" "sv_phase sv' = ChatStopping"
    using Cons.hyps(1) e(3,4) by metis
  with e show ?case by (intro exI [of _ "es @ es'"]) (simp add: runE_append)
qed

lemma finish_closing:
  "server_inv dp sv \<Longrightarrow> sv_phase sv = ChatClosing rs \<Longrightarrow>
   \<exists>es sv'. list_all tidy es \<and> runE (server_step dp iter) es sv = Inr sv' \<and> sv_phase sv' = Exited None"
proof (induction "closing (world_of (a_chat (sv_app sv)))" arbitrary: sv)
  case Nil
  then show ?case by (intro exI [of _ "[Return]"]) (simp add: run_return_def)
next
  case (Cons r cl)
  let ?w = "world_of (a_chat (sv_app sv))"
  have cl: "closing ?w = r # cl" using Cons.hyps(2) by simp
  obtain w where w: "closeStop r ?w = Inr w"
    using stops_close [of ?w r] Cons.prems(1) cl by (auto simp: server_inv_def)
  define sv1 where "sv1 = sv\<lparr>sv_app := (sv_app sv)\<lparr>a_chat := (a_chat (sv_app sv))\<lparr>world_of := w\<rparr>\<rparr>\<rparr>"
  have s1: "server_step dp iter (ChatMove (RunClose r)) sv = Inr sv1"
    using w cl Cons.prems(2) by (simp add: in_chat_def mgr_move_def running_phase_def sv1_def)
  have c1: "closing (world_of (a_chat (sv_app sv1))) = cl" "sv_phase sv1 = ChatClosing rs"
    using w cl Cons.prems(2) by (auto simp: sv1_def closeStop_def split: if_splits)
  obtain es sv' where "list_all tidy es" "runE (server_step dp iter) es sv1 = Inr sv'" "sv_phase sv' = Exited None"
    using Cons.hyps(1) [of sv1] server_inv_step [OF Cons.prems(1) s1] c1 by metis
  with s1 show ?case by (intro exI [of _ "ChatMove (RunClose r) # es"]) simp
qed

lemma finish:
  assumes inv: "server_inv dp sv" and ph: "stopping (sv_phase sv)"
  shows "\<exists>es sv'. list_all tidy es \<and> runE (server_step dp iter) es sv = Inr sv' \<and> sv_phase sv' = Exited None"
proof -
  let ?goal = "\<lambda>sv. \<exists>es sv'. list_all tidy es \<and> runE (server_step dp iter) es sv = Inr sv' \<and> sv_phase sv' = Exited None"
  have chain: "?goal sv" if "list_all tidy es" "runE (server_step dp iter) es sv = Inr sv1" "?goal sv1" for es sv sv1
  proof -
    from that(3) obtain es' sv'
      where "list_all tidy es'" "runE (server_step dp iter) es' sv1 = Inr sv'" "sv_phase sv' = Exited None" by blast
    with that(1,2) show ?thesis by (intro exI [of _ "es @ es'"]) (simp add: runE_append)
  qed
  let ?names = "\<lambda>A :: string fset. sorted_list_of_set (fset A)"
  have chat: "?goal sv" if "server_inv dp sv" "sv_phase sv = ChatStopping" for sv
  proof (rule chain [of "[ChatShutdown ?names]"])
    have s: "server_step dp iter (ChatShutdown ?names) sv = Inr (chat_Shutdown ?names sv)" using that(2) by simp
    then show "runE (server_step dp iter) [ChatShutdown ?names] sv = Inr (chat_Shutdown ?names sv)" by simp
    show "?goal (chat_Shutdown ?names sv)"
      by (rule finish_closing [OF server_inv_step [OF that(1) s]]) (simp add: chat_Shutdown_def Let_def)
  qed simp
  have "?goal sv" if "sv_phase sv = LiveStopping"
    using finish_live [OF inv that] chain chat servers.inv_runE [OF inv] by metis
  moreover have "?goal sv" if "sv_phase sv = Exited None"
    using that by (intro exI [of _ "[]"]) simp
  ultimately show ?thesis using ph chat [OF inv] finish_closing [OF inv] by (auto simp: stopping_def)
qed

section \<open>The pool and the requests\<close>

text \<open>The pool is open exactly while \<open>run\<close> runs, and behind \<open>srv.Shutdown\<close> no request is in flight.\<close>

definition phase_inv :: "server \<Rightarrow> bool" where
  "phase_inv sv \<longleftrightarrow> (sv_pool sv \<longleftrightarrow> running_phase (sv_phase sv)) \<and> (stopping (sv_phase sv) \<longrightarrow> sv_pending sv = fmempty)"

lemmas phase_defs = phase_inv_def running_phase_def stopping_def run_return_def store_Close_def

lemma phase_inv_booted: "booted dp sv \<Longrightarrow> phase_inv sv"
  by (auto simp: booted_def phase_defs elim!: boot_result)

lemma phase_inv_step: "phase_inv sv \<Longrightarrow> server_step dp iter e sv = Inr sv' \<Longrightarrow> phase_inv sv'"
proof (cases e)
  case (Accept k r)
  assume "phase_inv sv" "server_step dp iter e sv = Inr sv'"
  then show ?thesis by (auto simp: Accept phase_defs serve_accept_def split: if_splits)
next
  case (Advance k env)
  assume "phase_inv sv" "server_step dp iter e sv = Inr sv'"
  then show ?thesis by (auto simp: Advance phase_defs serve_advance_def split: if_splits option.splits prod.splits)
next
  case (Respond k env)
  assume "phase_inv sv" "server_step dp iter e sv = Inr sv'"
  then show ?thesis
    by (auto simp: Respond phase_defs serve_respond_def split: if_splits option.splits pending.splits prog.splits)
qed (auto simp: phase_defs in_streams_def in_chat_def http_Shutdown_def live_Shutdown_def chat_Shutdown_def Let_def
    split: if_splits option.splits phase.splits)

interpretation phases: partial_system "booted dp" "server_step dp iter" phase_inv for dp iter
  by unfold_locales (auto intro: phase_inv_booted phase_inv_step)

lemma stopping_run:
  assumes inv: "server_inv dp sv" and run: "runE (server_step dp iter) es sv = Inr sv'" "list_all ranges_all es"
    and st: "stopping (sv_phase sv)" "chat_owed sv"
  shows "chat_owed sv' \<and> stopping (sv_phase sv')"
proof (rule servers.run_related [where P = "\<lambda>s. chat_owed s \<and> stopping (sv_phase s)", OF inv _ run(1)])
  fix e s t assume "e \<in> set es" "chat_owed s \<and> stopping (sv_phase s)" "server_step dp iter e s = Inr t"
  moreover from this have "ranges_all e" using run(2) by (simp add: list_all_iff)
  ultimately show "chat_owed t \<and> stopping (sv_phase t)" using chat_owed_step by blast
qed (use st in simp)

lemma row_kept_run:
  assumes inv: "server_inv dp sv" and run: "runE (server_step dp iter) es sv = Inr sv'" "list_all ranges_all es"
    and st: "stopping (sv_phase sv)" "chat_owed sv" and k: "row_kept i row (a_streams (sv_app sv))"
    and net: "\<And>env. StreamMove (TearDown i env) \<in> set es \<Longrightarrow> te_net env \<noteq> LostBefore"
  shows "row_kept i row (a_streams (sv_app sv'))"
proof -
  let ?P = "\<lambda>s. row_kept i row (a_streams (sv_app s)) \<and> chat_owed s \<and> stopping (sv_phase s)"
  have "?P sv'"
  proof (rule servers.run_related [where P = ?P, OF inv _ run(1)])
    fix e s t assume e: "e \<in> set es" "server_inv dp s" "?P s" "server_step dp iter e s = Inr t"
    have "ranges_all e" using run(2) e(1) by (simp add: list_all_iff)
    then have "chat_owed t \<and> stopping (sv_phase t)" using e chat_owed_step by blast
    moreover have "row_kept i row (a_streams (sv_app t))"
      by (rule row_kept_server [OF e(2) _ _ e(4)]) (use e(1,3) net in auto)
    ultimately show "?P t" by blast
  qed (use st k in simp)
  then show ?thesis by blast
qed

section \<open>An orderly end\<close>

text \<open>
  C2: stopping the server ends every stream and every room.  Take any run of the booted process up
  to the return of \<open>srv.Shutdown\<close>.  If that succeeds, then from every later state, whatever
  publishers, viewers, ffmpeg and the database did in between, the process can still run to its
  end, and it ends only with status 0, with no request in flight and with the connection pool
  closed; the \<open>tearDown\<close> of every stream that was live when \<open>srv.Shutdown\<close> returned has
  finished, with its row closed if its \<open>EndStreamSession\<close> reached the database; no chat room is
  registered and none can be created, and every room there ever was has its \<open>stop\<close> channel closed
  or about to be closed by the goroutine that took it out of the map.  (A stream that gets on air
  after the snapshot is not waited for.)  If \<open>srv.Shutdown\<close> fails, the process exits at once:
  the pool is closed, the streams on air are not ended and their rows stay open.
\<close>

theorem orderly_shutdown:
  assumes "account_inv d" "1 \<le> seq_stream d" "boot dp be d fs = Inr sv0"
    and run: "runE (server_step dp iter) es sv0 = Inr sv1" "sv_phase sv1 = HttpDraining"
    and stop: "server_step dp iter (HttpShutdown ok names) sv1 = Inr sv2" "sv_phase sv2 \<noteq> HttpDraining" "\<forall>A. set (names A) = fset A"
    and rest: "runE (server_step dp iter) es' sv2 = Inr sv3" "list_all ranges_all es'"
    and w3: "w3 = world_of (a_chat (sv_app sv3))"
  shows "(ok \<longrightarrow>
      (\<exists>es'' sv4. list_all tidy es'' \<and> runE (server_step dp iter) es'' sv3 = Inr sv4 \<and> sv_phase sv4 = Exited None) \<and>
      (\<forall>res. sv_phase sv3 = Exited res \<longrightarrow> exit_status res = 0 \<and> sv_pending sv3 = fmempty \<and> \<not> sv_pool sv3 \<and>
         (\<forall>i. live (a_streams (sv_app sv1)) i \<longrightarrow>
            (\<exists>r. td (sess (a_streams (sv_app sv3)) i) = TdDone r \<and>
               ((\<forall>env. StreamMove (TearDown i env) \<in> set es' \<longrightarrow> te_net env \<noteq> LostBefore) \<longrightarrow>
                  row_closed_as (sdb (a_streams (sv_app sv3))) (dbRowID (sess (a_streams (sv_app sv1)) i)) r))) \<and>
         rooms (mgr w3) = fmempty \<and> (\<forall>k < nextRoom w3. k \<in> set (closing w3 @ stopClosed w3)) \<and>
         (\<forall>nm. getOrCreate nm w3 = (None, w3)))) \<and>
    (\<not> ok \<longrightarrow> sv_phase sv3 = Exited (Some HttpShutdownFailed) \<and> \<not> sv_pool sv3 \<and>
      (\<forall>i. live (a_streams (sv_app sv1)) i \<longrightarrow> live (a_streams (sv_app sv3)) i \<and>
         (\<exists>x\<in>set (stream_sessions (sdb (a_streams (sv_app sv3)))).
            ss_id x = dbRowID (sess (a_streams (sv_app sv3)) i) \<and> ss_ended x = None)))"
proof -
  let ?s1 = "a_streams (sv_app sv1)" and ?s3 = "a_streams (sv_app sv3)"
  have "server_inv dp sv0" by (rule server_inv_booted) (use assms(1-3) in \<open>auto simp: booted_def\<close>)
  then have inv1: "server_inv dp sv1" using run(1) by (rule servers.inv_runE)
  have inv2: "server_inv dp sv2" using inv1 stop(1) by (rule server_inv_step)
  have "phase_inv sv0" by (rule phase_inv_booted) (use assms(1-3) in \<open>auto simp: booted_def\<close>)
  then have "phase_inv sv2" using phases.inv_runE [OF _ run(1)] phase_inv_step [OF _ stop(1)] by simp
  then have p3: "phase_inv sv3" using rest(1) by (rule phases.inv_runE)
  have s1: "stream_inv ?s1" using inv1 by (simp add: server_inv_def)
  have sv2: "sv2 = http_Shutdown ok names sv1" using stop(1,2) run(2) by (auto split: if_splits)
  show ?thesis
  proof (cases ok)
    case True
    have st2: "stopping (sv_phase sv2)" "chat_owed sv2"
      using True by (simp_all add: sv2 http_Shutdown_def stopping_def chat_owed_def)
    have chat: "chat_owed sv3 \<and> stopping (sv_phase sv3)"
      by (rule stopping_run [OF inv2 rest st2])
    have inv3: "server_inv dp sv3" using inv2 rest(1) by (rule servers.inv_runE)
    have "owed i sv2" if i: "live ?s1 i" for i
      using True i snapshot_live [OF s1 _ i] stop(3)
      by (simp add: sv2 http_Shutdown_def owed_def in_streams_def ShutdownLive_def live_def)
    then have owed: "owed i sv3" if "live ?s1 i" for i
      using servers.run_related [where P = "owed i", OF inv2 _ rest(1)] owed_step that by blast
    have kept: "row_kept i (dbRowID (sess ?s1 i)) ?s3"
      if i: "live ?s1 i" and net: "\<forall>env. StreamMove (TearDown i env) \<in> set es' \<longrightarrow> te_net env \<noteq> LostBefore" for i
    proof (rule row_kept_run [OF inv2 rest st2])
      show "row_kept i (dbRowID (sess ?s1 i)) (a_streams (sv_app sv2))"
        using True row_kept_step [OF s1 live_kept [OF i], of "Shutdown1 names"]
        by (simp add: sv2 http_Shutdown_def in_streams_def)
    qed (use net in blast)
    have "\<exists>es sv. list_all tidy es \<and> runE (server_step dp iter) es sv3 = Inr sv \<and> sv_phase sv = Exited None"
      using finish [OF inv3] chat by blast
    moreover have "exit_status res = 0 \<and> sv_pending sv3 = fmempty \<and> \<not> sv_pool sv3 \<and>
        (\<forall>i. live ?s1 i \<longrightarrow> (\<exists>r. td (sess ?s3 i) = TdDone r \<and>
           ((\<forall>env. StreamMove (TearDown i env) \<in> set es' \<longrightarrow> te_net env \<noteq> LostBefore) \<longrightarrow>
              row_closed_as (sdb ?s3) (dbRowID (sess ?s1 i)) r))) \<and>
        rooms (mgr w3) = fmempty \<and> (\<forall>k < nextRoom w3. k \<in> set (closing w3 @ stopClosed w3)) \<and>
        (\<forall>nm. getOrCreate nm w3 = (None, w3))"
      if "sv_phase sv3 = Exited res" for res
    proof (intro conjI allI impI)
      have res: "res = None" using chat that by (simp add: stopping_def)
      then show "exit_status res = 0" by (simp add: exit_status_def)
      show "sv_pending sv3 = fmempty" "\<not> sv_pool sv3" using p3 that res by (auto simp: phase_defs)
      show "\<exists>r. td (sess ?s3 i) = TdDone r \<and>
          ((\<forall>env. StreamMove (TearDown i env) \<in> set es' \<longrightarrow> te_net env \<noteq> LostBefore) \<longrightarrow>
             row_closed_as (sdb ?s3) (dbRowID (sess ?s1 i)) r)" if "live ?s1 i" for i
        using owed [OF that] kept [OF that] \<open>sv_phase sv3 = Exited res\<close> by (auto simp: owed_def row_kept_def)
      have cd: "closed_down w3" using chat that res by (simp add: chat_owed_def w3)
      then show none: "rooms (mgr w3) = fmempty" by (simp add: closed_down_def)
      show "k \<in> set (closing w3 @ stopClosed w3)" if "k < nextRoom w3" for k
        using inv3 none that by (simp add: server_inv_def all_placed_def w3)
      show "getOrCreate nm w3 = (None, w3)" for nm using cd by (simp add: closed_down_def getOrCreate_def)
    qed
    ultimately show ?thesis using True by blast
  next
    case False
    have sv3: "sv3 = sv2" by (rule exited_run [OF rest(1)]) (simp add: sv2 http_Shutdown_def False run_return_def)
    have "\<exists>x\<in>set (stream_sessions (sdb ?s1)). ss_id x = dbRowID (sess ?s1 i) \<and> ss_ended x = None" if "live ?s1 i" for i
    proof -
      have "owns ?s1 (Sess i) = Some (dbRowID (sess ?s1 i), channelID (sess ?s1 i), channelName (sess ?s1 i))"
        using that by (cases "td (sess ?s1 i)") (simp_all add: live_def)
      from owned_row [OF s1 this] show ?thesis by (auto simp: row_open_def)
    qed
    then show ?thesis using False by (simp add: sv3 sv2 http_Shutdown_def run_return_def store_Close_def)
  qed
qed

theorem orderly_shutdown_witness:
  "\<exists>sv0 es sv r. boot demo_server_deps demo_boot demo_db {||} = Inr sv0 \<and>
     runE (server_step demo_server_deps ascending) es sv0 = Inr sv \<and> sv_phase sv = Exited None \<and>
     row_closed_as (sdb (a_streams (sv_app sv))) 1 r"
proof -
  let ?names = "\<lambda>A :: string fset. sorted_list_of_set (fset A)"
  let ?step = "server_step demo_server_deps ascending"
  let ?es = "map StreamMove (goLive 0 ''live_k'') @ [Select SignalReceived]"
  obtain sv0 sv1 where b: "boot demo_server_deps demo_boot demo_db {||} = Inr sv0" "runE ?step ?es sv0 = Inr sv1"
    "sv_phase sv1 = HttpDraining" "sv_pending sv1 = fmempty" "live (a_streams (sv_app sv1)) 0" "dbRowID (sess (a_streams (sv_app sv1)) 0) = 1"
    by (rule demo_on_air)
  define sv2 where "sv2 = http_Shutdown True ?names sv1"
  have s: "?step (HttpShutdown True ?names) sv1 = Inr sv2" "sv_phase sv2 \<noteq> HttpDraining"
    using b(3,4) by (simp_all add: sv2_def http_Shutdown_def)
  have n: "\<forall>A. set (?names A) = fset A" by simp
  note shut = orderly_shutdown [OF demo_db_inv b(1-3) s(1,2) n]
  obtain es' sv3 where f: "list_all tidy es'" "runE ?step es' sv2 = Inr sv3" "sv_phase sv3 = Exited None"
    using shut [of "[]" sv2] by auto
  have t: "list_all ranges_all es'" "\<forall>env. StreamMove (TearDown 0 env) \<in> set es' \<longrightarrow> te_net env \<noteq> LostBefore"
    using f(1) tidy_ranges by (fastforce simp: list_all_iff)+
  from shut [OF f(2) t(1) refl] b(5,6) f(3) t(2) obtain r where "row_closed_as (sdb (a_streams (sv_app sv3))) 1 r" by auto
  moreover have "runE ?step (?es @ HttpShutdown True ?names # es') sv0 = Inr sv3"
    by (simp only: runE_append [of ?step ?es] runE.simps bindE_simps b(2) s(1) f(2))
  ultimately show ?thesis using b(1) f(3) by blast
qed

section \<open>Stopping is always possible\<close>

lemma own_moves_tidy: "set es \<subseteq> (\<Union>k. own_moves k) \<Longrightarrow> list_all tidy es"
  by (auto simp: list_all_iff)

text \<open>
  C16: the process can always be stopped.  From whatever state a run of the booted server has
  reached, with any requests in flight, any streams on air and any viewers in the rooms, there
  is a way to the end that the database's good days allow: the signal, every request in flight
  answered, the streams torn down, the rooms closed, and \<open>main\<close> returns without an error, the
  connection pool closed behind it.
\<close>

theorem server_can_stop:
  assumes "account_inv d" "1 \<le> seq_stream d" "boot dp be d fs = Inr sv0"
    and run: "runE (server_step dp iter) es sv0 = Inr sv" and on: "running_phase (sv_phase sv)"
  shows "\<exists>es' sv'. list_all tidy es' \<and> runE (server_step dp iter) es' sv = Inr sv' \<and>
    sv_phase sv' = Exited None \<and> sv_pending sv' = fmempty \<and> \<not> sv_pool sv'"
proof -
  let ?step = "server_step dp iter"
  let ?names = "\<lambda>A :: string fset. sorted_list_of_set (fset A)"
  have b: "booted dp sv0" using assms(1-3) by (auto simp: booted_def)
  have inv: "server_inv dp sv" and p: "phase_inv sv"
    using servers.inv_runE [OF server_inv_booted [OF b] run] phases.inv_runE [OF phase_inv_booted [OF b] run] by simp_all
  have drained: "\<exists>es' sv'. list_all tidy es' \<and> runE ?step es' s = Inr sv' \<and> sv_phase sv' = Exited None"
    if s: "server_inv dp s" "sv_phase s = HttpDraining" for s
  proof -
    obtain es1 s1 where e: "list_all tidy es1" "runE ?step es1 s = Inr s1" "sv_phase s1 = HttpDraining" "sv_pending s1 = fmempty"
      using requests_drain [of s dp iter] s(2) own_moves_tidy by fastforce
    have h: "?step (HttpShutdown True ?names) s1 = Inr (http_Shutdown True ?names s1)" using e(3,4) by simp
    have "server_inv dp (http_Shutdown True ?names s1)"
      using server_inv_step [OF servers.inv_runE [OF s(1) e(2)] h] .
    moreover have "stopping (sv_phase (http_Shutdown True ?names s1))" by (simp add: http_Shutdown_def stopping_def)
    ultimately obtain es2 sv' where "list_all tidy es2" "runE ?step es2 (http_Shutdown True ?names s1) = Inr sv'"
      "sv_phase sv' = Exited None" using finish [of dp _ iter] by blast
    with e(1,2) h show ?thesis by (intro exI [of _ "es1 @ HttpShutdown True ?names # es2"]) (simp add: runE_append)
  qed
  have "\<exists>es' sv'. list_all tidy es' \<and> runE ?step es' sv = Inr sv' \<and> sv_phase sv' = Exited None"
  proof (cases "sv_phase sv")
    case Serving
    then have s: "?step (Select SignalReceived) sv = Inr (sv\<lparr>sv_phase := HttpDraining\<rparr>)" by simp
    obtain es' sv' where "list_all tidy es'" "runE ?step es' (sv\<lparr>sv_phase := HttpDraining\<rparr>) = Inr sv'" "sv_phase sv' = Exited None"
      using drained [of "sv\<lparr>sv_phase := HttpDraining\<rparr>"] inv by auto
    with s show ?thesis by (intro exI [of _ "Select SignalReceived # es'"]) simp
  qed (use drained [OF inv] finish [OF inv] on in \<open>auto simp: stopping_def running_phase_def\<close>)
  then obtain es' sv' where e: "list_all tidy es'" "runE ?step es' sv = Inr sv'" "sv_phase sv' = Exited None" by blast
  have "phase_inv sv'" using p e(2) by (rule phases.inv_runE)
  then have "sv_pending sv' = fmempty" "\<not> sv_pool sv'" using e(3) by (simp_all add: phase_defs)
  with e show ?thesis by blast
qed

theorem server_can_stop_witness:
  "\<exists>sv0 sv es' sv'. boot demo_server_deps demo_boot demo_signed_db {||} = Inr sv0 \<and>
     runE (server_step demo_server_deps ascending) [Accept 0 demo_title_request, Advance 0 (demo_app_env 6000)] sv0 = Inr sv \<and>
     sv_pending sv \<noteq> fmempty \<and> runE (server_step demo_server_deps ascending) es' sv = Inr sv' \<and> sv_phase sv' = Exited None"
proof -
  obtain sv0 where b: "boot demo_server_deps demo_boot demo_signed_db {||} = Inr sv0" "sv_phase sv0 = Serving"
    "sv_pending sv0 = fmempty" by (rule demo_signed_boots)
  obtain sv where sv: "runE (server_step demo_server_deps ascending) [Accept 0 demo_title_request, Advance 0 (demo_app_env 6000)] sv0 = Inr sv"
    "sv_phase sv = Serving" "fmlookup (sv_pending sv) 0 \<noteq> None"
    using b(2,3) by (simp add: serve_accept_def serve_advance_def case_prod_beta)
  have "running_phase (sv_phase sv)" by (simp add: sv(2) running_phase_def)
  from server_can_stop [OF demo_signed_inv b(1) sv(1) this] b(1) sv(1,3) show ?thesis by fastforce
qed

end
