(* ===== verification/Spec2Isabelle.thy ===== *)
theory Spec2Isabelle
  imports Chat_Faults Chat_Messages Server_Shutdown
begin

text \<open>
  Verification of chtiwt, a live-streaming server: RTMP ingest into ffmpeg, HLS playback, a chat
  per channel, accounts with stream keys, PostgreSQL behind all of it.

  \<^bold>\<open>The program and its model.\<close>  The sources are the Go files under \<open>src/\<close>.  Each theory models one
  component as the code has it: structs are records, enumerations and error values are datatypes,
  a fallible function returns \<open>'e + 'a\<close>, an operation takes the state and returns it.  A goroutine
  is a step function: one event is one atomic move (a critical section, an arm of a \<open>select\<close>, one
  database statement, a phase between two blocking calls), so a list of events is an interleaving,
  and a theorem about all lists is one about all interleavings.  An arm of a room is one step, with
  the \<open>scheduleReap\<close> it may call; writers take messages between arms and during the backlog of a join.
  The stderr drain may be cut short at any byte by \<open>cmd.Wait\<close>, as in the code.

  \<^item> \<open>Prelude\<close>: results, runs of steps, slices, durations, the locales of step systems.
  \<^item> \<open>Filepath\<close>, \<open>Encoding\<close>, \<open>Utf8\<close>, \<open>Float64\<close>, \<open>Http\<close>: what the code uses of Go's standard library,
    written out: path cleaning, base64 and SHA-256, UTF-8 decoding and trimming, double precision
    with its rounding, response writer, cookies and the routing rules of \<open>ServeMux\<close>.
  \<^item> \<open>Config\<close> (\<open>internal/config\<close>): \<open>Load\<close> with \<open>ParseBool\<close> and \<open>ParseDuration\<close>.
  \<^item> \<open>Store\<close> (\<open>internal/store\<close>): the tables with their constraints, one function per query,
    transactions, \<open>Migrate\<close>, \<open>Open\<close> and \<open>Close\<close>.
  \<^item> \<open>Streamkey\<close>, \<open>Auth\<close>, \<open>Auth_Props\<close> (\<open>internal/auth\<close>, \<open>stream/streamkey.go\<close>): validation, passwords,
    keys, sessions, sign-up, login, titles.
  \<^item> \<open>Ringbuf\<close>, \<open>Ffmpeg\<close> (\<open>stream/ringbuf.go\<close>, \<open>stream/ffmpeg.go\<close>): the stderr tail and the subprocess.
  \<^item> \<open>Stream\<close>, \<open>Stream_Props\<close>, \<open>Stream_Life\<close> (\<open>internal/stream\<close>): live registry, sessions with the
    phases of \<open>tearDown\<close>, the stages of \<open>OnPublish\<close>, recovery; the step is \<open>stream_step\<close>.
  \<^item> \<open>Refcount\<close>, \<open>Chat_Hub\<close>, \<open>Chat_Room\<close>, \<open>Chat_Props\<close>, \<open>Chat_Window\<close>, \<open>Chat_Faults\<close> (\<open>chat/hub.go\<close>): the room
    actor, its counting maps, history and viewer count; the step is \<open>room_step\<close>.
  \<^item> \<open>Ratelimit\<close>, \<open>Chat_Manager\<close>, \<open>Chat_Ws\<close>, \<open>Chat_Messages\<close>, \<open>Chat_Stops\<close> (\<open>chat/ratelimit.go\<close>,
    \<open>manager.go\<close>, \<open>service.go\<close>, \<open>ws.go\<close>): token buckets, rooms with reap timers, connections as reader
    and writer; the steps are \<open>mgr_step\<close> and \<open>ws_step\<close>.
  \<^item> \<open>Templates\<close>, \<open>Auth_Http\<close>, \<open>Web\<close>, \<open>Web_Props\<close>, \<open>Web_Pages\<close> (\<open>internal/web\<close>, \<open>auth/handlers.go\<close>,
    \<open>auth/middleware.go\<close>): every handler and route; \<open>web_serve\<close> is a request in one step.
  \<^item> \<open>Web_Calls\<close>, \<open>Web_Steps\<close>: the same handlers as trees of their calls (\<open>prog\<close>), a request in flight
    (\<open>pending\<close>) that \<open>advance\<close> takes from call to call and \<open>respond\<close> ends, and its equivalence with
    \<open>web_serve\<close> when nobody interferes.
  \<^item> \<open>Server\<close>, \<open>Server_Props\<close>, \<open>Server_Requests\<close>, \<open>Server_Shutdown\<close> (\<open>cmd/chtiwt/main.go\<close>): \<open>boot\<close>, and
    \<open>server_step\<close>, which composes the calls of any number of requests, stream and chat moves, the
    \<open>select\<close> and the shutdown sequence.

  \<^bold>\<open>How the parts meet.\<close>  A call of a request reads the registry or a viewer count, or applies at most
  one operation of the auth service to the tables (\<open>advance_op\<close>), and a reply may enter the chat
  under the account of its session (\<open>respond_chat\<close>).  Publishers look keys up in the same tables.
  What a handler may do whatever the others do is \<open>obeys\<close>, what holds of a request in flight
  \<open>request_ok\<close>; \<open>server_inv\<close> joins it with the invariants of the parts; the locale \<open>partial_system\<close>,
  interpreted as \<open>servers\<close> and \<open>phases\<close>, lifts both to runs.

  \<^bold>\<open>What is shown.\<close>  For the whole process: consistency from boot to exit, channels changed only by
  their owners however requests interleave, the orderly shutdown, and that it is always possible
  (\<open>Server_Props\<close>, \<open>Server_Requests\<close>, \<open>Server_Shutdown\<close>).  Streams: registry, rows and sessions agree;
  \<open>tearDown\<close> ends, with the row closed if the database was reached; recovery on every branch; rotated
  keys are revoked; and the ways in which a row or a directory is lost.  Accounts: sign-up is atomic under any fault, logins and sessions round-trip,
  only owners change channels.  Chat: orderly clients never make a room panic, joiners receive the
  history window if their buffer takes it, joins and leaves are announced, with the count, once per
  person, the viewer count is exact while queues have room, messages are valid and attributed, the rate is bounded with the rounding of doubles; and the event orders on which a
  room panics, strands a viewer or is stopped with viewers in it.  Web: only owners change a channel, the two
  descriptions of a request agree (\<open>undisturbed_request\<close>, which ties \<open>Web_Calls\<close> to \<open>Web\<close>), pages show what is live, login leads to the dashboard, files stay below
  the state directory.  Library code: the ring buffer refines the last n bytes written, keys and
  tokens are faithful, durations round-trip, ffmpeg writes into the directory of its channel only.

  \<^bold>\<open>Bounds.\<close>  No definition uses fuel: loops are structural or have a measure.  Channel capacities,
  history size, message and buffer limits are the constants of the code.  The viewer count is a
  32-bit word, durations are kept in the \<open>int64\<close> range, the sum of \<open>ParseDuration\<close> wraps at \<open>2 ^ 64\<close>;
  times and database ids are unbounded integers.

  \<^bold>\<open>Parameters.\<close>  bcrypt, \<open>mail.ParseAddress\<close>, \<open>json.Unmarshal\<close>, the FLV codec, map iteration order,
  clocks, random bytes, and the outcome of every system call and database round trip are arguments.

  \<^bold>\<open>Not modelled.\<close>  The HTML and JavaScript of the templates (a page is its name and data); log
  output, so also \<open>requestLogger\<close>; the RTMP and WebSocket wire protocols and what the file server
  does with a path inside the state directory (third-party or library code); the pools and
  contexts of the database driver; build and deployment files.  A statement or a transaction is
  one step, so anomalies of concurrent transactions are outside the model, as are paths with
  percent-escapes in the literal part of a route and fused multiply-add.
\<close>

end
